(* ===== verification/Prelude.thy ===== *)
theory Prelude
  imports
    Main
    "HOL-Library.Word"
    "HOL-Library.DAList"
    "HOL-Library.Monad_Syntax"
    "HOL-Library.Code_Target_Nat"
begin

text \<open>
  The vocabulary shared by the whole development: the machine integers of the code, the
  representation of a Rust panic, the Rust \<open>HashMap\<close>, and the fact collections that the
  component theories feed.

  \<^item> A value of type \<open>'a may_panic\<close> is the result of a Rust expression that can panic:
    \<open>None\<close> is the panic, \<open>Some v\<close> the value. A Rust \<open>Option<T>\<close> that comes out of such
    an expression is therefore an \<open>'a option may_panic\<close>.
  \<^item> A \<open>HashMap<K, V>\<close> is an association list with distinct keys (the library type
    \<open>alist\<close>); the iteration order of the list stands for one of the orders Rust may pick.
\<close>

section \<open>Fact collections\<close>

named_theorems str_simps \<open>rewrite rules about the model of Rust strings\<close>
named_theorems frame_simps \<open>fields an operation leaves unchanged\<close>
named_theorems inv_intros \<open>operations preserve the invariant of their component\<close>

section \<open>Machine integers\<close>

type_synonym u8 = "8 word"
type_synonym u16 = "16 word"
type_synonym u32 = "32 word"
type_synonym u64 = "64 word"

definition saturating_sub :: "'a::len word \<Rightarrow> 'a word \<Rightarrow> 'a word" where
  "saturating_sub a b = (if a < b then 0 else a - b)"

definition saturating_add :: "'a::len word \<Rightarrow> 'a word \<Rightarrow> 'a word" where
  "saturating_add a b = (if unat a + unat b < 2 ^ LENGTH('a) then a + b else - 1)"

lemma unat_saturating_sub: "unat (saturating_sub a b) = unat a - unat b"
  by (simp add: saturating_sub_def word_less_nat_alt unat_sub_if')

lemma saturating_sub_self [simp]: "saturating_sub a a = 0"
  by (simp add: saturating_sub_def)

lemma unat_saturating_add:
  "unat (saturating_add a b) = min (unat a + unat b) (2 ^ LENGTH('a) - 1)"
  for a b :: "'a::len word"
proof (cases "unat a + unat b < 2 ^ LENGTH('a)")
  case True
  then show ?thesis by (simp add: saturating_add_def unat_word_ariths)
next
  case False
  then show ?thesis by (simp add: saturating_add_def unsigned_minus_1_eq_mask mask_eq_exp_minus_1 not_less)
qed

lemma unat_of_nat_small: "n < 2 ^ LENGTH('a) \<Longrightarrow> unat (of_nat n :: 'a::len word) = n"
  by (simp add: unat_of_nat)

lemma unat_add_small:
  fixes now :: u64
  assumes "unat now + e < 2 ^ 64"
  shows "unat (now + of_nat e) = unat now + e"
proof -
  have "unat (of_nat e :: u64) = e" using assms by (intro unat_of_nat_small) simp
  with assms show ?thesis by (simp add: unat_word_ariths)
qed

section \<open>Panics\<close>

type_synonym 'a may_panic = "'a option"

abbreviation (input) panics :: "'a may_panic \<Rightarrow> bool" where
  "panics r \<equiv> r = None"

end
