(* ===== verification/Rust_Map.thy ===== *)
theory Rust_Map
  imports Prelude
begin

text \<open>
  The Rust \<open>HashMap\<close> as the code uses it: \<open>get\<close>, \<open>insert\<close>, \<open>remove\<close>, \<open>retain\<close>,
  \<open>len\<close>, \<open>values\<close> and \<open>clear\<close>. The laws are stated once, as the locale \<open>kv_table\<close>,
  the facts the components need are proved inside it, and the locale is interpreted on the
  association-list model.
\<close>

section \<open>The operations\<close>

type_synonym ('k, 'v) hashmap = "('k, 'v) alist"

definition hm_empty :: "('k, 'v) hashmap" where
  "hm_empty = DAList.empty"

definition hm_get :: "('k, 'v) hashmap \<Rightarrow> 'k \<Rightarrow> 'v option" where
  "hm_get m k = DAList.lookup m k"

definition hm_insert :: "'k \<Rightarrow> 'v \<Rightarrow> ('k, 'v) hashmap \<Rightarrow> ('k, 'v) hashmap" where
  "hm_insert k v m = DAList.update k v m"

definition hm_remove :: "'k \<Rightarrow> ('k, 'v) hashmap \<Rightarrow> ('k, 'v) hashmap" where
  "hm_remove k m = DAList.delete k m"

definition hm_retain :: "('k \<Rightarrow> 'v \<Rightarrow> bool) \<Rightarrow> ('k, 'v) hashmap \<Rightarrow> ('k, 'v) hashmap" where
  "hm_retain P m = DAList.filter (\<lambda>(k, v). P k v) m"

definition hm_len :: "('k, 'v) hashmap \<Rightarrow> nat" where
  "hm_len m = length (DAList.impl_of m)"

definition hm_entries :: "('k, 'v) hashmap \<Rightarrow> ('k \<times> 'v) list" where
  "hm_entries m = DAList.impl_of m"

definition hm_values :: "('k, 'v) hashmap \<Rightarrow> 'v list" where
  "hm_values m = map snd (hm_entries m)"

text \<open>\<open>retain\<close> with a closure that also changes the value it is given.\<close>

lift_definition hm_map :: "('k \<Rightarrow> 'v \<Rightarrow> 'w) \<Rightarrow> ('k, 'v) hashmap \<Rightarrow> ('k, 'w) hashmap"
  is "\<lambda>f xs. map (\<lambda>(k, v). (k, f k v)) xs"
  by (simp add: comp_def case_prod_unfold)

section \<open>The contract of a key-value table\<close>

locale kv_table =
  fixes empty :: "'m"
    and get :: "'m \<Rightarrow> 'k \<Rightarrow> 'v option"
    and insert :: "'k \<Rightarrow> 'v \<Rightarrow> 'm \<Rightarrow> 'm"
    and remove :: "'k \<Rightarrow> 'm \<Rightarrow> 'm"
    and retain :: "('k \<Rightarrow> 'v \<Rightarrow> bool) \<Rightarrow> 'm \<Rightarrow> 'm"
    and len :: "'m \<Rightarrow> nat"
  assumes get_empty: "get empty k = None"
    and get_insert: "get (insert k v m) j = (if j = k then Some v else get m j)"
    and get_remove: "get (remove k m) j = (if j = k then None else get m j)"
    and get_retain: "get (retain P m) k =
          (case get m k of Some v \<Rightarrow> if P k v then Some v else None | None \<Rightarrow> None)"
    and len_empty: "len empty = 0"
    and len_insert: "len (insert k v m) = (if get m k = None then Suc (len m) else len m)"
    and len_remove: "len (remove k m) = (if get m k = None then len m else len m - 1)"
    and len_retain: "len (retain P m) \<le> len m"
begin

lemmas table_simps = get_empty get_insert get_remove get_retain len_empty

lemma get_retain_Some:
  "get (retain P m) k = Some v \<longleftrightarrow> get m k = Some v \<and> P k v"
  by (auto simp: get_retain split: option.splits if_splits)

lemma len_insert_le: "len (insert k v m) \<le> Suc (len m)"
  by (simp add: len_insert)

lemma len_remove_le: "len (remove k m) \<le> len m"
  by (simp add: len_remove)

text \<open>
  The capacity guard both bounded tables of the registrar run before an insertion: drop the
  dead entries when the table is full, and clear it when that did not help.
\<close>

lemma len_guarded_insert:
  assumes "0 < cap"
  shows "len (insert k v (if cap \<le> len m
            then (if cap \<le> len (retain P m) then empty else retain P m) else m)) \<le> cap"
proof -
  let ?m = "if cap \<le> len m
            then (if cap \<le> len (retain P m) then empty else retain P m) else m"
  from assms have "len ?m < cap" by (auto simp: len_empty)
  then show ?thesis using len_insert_le [of k v ?m] by linarith
qed

lemma get_guarded:
  assumes "get (if cap \<le> len m
            then (if cap \<le> len (retain P m) then empty else retain P m) else m) k = Some v"
  shows "get m k = Some v"
  using assms by (auto simp: get_empty get_retain_Some split: if_splits)

end

section \<open>Association lists provide it\<close>

lemma hm_get_filter_aux:
  "distinct (map fst xs) \<Longrightarrow>
   map_of (filter (\<lambda>(k, v). P k v) xs) k =
     (case map_of xs k of Some v \<Rightarrow> if P k v then Some v else None | None \<Rightarrow> None)"
proof (induction xs)
  case Nil
  then show ?case by simp
next
  case (Cons x xs)
  obtain a b where x: "x = (a, b)" by (cases x)
  from Cons.prems x have "a \<notin> fst ` set xs" by simp
  then have "map_of xs a = None" by (simp add: map_of_eq_None_iff)
  with Cons x show ?case by (auto split: option.splits)
qed

lemma length_AList_update:
  "length (AList.update k v xs) = (if map_of xs k = None then Suc (length xs) else length xs)"
  by (induction xs) auto

lemma length_AList_delete:
  "distinct (map fst xs) \<Longrightarrow>
   length (AList.delete k xs) = (if map_of xs k = None then length xs else length xs - 1)"
proof (induction xs)
  case Nil
  then show ?case by simp
next
  case (Cons x xs)
  obtain a b where x: "x = (a, b)" by (cases x)
  from Cons.prems x have a: "a \<notin> fst ` set xs" by simp
  show ?case
  proof (cases "a = k")
    case True
    with a have "AList.delete k xs = xs" by (simp add: delete_idem)
    with True x show ?thesis by simp
  next
    case False
    have "map_of xs k \<noteq> None \<Longrightarrow> 0 < length xs" by (cases xs) auto
    with Cons False x show ?thesis by auto
  qed
qed

interpretation hm: kv_table hm_empty hm_get hm_insert hm_remove hm_retain hm_len
proof unfold_locales
  fix k j :: 'k and v :: 'v and m :: "('k, 'v) hashmap" and P
  show "hm_get hm_empty k = None"
    by (simp add: hm_get_def hm_empty_def)
  show "hm_get (hm_insert k v m) j = (if j = k then Some v else hm_get m j)"
    by (simp add: hm_get_def hm_insert_def lookup_update)
  show "hm_get (hm_remove k m) j = (if j = k then None else hm_get m j)"
    by (simp add: hm_get_def hm_remove_def)
  show "hm_get (hm_retain P m) k =
      (case hm_get m k of Some v \<Rightarrow> if P k v then Some v else None | None \<Rightarrow> None)"
    by (simp add: hm_get_def hm_retain_def DAList.lookup.rep_eq DAList.filter.rep_eq
        hm_get_filter_aux)
  show "hm_len hm_empty = 0"
    by (simp add: hm_len_def hm_empty_def DAList.empty.rep_eq)
  show "hm_len (hm_insert k v m) = (if hm_get m k = None then Suc (hm_len m) else hm_len m)"
    unfolding hm_len_def hm_get_def hm_insert_def DAList.update.rep_eq DAList.lookup.rep_eq
    by (rule length_AList_update)
  show "hm_len (hm_remove k m) = (if hm_get m k = None then hm_len m else hm_len m - 1)"
    unfolding hm_len_def hm_get_def hm_remove_def DAList.delete.rep_eq DAList.lookup.rep_eq
    by (rule length_AList_delete) simp
  show "hm_len (hm_retain P m) \<le> hm_len m"
    by (simp add: hm_len_def hm_retain_def DAList.filter.rep_eq)
qed

lemmas hm_simps [simp] = hm.get_empty hm.get_insert hm.get_remove hm.len_empty

section \<open>Entries and values\<close>

lemma hm_get_entries: "hm_get m k = Some v \<longleftrightarrow> (k, v) \<in> set (hm_entries m)"
  by (simp add: hm_get_def hm_entries_def DAList.lookup.rep_eq)

lemma hm_values_get: "v \<in> set (hm_values m) \<longleftrightarrow> (\<exists>k. hm_get m k = Some v)"
  by (force simp: hm_values_def hm_get_entries)

lemma hm_entries_empty [simp]: "hm_entries hm_empty = []"
  by (simp add: hm_entries_def hm_empty_def DAList.empty.rep_eq)

lemma hm_entries_retain: "hm_entries (hm_retain P m) = filter (\<lambda>(k, v). P k v) (hm_entries m)"
  by (simp add: hm_entries_def hm_retain_def DAList.filter.rep_eq)

lemma hm_entries_insert: "hm_entries (hm_insert k v m) = AList.update k v (hm_entries m)"
  by (simp add: hm_entries_def hm_insert_def DAList.update.rep_eq)

lemma hm_entries_remove: "hm_entries (hm_remove k m) = AList.delete k (hm_entries m)"
  by (simp add: hm_entries_def hm_remove_def DAList.delete.rep_eq)

lemma hm_entries_map: "hm_entries (hm_map f m) = map (\<lambda>(k, v). (k, f k v)) (hm_entries m)"
  by (simp add: hm_entries_def hm_map.rep_eq)

lemma hm_get_map [simp]: "hm_get (hm_map f m) k = map_option (f k) (hm_get m k)"
proof -
  have "map_of (map (\<lambda>(k, v). (k, f k v)) xs) k = map_option (f k) (map_of xs k)" for xs
    by (induction xs) auto
  then show ?thesis by (simp add: hm_get_def DAList.lookup.rep_eq hm_map.rep_eq)
qed

lemma hm_get_map_of: "hm_get m k = map_of (hm_entries m) k"
  by (simp add: hm_get_def hm_entries_def DAList.lookup.rep_eq)

lemma hm_entries_distinct: "distinct (map fst (hm_entries m))"
  by (simp add: hm_entries_def)

text \<open>Sums over the values, as \<open>values().map(...).sum()\<close>.\<close>

definition hm_sum :: "('v \<Rightarrow> nat) \<Rightarrow> ('k, 'v) hashmap \<Rightarrow> nat" where
  "hm_sum f m = sum_list (map f (hm_values m))"

lemma sum_update:
  "distinct (map fst xs) \<Longrightarrow>
   sum_list (map (\<lambda>x. f (snd x)) (AList.update k v xs)) + (case map_of xs k of Some u \<Rightarrow> f u | None \<Rightarrow> 0) =
   sum_list (map (\<lambda>x. f (snd x)) xs) + (f v :: nat)"
proof (induction xs)
  case (Cons x xs)
  obtain a b where x: "x = (a, b)" by (cases x)
  show ?case
  proof (cases "a = k")
    case True
    then show ?thesis using x by simp
  next
    case False
    with Cons x show ?thesis by (cases "map_of xs k") auto
  qed
qed simp

lemma hm_sum_insert:
  "hm_sum f (hm_insert k v m) + (case hm_get m k of Some u \<Rightarrow> f u | None \<Rightarrow> 0) = hm_sum f m + f v"
  using sum_update [OF hm_entries_distinct [of m], of f k v]
  by (simp add: hm_sum_def hm_values_def hm_entries_insert hm_get_map_of comp_def)

lemma sum_list_filter_le: "sum_list (map f (filter P xs)) \<le> (sum_list (map f xs) :: nat)"
  by (induction xs) auto

lemma hm_sum_retain: "hm_sum f (hm_retain P m) \<le> hm_sum f m"
  by (simp add: hm_sum_def hm_values_def hm_entries_retain sum_list_filter_le
      flip: map_map add: map_map comp_def)

lemma hm_sum_map:
  "(\<And>k v. g (f k v) \<le> h v) \<Longrightarrow> hm_sum g (hm_map f m) \<le> hm_sum h m"
  by (simp add: hm_sum_def hm_values_def hm_entries_map comp_def case_prod_unfold sum_list_mono)

lemma hm_sum_remove: "hm_sum f (hm_remove k m) \<le> hm_sum f m"
proof -
  have "sum_list (map (\<lambda>x. f (snd x)) (AList.delete k xs)) \<le> sum_list (map (\<lambda>x. f (snd x)) xs)" for xs
    by (induction xs) auto
  then show ?thesis by (simp add: hm_sum_def hm_values_def hm_entries_remove comp_def)
qed

end
