(* ===== verification/Rust_Str.thy ===== *)
theory Rust_Str
  imports Prelude "HOL-Library.Char_ord"
begin

text \<open>
  The part of Rust's \<open>str\<close> that the signalling code uses, on byte strings. A \<open>char\<close> of HOL is
  one byte, so offsets and lengths are byte offsets and byte lengths, as in Rust.

  Bound: \<open>to_lower\<close>, \<open>to_upper\<close> and \<open>is_ws\<close> act on ASCII, where they agree with Rust's
  Unicode \<open>to_lowercase\<close>, \<open>to_uppercase\<close> and \<open>char::is_whitespace\<close>; bytes from 128 on are
  left alone and are not white space. SIP and SDP syntax is ASCII. Where an offset in the lower
  case text is used in the text itself, \<open>to_lowercase\<close> keeps the length that the code sees.
\<close>

section \<open>Characters\<close>

definition LF :: char where "LF = CHR 0x0A"
definition CR :: char where "CR = CHR 0x0D"
definition CRLF :: string where "CRLF = [CR, LF]"
definition DQ :: char where "DQ = CHR 0x22"

definition is_ws :: "char \<Rightarrow> bool" where
  "is_ws c \<longleftrightarrow> c \<in> {CHR 0x09, CHR 0x0A, CHR 0x0B, CHR 0x0C, CHR 0x0D, CHR 0x20}"

fun to_lower_char :: "char \<Rightarrow> char" where
  "to_lower_char c =
     (let n = (of_char c :: nat) in if 65 \<le> n \<and> n \<le> 90 then char_of (n + 32) else c)"

fun to_upper_char :: "char \<Rightarrow> char" where
  "to_upper_char c =
     (let n = (of_char c :: nat) in if 97 \<le> n \<and> n \<le> 122 then char_of (n - 32) else c)"

declare to_lower_char.simps [simp del] to_upper_char.simps [simp del]

definition to_lower :: "string \<Rightarrow> string" where "to_lower = map to_lower_char"
definition to_upper :: "string \<Rightarrow> string" where "to_upper = map to_upper_char"

definition eq_ignore_ascii_case :: "string \<Rightarrow> string \<Rightarrow> bool" where
  "eq_ignore_ascii_case a b \<longleftrightarrow> to_lower a = to_lower b"

text \<open>
  \<open>s.to_lowercase()\<close> where the code uses an offset found in it on \<open>s\<close> itself. The capital I with a dot
  above (bytes C4 B0) becomes an \<open>i\<close> and a combining dot (bytes 69 CC 87), one byte more; of
  the few letters whose lower case has another length it is the one modelled.
\<close>

fun to_lowercase :: "string \<Rightarrow> string" where
  "to_lowercase (c # d # s) =
     (if c = CHR 0xC4 \<and> d = CHR 0xB0 then CHR ''i'' # CHR 0xCC # CHR 0x87 # to_lowercase s
      else to_lower_char c # to_lowercase (d # s))"
| "to_lowercase s = to_lower s"

section \<open>Prefixes, searching, slices\<close>

fun starts_with :: "string \<Rightarrow> string \<Rightarrow> bool" where
  "starts_with s [] = True"
| "starts_with [] (p # ps) = False"
| "starts_with (c # s) (p # ps) = (c = p \<and> starts_with s ps)"

definition strip_prefix :: "string \<Rightarrow> string \<Rightarrow> string option" where
  "strip_prefix s p = (if starts_with s p then Some (drop (length p) s) else None)"

fun find_pred :: "(char \<Rightarrow> bool) \<Rightarrow> string \<Rightarrow> nat option" where
  "find_pred P [] = None"
| "find_pred P (c # s) = (if P c then Some 0 else map_option Suc (find_pred P s))"

definition find_char :: "char \<Rightarrow> string \<Rightarrow> nat option" where
  "find_char x = find_pred (\<lambda>c. c = x)"

fun find_str :: "string \<Rightarrow> string \<Rightarrow> nat option" where
  "find_str p [] = (if p = [] then Some 0 else None)"
| "find_str p (c # s) =
     (if starts_with (c # s) p then Some 0 else map_option Suc (find_str p s))"

definition contains_str :: "string \<Rightarrow> string \<Rightarrow> bool" where
  "contains_str s p \<longleftrightarrow> find_str p s \<noteq> None"

text \<open>\<open>&s[a..b]\<close> panics when \<open>a > b\<close> or \<open>b > s.len()\<close>.\<close>

definition str_slice :: "string \<Rightarrow> nat \<Rightarrow> nat \<Rightarrow> string may_panic" where
  "str_slice s a b = (if a \<le> b \<and> b \<le> length s then Some (take (b - a) (drop a s)) else None)"

text \<open>\<open>&s[a..]\<close> panics beyond the end and within a character, before one of its continuation bytes.\<close>

definition slice_from :: "string \<Rightarrow> nat \<Rightarrow> string may_panic" where
  "slice_from s a =
     (case drop a s of
        [] \<Rightarrow> if a = length s then Some [] else None
      | c # t \<Rightarrow> if 128 \<le> (of_char c :: nat) \<and> (of_char c :: nat) \<le> 191 then None else Some (c # t))"

section \<open>Trimming and splitting\<close>

definition trim_start :: "string \<Rightarrow> string" where "trim_start s = dropWhile is_ws s"
definition trim_end :: "string \<Rightarrow> string" where "trim_end s = rev (dropWhile is_ws (rev s))"
definition trim :: "string \<Rightarrow> string" where "trim s = trim_end (trim_start s)"

definition trim_end_matches :: "char \<Rightarrow> string \<Rightarrow> string" where
  "trim_end_matches x s = rev (dropWhile (\<lambda>c. c = x) (rev s))"

definition trim_matches :: "char \<Rightarrow> string \<Rightarrow> string" where
  "trim_matches x s = trim_end_matches x (dropWhile (\<lambda>c. c = x) s)"

text \<open>\<open>s.split(P)\<close>: always at least one piece.\<close>

fun split_on :: "(char \<Rightarrow> bool) \<Rightarrow> string \<Rightarrow> string list" where
  "split_on P [] = [[]]"
| "split_on P (c # s) =
     (if P c then [] # split_on P s
      else (case split_on P s of [] \<Rightarrow> [[c]] | w # ws \<Rightarrow> (c # w) # ws))"

definition split_char :: "char \<Rightarrow> string \<Rightarrow> string list" where
  "split_char x = split_on (\<lambda>c. c = x)"

definition split_whitespace :: "string \<Rightarrow> string list" where
  "split_whitespace s = filter (\<lambda>w. w \<noteq> []) (split_on is_ws s)"

text \<open>\<open>s.split(P).next().unwrap_or("")\<close>: the first piece.\<close>

definition first_piece :: "(char \<Rightarrow> bool) \<Rightarrow> string \<Rightarrow> string" where
  "first_piece P s = takeWhile (\<lambda>c. \<not> P c) s"

definition split_once :: "char \<Rightarrow> string \<Rightarrow> (string \<times> string) option" where
  "split_once x s = map_option (\<lambda>i. (take i s, drop (Suc i) s)) (find_char x s)"

text \<open>\<open>s.splitn(3, sep)\<close>.\<close>

fun splitn :: "nat \<Rightarrow> char \<Rightarrow> string \<Rightarrow> string list" where
  "splitn 0 x s = []"
| "splitn (Suc 0) x s = [s]"
| "splitn (Suc (Suc n)) x s =
     (case split_once x s of None \<Rightarrow> [s] | Some (a, b) \<Rightarrow> a # splitn (Suc n) x b)"

fun join :: "string \<Rightarrow> string list \<Rightarrow> string" where
  "join sep [] = []"
| "join sep [w] = w"
| "join sep (w # ws) = w @ sep @ join sep ws"

text \<open>
  \<open>s.lines()\<close>: the pieces between line feeds; one carriage return directly before a line feed
  belongs to the terminator, and an empty last piece is no line.
\<close>

definition strip_cr :: "string \<Rightarrow> string" where
  "strip_cr l = (if l \<noteq> [] \<and> last l = CR then butlast l else l)"

fun lines :: "string \<Rightarrow> string list" where
  "lines s =
     (let ps = split_char LF s
      in map strip_cr (butlast ps) @ (if last ps = [] then [] else [last ps]))"

declare lines.simps [simp del]

section \<open>Numbers\<close>

definition is_digit :: "char \<Rightarrow> bool" where
  "is_digit c \<longleftrightarrow> 48 \<le> (of_char c :: nat) \<and> (of_char c :: nat) \<le> 57"

definition digit_val :: "char \<Rightarrow> nat" where
  "digit_val c = of_char c - 48"

definition hex_val :: "char \<Rightarrow> nat option" where
  "hex_val c = (let n = (of_char c :: nat) in
     if 48 \<le> n \<and> n \<le> 57 then Some (n - 48)
     else if 97 \<le> n \<and> n \<le> 102 then Some (n - 87)
     else if 65 \<le> n \<and> n \<le> 70 then Some (n - 55) else None)"

fun digits_val :: "nat \<Rightarrow> string \<Rightarrow> nat option" where
  "digits_val acc [] = Some acc"
| "digits_val acc (c # s) =
     (if is_digit c then digits_val (10 * acc + digit_val c) s else None)"

fun hex_digits_val :: "nat \<Rightarrow> string \<Rightarrow> nat option" where
  "hex_digits_val acc [] = Some acc"
| "hex_digits_val acc (c # s) =
     (case hex_val c of Some d \<Rightarrow> hex_digits_val (16 * acc + d) s | None \<Rightarrow> None)"

text \<open>One leading \<open>+\<close> is accepted by Rust's integer parsers; a lone \<open>+\<close> is not.\<close>

definition strip_plus :: "string \<Rightarrow> string" where
  "strip_plus s = (case s of c # t \<Rightarrow> if c = CHR ''+'' then t else s | [] \<Rightarrow> [])"

definition parse_uint :: "nat \<Rightarrow> string \<Rightarrow> nat option" where
  "parse_uint w s =
     (let t = strip_plus s in
      if t = [] then None
      else (case digits_val 0 t of
              Some n \<Rightarrow> if n < 2 ^ w then Some n else None | None \<Rightarrow> None))"

definition parse_hex :: "nat \<Rightarrow> string \<Rightarrow> nat option" where
  "parse_hex w s =
     (let t = strip_plus s in
      if t = [] then None
      else (case hex_digits_val 0 t of
              Some n \<Rightarrow> if n < 2 ^ w then Some n else None | None \<Rightarrow> None))"

fun show_nat :: "nat \<Rightarrow> string" where
  "show_nat n = (if n < 10 then [char_of (48 + n)] else show_nat (n div 10) @ [char_of (48 + n mod 10)])"

declare show_nat.simps [simp del]

section \<open>UTF-8\<close>

text \<open>
  The validation of \<open>str::from_utf8\<close>: lead byte, continuation bytes, no overlong form, no
  surrogate, nothing above U+10FFFF.
\<close>

definition cont_byte :: "nat \<Rightarrow> bool" where
  "cont_byte n \<longleftrightarrow> 128 \<le> n \<and> n \<le> 191"

fun utf8_codes :: "nat list \<Rightarrow> bool" where
  "utf8_codes [] = True"
| "utf8_codes (a # xs) =
     (if a \<le> 127 then utf8_codes xs
      else if 194 \<le> a \<and> a \<le> 223 then
        (case xs of b # ys \<Rightarrow> cont_byte b \<and> utf8_codes ys | [] \<Rightarrow> False)
      else if 224 \<le> a \<and> a \<le> 239 then
        (case xs of b # c # ys \<Rightarrow>
            cont_byte b \<and> cont_byte c \<and> (a = 224 \<longrightarrow> 160 \<le> b) \<and> (a = 237 \<longrightarrow> b \<le> 159) \<and>
            utf8_codes ys
          | _ \<Rightarrow> False)
      else if 240 \<le> a \<and> a \<le> 244 then
        (case xs of b # c # d # ys \<Rightarrow>
            cont_byte b \<and> cont_byte c \<and> cont_byte d \<and>
            (a = 240 \<longrightarrow> 144 \<le> b) \<and> (a = 244 \<longrightarrow> b \<le> 143) \<and> utf8_codes ys
          | _ \<Rightarrow> False)
      else False)"

definition valid_utf8 :: "string \<Rightarrow> bool" where
  "valid_utf8 s = utf8_codes (map of_char s)"

section \<open>Facts\<close>

subsection \<open>Case\<close>

lemma length_to_lower [simp]: "length (to_lower s) = length s"
  by (simp add: to_lower_def)

lemma to_lower_append [str_simps]: "to_lower (s @ t) = to_lower s @ to_lower t"
  by (simp add: to_lower_def)

lemma to_lower_Nil [simp]: "to_lower [] = []"
  by (simp add: to_lower_def)

lemma to_lower_eq_Nil [simp]: "to_lower s = [] \<longleftrightarrow> s = []"
  by (simp add: to_lower_def)

lemma drop_to_lower: "drop n (to_lower s) = to_lower (drop n s)"
  by (simp add: to_lower_def drop_map)

lemma to_lower_char_idem [simp]: "to_lower_char (to_lower_char c) = to_lower_char c"
proof -
  let ?n = "of_char c :: nat"
  show ?thesis
  proof (cases "65 \<le> ?n \<and> ?n \<le> 90")
    case True
    then have l: "to_lower_char c = char_of (?n + 32)" by (simp add: to_lower_char.simps Let_def)
    have "(of_char (char_of (?n + 32) :: char) :: nat) = ?n + 32" using True by simp
    then have "to_lower_char (char_of (?n + 32)) = char_of (?n + 32)"
      using True by (simp add: to_lower_char.simps Let_def)
    with l show ?thesis by simp
  next
    case False
    then have "to_lower_char c = c" by (auto simp: to_lower_char.simps Let_def)
    then show ?thesis by simp
  qed
qed

lemma to_lower_idem [simp]: "to_lower (to_lower s) = to_lower s"
  by (simp add: to_lower_def)

subsection \<open>Prefixes\<close>

lemma starts_with_iff: "starts_with s p \<longleftrightarrow> (\<exists>t. s = p @ t)"
  by (induction s p rule: starts_with.induct) auto

lemma starts_with_append [simp]: "starts_with (p @ t) p"
  by (auto simp: starts_with_iff)

lemma starts_with_length: "starts_with s p \<Longrightarrow> length p \<le> length s"
  by (auto simp: starts_with_iff)

lemma starts_with_take: "starts_with s p \<longleftrightarrow> take (length p) s = p"
  by (metis append_eq_conv_conj append_take_drop_id starts_with_iff)

lemma starts_with_mono: "starts_with s p \<Longrightarrow> starts_with (s @ t) p"
  by (auto simp: starts_with_iff)

lemma starts_with_append_long: "length p \<le> length s \<Longrightarrow> starts_with (s @ t) p = starts_with s p"
  by (simp add: starts_with_take)

lemma starts_with_trans: "starts_with s p \<Longrightarrow> starts_with p q \<Longrightarrow> starts_with s q"
  by (auto simp: starts_with_iff)

text \<open>For the prefixes the code asks for, the two ways to lower the case of a text agree.\<close>

lemma to_lowercase_prefix:
  assumes "\<forall>c \<in> set p. (of_char c :: nat) < 128" "p = [] \<or> last p \<noteq> CHR ''i''"
  shows "starts_with (to_lowercase s) p \<longleftrightarrow> starts_with (to_lower s) p"
  using assms
proof (induction s arbitrary: p rule: to_lowercase.induct)
  case (1 c d s)
  show ?case
  proof (cases p)
    case (Cons a q)
    have tl: "to_lower (c # t) = to_lower_char c # to_lower t" for t by (simp add: to_lower_def)
    show ?thesis
    proof (cases "c = CHR 0xC4 \<and> d = CHR 0xB0")
      case True
      then have "to_lower_char c = CHR 0xC4" by (simp add: to_lower_char.simps)
      moreover have "a \<noteq> CHR 0xC4" "\<not> starts_with (CHR 0xCC # t) q" if "a = CHR ''i''" for t
        using "1.prems" that unfolding Cons by (cases q; auto)+
      ultimately show ?thesis using True "1.prems"(1) unfolding Cons tl by auto
    next
      case False
      then have "starts_with (to_lowercase (d # s)) q \<longleftrightarrow> starts_with (to_lower (d # s)) q"
        using "1.prems" by (intro "1.IH"(2)) (auto simp: Cons split: if_splits)
      then show ?thesis using False unfolding Cons tl by auto
    qed
  qed simp
qed simp_all

lemma to_lowercase_id: "CHR 0xC4 \<notin> set s \<Longrightarrow> to_lowercase s = to_lower s"
  by (induction s rule: to_lowercase.induct) (auto simp: to_lower_def)

lemma slice_from_end [simp]: "slice_from s (length s) = Some []"
  by (simp add: slice_from_def)

lemma slice_from_beyond: "length s < a \<Longrightarrow> slice_from s a = None"
  by (simp add: slice_from_def)

lemma slice_from_Some: "slice_from s a = Some t \<Longrightarrow> t = drop a s \<and> a \<le> length s"
  by (cases "a \<le> length s") (auto simp: slice_from_def split: list.splits if_splits)

subsection \<open>Searching\<close>

lemma find_pred_None: "find_pred P s = None \<longleftrightarrow> (\<forall>c \<in> set s. \<not> P c)"
  by (induction s) auto

lemma find_pred_Some:
  "find_pred P s = Some i \<Longrightarrow>
   i < length s \<and> P (s ! i) \<and> take i s = takeWhile (\<lambda>c. \<not> P c) s"
  by (induction s arbitrary: i) (auto split: if_splits)

lemma find_char_None: "find_char x s = None \<longleftrightarrow> x \<notin> set s"
  by (auto simp: find_char_def find_pred_None)

lemma find_char_Some:
  assumes "find_char x s = Some i"
  shows "i < length s" "s ! i = x" "x \<notin> set (take i s)"
proof -
  from assms have "find_pred (\<lambda>c. c = x) s = Some i" by (simp add: find_char_def)
  from find_pred_Some [OF this] show "i < length s" "s ! i = x" "x \<notin> set (take i s)"
    by (auto dest: set_takeWhileD)
qed

lemma find_char_append:
  "find_char x (s @ t) = (case find_char x s of Some i \<Rightarrow> Some i
     | None \<Rightarrow> (case find_char x t of Some j \<Rightarrow> Some (length s + j) | None \<Rightarrow> None))"
  unfolding find_char_def by (induction s) (auto split: option.splits)

lemma find_char_here [simp]: "x \<notin> set s \<Longrightarrow> find_char x (s @ x # t) = Some (length s)"
  by (induction s) (auto simp: find_char_def)

lemma find_str_Some:
  "find_str p s = Some i \<Longrightarrow> i + length p \<le> length s \<and> starts_with (drop i s) p"
proof (induction s arbitrary: i)
  case Nil
  then show ?case by (auto split: if_splits)
next
  case (Cons c s)
  show ?case
  proof (cases "starts_with (c # s) p")
    case True
    with Cons.prems starts_with_length [OF True] show ?thesis by auto
  next
    case False
    with Cons.prems obtain j where "find_str p s = Some j" "i = Suc j" by auto
    with Cons.IH show ?thesis by auto
  qed
qed

lemma find_str_first:
  "find_str p s = Some i \<Longrightarrow> j < i \<Longrightarrow> \<not> starts_with (drop j s) p"
proof (induction s arbitrary: i j)
  case Nil
  then show ?case by (auto split: if_splits)
next
  case (Cons c s)
  then show ?case by (cases j) (auto split: if_splits)
qed

text \<open>More input never moves a match that has been found.\<close>

lemma find_str_append:
  "find_str p s = Some i \<Longrightarrow> find_str p (s @ t) = Some i"
proof (induction s arbitrary: i)
  case Nil
  then have "p = []" "i = 0" by (auto split: if_splits)
  then show ?case by (cases t) auto
next
  case (Cons c s)
  show ?case
  proof (cases "starts_with (c # s) p")
    case True
    then have "starts_with ((c # s) @ t) p" by (rule starts_with_mono)
    with True Cons.prems show ?thesis by auto
  next
    case False
    with Cons.prems obtain j where j: "find_str p s = Some j" "i = Suc j" by auto
    then have "length p \<le> length s" using find_str_Some by fastforce
    then have "\<not> starts_with ((c # s) @ t) p"
      using False starts_with_append_long [of p "c # s" t] by simp
    with False j Cons.IH show ?thesis by simp
  qed
qed

lemma find_str_None: "find_str p s = None \<longleftrightarrow> (\<forall>i \<le> length s. \<not> starts_with (drop i s) p)"
proof (induction s)
  case Nil
  then show ?case by (cases p) auto
next
  case (Cons c s)
  show ?case
  proof
    assume n: "find_str p (c # s) = None"
    then have "\<not> starts_with (c # s) p" "\<forall>i \<le> length s. \<not> starts_with (drop i s) p"
      using Cons by (auto split: if_splits)
    then show "\<forall>i \<le> length (c # s). \<not> starts_with (drop i (c # s)) p"
      by (auto simp: drop_Cons split: nat.splits)
  next
    assume a: "\<forall>i \<le> length (c # s). \<not> starts_with (drop i (c # s)) p"
    then have "\<not> starts_with (c # s) p" by force
    moreover have "\<forall>i \<le> length s. \<not> starts_with (drop i s) p"
      using a by (metis Suc_le_mono drop_Suc_Cons length_Cons)
    ultimately show "find_str p (c # s) = None" using Cons by simp
  qed
qed

subsection \<open>Trimming\<close>

lemma trim_Nil [simp]: "trim [] = []"
  by (simp add: trim_def trim_start_def trim_end_def)

lemma trim_end_append_nonws:
  "c \<in> set s \<Longrightarrow> \<not> is_ws c \<Longrightarrow> trim_end (t @ s) = t @ trim_end s"
  by (simp add: trim_end_def dropWhile_append3 dropWhile_append1)

lemma trim_id:
  assumes "s \<noteq> []" "\<not> is_ws (hd s)" "\<not> is_ws (last s)"
  shows "trim s = s"
proof -
  from assms have "trim_start s = s"
    by (cases s) (auto simp: trim_start_def)
  moreover from assms have "dropWhile is_ws (rev s) = rev s"
    by (cases "rev s") (auto simp: hd_rev [symmetric])
  ultimately show ?thesis by (simp add: trim_def trim_end_def)
qed

lemma length_trim: "length (trim s) \<le> length s"
proof -
  have "length (trim s) \<le> length (trim_start s)"
    by (metis length_dropWhile_le length_rev trim_def trim_end_def)
  also have "\<dots> \<le> length s" by (simp add: trim_start_def length_dropWhile_le)
  finally show ?thesis .
qed

lemma set_trim: "set (trim s) \<subseteq> set s"
proof
  fix c assume "c \<in> set (trim s)"
  then have "c \<in> set (dropWhile is_ws (rev (trim_start s)))" by (simp add: trim_def trim_end_def)
  then have "c \<in> set (trim_start s)" using set_dropWhileD by fastforce
  then show "c \<in> set s" unfolding trim_start_def by (rule set_dropWhileD)
qed

lemma trim_hd_last:
  assumes "trim s \<noteq> []"
  shows "\<not> is_ws (hd (trim s))" "\<not> is_ws (last (trim s))"
proof -
  let ?u = "trim_start s"
  have t: "trim s = rev (dropWhile is_ws (rev ?u))" by (simp add: trim_def trim_end_def)
  with assms have ne: "dropWhile is_ws (rev ?u) \<noteq> []" by simp
  then have "\<not> is_ws (hd (dropWhile is_ws (rev ?u)))" by (rule hd_dropWhile)
  with t ne show "\<not> is_ws (last (trim s))" by (simp add: last_rev)
  have "rev (dropWhile is_ws (rev ?u)) @ rev (takeWhile is_ws (rev ?u)) = ?u"
    by (metis rev_append rev_rev_ident takeWhile_dropWhile_id)
  then obtain z where "?u = trim s @ z" using t by metis
  then have "hd (trim s) = hd ?u" "?u \<noteq> []" using assms by auto
  then show "\<not> is_ws (hd (trim s))" by (simp add: trim_start_def hd_dropWhile)
qed

lemma trim_idem [simp]: "trim (trim s) = trim s"
  by (cases "trim s = []") (simp_all add: trim_id trim_hd_last)

subsection \<open>Splitting and lines\<close>

lemma split_on_nonempty [simp]: "split_on P s \<noteq> []"
  by (cases s) (auto split: list.splits)

lemma split_on_none: "\<forall>c \<in> set s. \<not> P c \<Longrightarrow> split_on P s = [s]"
  by (induction s) auto

lemma split_on_append:
  "\<forall>c \<in> set s. \<not> P c \<Longrightarrow> P x \<Longrightarrow> split_on P (s @ x # t) = s # split_on P t"
  by (induction s) auto

lemma split_on_pieces: "w \<in> set (split_on P s) \<Longrightarrow> c \<in> set w \<Longrightarrow> \<not> P c \<and> c \<in> set s"
proof (induction s arbitrary: w)
  case Nil
  then show ?case by simp
next
  case (Cons a s)
  obtain v vs where sp: "split_on P s = v # vs" by (cases "split_on P s") auto
  show ?case
  proof (cases "P a")
    case True
    with Cons sp show ?thesis by (auto split: if_splits)
  next
    case False
    with Cons.prems sp have "w = a # v \<or> w \<in> set vs" by simp
    then show ?thesis using Cons.IH [of v] Cons.IH [of w] Cons.prems(2) sp False by auto
  qed
qed

lemma lines_Nil [simp]: "lines [] = []"
  by (simp add: lines.simps split_char_def)

lemma strip_cr_append [simp]: "strip_cr (l @ [CR]) = l"
  by (simp add: strip_cr_def)

lemma lines_line: "LF \<notin> set l \<Longrightarrow> lines (l @ CRLF @ t) = l # lines t"
proof -
  assume "LF \<notin> set l"
  then have "\<forall>c \<in> set (l @ [CR]). \<not> c = LF" by (auto simp: CR_def LF_def)
  from split_on_append [OF this, of LF t]
  have "split_char LF (l @ CRLF @ t) = (l @ [CR]) # split_char LF t"
    by (simp add: split_char_def CRLF_def)
  then show ?thesis by (simp add: lines.simps split_char_def Let_def)
qed

lemma lines_last: "LF \<notin> set l \<Longrightarrow> l \<noteq> [] \<Longrightarrow> lines l = [l]"
proof -
  assume a: "LF \<notin> set l" "l \<noteq> []"
  then have "split_char LF l = [l]" unfolding split_char_def by (intro split_on_none) auto
  with a show ?thesis by (simp add: lines.simps)
qed

lemma strip_cr_set: "set (strip_cr l) \<subseteq> set l"
  by (auto simp: strip_cr_def dest: in_set_butlastD)

lemma lines_piece:
  assumes "l \<in> set (lines s)"
  shows "\<exists>w \<in> set (split_on (\<lambda>c. c = LF) s). set l \<subseteq> set w"
proof -
  let ?ps = "split_on (\<lambda>c. c = LF) s"
  have ne: "last ?ps \<in> set ?ps" by simp
  from assms consider (inner) w where "w \<in> set ?ps" "l = strip_cr w" | (final) "l = last ?ps"
    by (auto simp: lines.simps Let_def split_char_def dest: in_set_butlastD split: if_splits)
  then show ?thesis using ne strip_cr_set by cases blast+
qed

lemma lines_no_LF: "l \<in> set (lines s) \<Longrightarrow> LF \<notin> set l"
  using lines_piece split_on_pieces by blast

lemma set_lines: "l \<in> set (lines s) \<Longrightarrow> set l \<subseteq> set s"
  using lines_piece split_on_pieces by blast

subsection \<open>Decimal numbers\<close>

lemma of_char_digit: "n < 10 \<Longrightarrow> (of_char (char_of (48 + n) :: char) :: nat) = 48 + n"
  by simp

lemma digit_of_char:
  assumes "n < 10"
  shows "is_digit (char_of (48 + n))" "digit_val (char_of (48 + n)) = n"
  using of_char_digit [OF assms] assms by (simp_all add: is_digit_def digit_val_def)

lemma digits_val_append:
  "digits_val acc (s @ t) = (case digits_val acc s of None \<Rightarrow> None | Some n \<Rightarrow> digits_val n t)"
  by (induction s arbitrary: acc) auto

lemma show_nat_digits: "digits_val 0 (show_nat n) = Some n"
proof (induction n rule: show_nat.induct)
  case (1 n)
  show ?case
  proof (cases "n < 10")
    case True
    then show ?thesis by (simp add: show_nat.simps [of n] digit_of_char)
  next
    case False
    have "n mod 10 < 10" by simp
    with False 1 show ?thesis
      by (simp add: show_nat.simps [of n] digits_val_append digit_of_char)
  qed
qed

lemma show_nat_all_digits: "c \<in> set (show_nat n) \<Longrightarrow> is_digit c"
proof (induction n rule: show_nat.induct)
  case (1 n)
  have m: "n mod 10 < 10" by simp
  show ?case
  proof (cases "n < 10")
    case True
    with "1.prems" show ?thesis by (simp add: show_nat.simps [of n] digit_of_char)
  next
    case False
    with 1 m show ?thesis by (auto simp: show_nat.simps [of n] digit_of_char)
  qed
qed

lemma show_nat_nonempty [simp]: "show_nat n \<noteq> []"
  by (subst show_nat.simps) simp

lemma show_nat_0 [simp]: "show_nat 0 = ''0''"
  by code_simp

lemma not_digit: "\<not> is_digit (CHR ''+'')" "\<not> is_digit LF" "\<not> is_digit CR"
  by (simp_all add: is_digit_def LF_def CR_def)

lemma digit_not_ws: "is_digit c \<Longrightarrow> \<not> is_ws c"
  by (auto simp: is_digit_def is_ws_def)

lemma show_nat_not_ws [simp]: "\<not> is_ws (hd (show_nat n))" "\<not> is_ws (last (show_nat n))"
proof -
  have "\<not> is_ws c" if "c \<in> set (show_nat n)" for c
    using that digit_not_ws show_nat_all_digits by blast
  then show "\<not> is_ws (hd (show_nat n))" "\<not> is_ws (last (show_nat n))" by simp_all
qed

lemma strip_plus_digits: "(\<And>c. c \<in> set s \<Longrightarrow> is_digit c) \<Longrightarrow> strip_plus s = s"
  using not_digit by (cases s) (auto simp: strip_plus_def)

lemma parse_show_nat [simp]: "n < 2 ^ w \<Longrightarrow> parse_uint w (show_nat n) = Some n"
  by (simp add: parse_uint_def strip_plus_digits [OF show_nat_all_digits] show_nat_digits Let_def)

lemma trim_show_nat [simp]: "trim (show_nat n) = show_nat n"
  by (rule trim_id) simp_all

lemma split_whitespace_no_LF:
  assumes "w \<in> set (split_whitespace s)"
  shows "LF \<notin> set w"
proof
  assume "LF \<in> set w"
  with assms split_on_pieces [of w is_ws s LF] show False
    by (auto simp: split_whitespace_def is_ws_def LF_def)
qed

lemma join_no_LF: "LF \<notin> set sep \<Longrightarrow> \<forall>w \<in> set ws. LF \<notin> set w \<Longrightarrow> LF \<notin> set (join sep ws)"
  by (induction sep ws rule: join.induct) auto

lemma show_nat_no_LF [simp]: "LF \<notin> set (show_nat n)"
  using show_nat_all_digits not_digit by blast

lemma parse_uint_bound: "parse_uint w s = Some n \<Longrightarrow> n < 2 ^ w"
  by (auto simp: parse_uint_def Let_def split: option.splits if_splits)

end
