(* ===== verification/Sip_Parser.thy ===== *)
theory Sip_Parser
  imports Rust_Str
begin

text \<open>
  \<open>src/sip/parser.rs\<close>: extraction of the fields of a SIP message and construction of
  responses. A message is its text; each \<open>extract_*\<close> function is a scan over the lines of the
  message. The functions that slice between the first \<open><\<close> and the first \<open>>\<close>, or at an offset
  found in a lower case copy, can panic in Rust, and are \<open>may_panic\<close> here. The random tag and branch come from outside (\<open>rand\<close>,
  \<open>hex\<close>), so they are arguments.
\<close>

section \<open>Extension numbers\<close>

definition uri_in_brackets :: "string \<Rightarrow> string may_panic" where
  "uri_in_brackets uri_str =
     (case find_char (CHR ''<'') uri_str of
        Some start \<Rightarrow>
          (case find_char (CHR ''>'') uri_str of
             Some fin \<Rightarrow> str_slice uri_str (start + 1) fin
           | None \<Rightarrow> Some uri_str)
      | None \<Rightarrow> Some uri_str)"

definition without_scheme :: "string \<Rightarrow> string" where
  "without_scheme uri_part =
     (let lower_uri = to_lower uri_part in
      if starts_with lower_uri ''sip:'' then drop 4 uri_part
      else if starts_with lower_uri ''sips:'' then drop 5 uri_part
      else if starts_with lower_uri ''tel:'' then drop 4 uri_part
      else uri_part)"

definition user_part :: "string \<Rightarrow> string option" where
  "user_part s =
     (case find_char (CHR ''@'') s of
        Some at_pos \<Rightarrow>
          (let user = first_piece (\<lambda>c. c = CHR '';'') (take at_pos s)
           in if user \<noteq> [] then Some user else None)
      | None \<Rightarrow>
          (let user = first_piece (\<lambda>c. c = CHR '';'') s
           in if user \<noteq> [] \<and> list_all is_digit user then Some user else None))"

definition extract_extension :: "string \<Rightarrow> string option may_panic" where
  "extract_extension uri_str =
     (case uri_in_brackets uri_str of
        None \<Rightarrow> None
      | Some uri_part \<Rightarrow> Some (user_part (without_scheme uri_part)))"

definition generate_branch :: "string \<Rightarrow> string" where
  "generate_branch random_part = ''z9hG4bK'' @ random_part"

section \<open>Responses\<close>

record resp_headers =
  via_headers :: "string list"
  from_header :: string
  to_header :: string
  call_id_header :: string
  cseq_header :: string

definition no_headers :: resp_headers where
  "no_headers = \<lparr>via_headers = [], from_header = [], to_header = [],
     call_id_header = [], cseq_header = []\<rparr>"

text \<open>The header loop, the same text in all three builders: its body and the loop.\<close>

definition copy_header :: "string \<Rightarrow> resp_headers \<Rightarrow> resp_headers" where
  "copy_header line_trimmed h =
     (let lower = to_lower line_trimmed in
      if starts_with lower ''via:'' \<or> starts_with lower ''v:''
        then h\<lparr>via_headers := via_headers h @ [line_trimmed]\<rparr>
      else if starts_with lower ''from:'' \<or> starts_with lower ''f:''
        then h\<lparr>from_header := line_trimmed\<rparr>
      else if starts_with lower ''to:'' \<or> starts_with lower ''t:''
        then h\<lparr>to_header := line_trimmed\<rparr>
      else if starts_with lower ''call-id:'' \<or> starts_with lower ''i:''
        then h\<lparr>call_id_header := line_trimmed\<rparr>
      else if starts_with lower ''cseq:''
        then h\<lparr>cseq_header := line_trimmed\<rparr>
      else h)"

fun scan_headers :: "string list \<Rightarrow> resp_headers \<Rightarrow> resp_headers" where
  "scan_headers [] h = h"
| "scan_headers (line # ls) h =
     (let line_trimmed = trim line in
      if line_trimmed = [] then h else scan_headers ls (copy_header line_trimmed h))"

definition add_to_tag :: "nat \<Rightarrow> string \<Rightarrow> string \<Rightarrow> string" where
  "add_to_tag status_code tag to_hdr =
     (if 100 < status_code \<and> \<not> contains_str (to_lower to_hdr) ''tag=''
      then to_hdr @ '';tag='' @ tag else to_hdr)"

text \<open>The status line and the copied headers: the common beginning of the three responses.\<close>

definition response_head :: "string \<Rightarrow> nat \<Rightarrow> string \<Rightarrow> string \<Rightarrow> string" where
  "response_head request status_code reason tag =
     (let h = scan_headers (lines request) no_headers;
          to_hdr = add_to_tag status_code tag (to_header h)
      in ''SIP/2.0 '' @ show_nat status_code @ '' '' @ reason @ CRLF
         @ concat (map (\<lambda>via. via @ CRLF) (via_headers h))
         @ from_header h @ CRLF
         @ to_hdr @ CRLF
         @ call_id_header h @ CRLF
         @ cseq_header h @ CRLF)"

definition extra_header_lines :: "(string \<times> string) list \<Rightarrow> string" where
  "extra_header_lines extra = concat (map (\<lambda>(name, v). name @ '': '' @ v @ CRLF) extra)"

definition build_response :: "string \<Rightarrow> nat \<Rightarrow> string \<Rightarrow> string \<Rightarrow> string" where
  "build_response request status_code reason tag =
     response_head request status_code reason tag @ ''Content-Length: 0'' @ CRLF @ CRLF"

definition build_response_with_headers ::
  "string \<Rightarrow> nat \<Rightarrow> string \<Rightarrow> (string \<times> string) list \<Rightarrow> string \<Rightarrow> string" where
  "build_response_with_headers request status_code reason extra_headers tag =
     response_head request status_code reason tag @ extra_header_lines extra_headers
     @ ''Content-Length: 0'' @ CRLF @ CRLF"

definition build_response_with_body ::
  "string \<Rightarrow> nat \<Rightarrow> string \<Rightarrow> (string \<times> string) list \<Rightarrow> string \<Rightarrow> string \<Rightarrow> string" where
  "build_response_with_body request status_code reason extra_headers body tag =
     response_head request status_code reason tag @ extra_header_lines extra_headers
     @ (if body \<noteq> [] then ''Content-Type: application/sdp'' @ CRLF else [])
     @ ''Content-Length: '' @ show_nat (length body) @ CRLF @ CRLF
     @ (if body \<noteq> [] then body else [])"

section \<open>Header fields\<close>

definition contact_end :: "string \<Rightarrow> string \<Rightarrow> nat \<Rightarrow> nat" where
  "contact_end lower_contact marker e =
     (case find_str marker lower_contact of Some pos \<Rightarrow> min e pos | None \<Rightarrow> e)"

definition contact_uri_of_value :: "string \<Rightarrow> string may_panic" where
  "contact_uri_of_value v =
     (case (find_char (CHR ''<'') v, find_char (CHR ''>'') v) of
        (Some start, Some fin) \<Rightarrow> str_slice v (start + 1) fin
      | _ \<Rightarrow>
          (let first_contact = trim (first_piece (\<lambda>c. c = CHR '','') v);
               lower_contact = to_lower first_contact;
               e = contact_end lower_contact '';q=''
                     (contact_end lower_contact '';expires='' (length first_contact))
           in Some (trim (take e first_contact))))"

fun contact_uri_lines :: "string list \<Rightarrow> string option may_panic" where
  "contact_uri_lines [] = Some None"
| "contact_uri_lines (line # ls) =
     (let trimmed = trim line; lower = to_lower trimmed in
      if starts_with lower ''contact:'' \<or> starts_with lower ''m:'' then
        map_option Some
          (contact_uri_of_value
             (if starts_with lower ''contact:'' then trim (drop 8 trimmed)
              else trim (drop 2 trimmed)))
      else contact_uri_lines ls)"

definition extract_contact_uri :: "string \<Rightarrow> string option may_panic" where
  "extract_contact_uri request = contact_uri_lines (lines request)"

fun call_id_lines :: "string list \<Rightarrow> string option" where
  "call_id_lines [] = None"
| "call_id_lines (line # ls) =
     (let trimmed = trim line; lower = to_lower trimmed in
      if starts_with lower ''call-id:'' then Some (trim (drop 8 trimmed))
      else if starts_with lower ''i:'' then Some (trim (drop 2 trimmed))
      else call_id_lines ls)"

definition extract_call_id :: "string \<Rightarrow> string option" where
  "extract_call_id msg = call_id_lines (lines msg)"

fun header_value_lines :: "string \<Rightarrow> nat \<Rightarrow> string list \<Rightarrow> string option" where
  "header_value_lines search_prefix n [] = None"
| "header_value_lines search_prefix n (line # ls) =
     (let trimmed = trim line in
      if starts_with (to_lower trimmed) search_prefix then Some (trim (drop (n + 1) trimmed))
      else header_value_lines search_prefix n ls)"

definition extract_header_value :: "string \<Rightarrow> string \<Rightarrow> string option" where
  "extract_header_value msg name =
     header_value_lines (to_lower name @ '':'') (length name) (lines msg)"

definition first_line :: "string \<Rightarrow> string option" where
  "first_line msg = (case lines msg of [] \<Rightarrow> None | l # _ \<Rightarrow> Some (trim l))"

definition extract_method :: "string \<Rightarrow> string option" where
  "extract_method msg =
     (case first_line msg of
        None \<Rightarrow> None
      | Some trimmed \<Rightarrow>
          if starts_with trimmed ''SIP/2.0'' then None
          else (case split_whitespace trimmed of [] \<Rightarrow> None | m # _ \<Rightarrow> Some (to_upper m)))"

definition extract_request_uri :: "string \<Rightarrow> string option" where
  "extract_request_uri msg =
     (case first_line msg of
        None \<Rightarrow> None
      | Some trimmed \<Rightarrow>
          if starts_with trimmed ''SIP/2.0'' then None
          else (case split_whitespace trimmed of _ # u # _ \<Rightarrow> Some u | _ \<Rightarrow> None))"

definition extract_status_code :: "string \<Rightarrow> nat option" where
  "extract_status_code msg =
     (case first_line msg of
        None \<Rightarrow> None
      | Some trimmed \<Rightarrow>
          if \<not> starts_with trimmed ''SIP/2.0'' then None
          else (case split_whitespace trimmed of _ # c # _ \<Rightarrow> parse_uint 16 c | _ \<Rightarrow> None))"

definition param_end :: "char \<Rightarrow> bool" where
  "param_end c \<longleftrightarrow> c = CHR '';'' \<or> c = CHR '','' \<or> is_ws c"

text \<open>
  The loop of \<open>extract_via_branch\<close>, \<open>extract_from_tag\<close> and \<open>extract_to_tag\<close>: the first
  non-empty parameter \<open>key\<close> of a header with the long name \<open>h1\<close> or the compact name \<open>h2\<close>. The
  offset found in the lower case line is used on the line itself.
\<close>

fun header_param :: "string \<Rightarrow> string \<Rightarrow> string \<Rightarrow> string list \<Rightarrow> string option may_panic" where
  "header_param h1 h2 key [] = Some None"
| "header_param h1 h2 key (line # ls) =
     (let trimmed = trim line; lower = to_lowercase trimmed in
      if starts_with lower h1 \<or> starts_with lower h2 then
        (case find_str key lower of
           Some pos \<Rightarrow>
             (case slice_from trimmed (pos + length key) of
                None \<Rightarrow> None
              | Some after \<Rightarrow>
                  (let p = first_piece param_end after
                   in if p \<noteq> [] then Some (Some p) else header_param h1 h2 key ls))
         | None \<Rightarrow> header_param h1 h2 key ls)
      else header_param h1 h2 key ls)"

definition extract_via_branch :: "string \<Rightarrow> string option may_panic" where
  "extract_via_branch msg = header_param ''via:'' ''v:'' ''branch='' (lines msg)"

definition extract_from_tag :: "string \<Rightarrow> string option may_panic" where
  "extract_from_tag msg = header_param ''from:'' ''f:'' ''tag='' (lines msg)"

definition extract_to_tag :: "string \<Rightarrow> string option may_panic" where
  "extract_to_tag msg = header_param ''to:'' ''t:'' ''tag='' (lines msg)"

fun cseq_method_lines :: "string list \<Rightarrow> string option" where
  "cseq_method_lines [] = None"
| "cseq_method_lines (line # ls) =
     (let trimmed = trim line in
      if starts_with (to_lower trimmed) ''cseq:'' then
        (case split_whitespace (trim (drop 5 trimmed)) of
           _ # m # _ \<Rightarrow> Some (to_upper m)
         | _ \<Rightarrow> cseq_method_lines ls)
      else cseq_method_lines ls)"

definition extract_cseq_method :: "string \<Rightarrow> string option" where
  "extract_cseq_method msg = cseq_method_lines (lines msg)"

text \<open>
  The two loops of \<open>extract_expires\<close>. The outer option says whether a header ended the loop,
  the inner one is what \<open>parse().ok()\<close> returned there.
\<close>

fun expires_header :: "string list \<Rightarrow> nat option option" where
  "expires_header [] = None"
| "expires_header (line # ls) =
     (let trimmed = trim line in
      if starts_with (to_lower trimmed) ''expires:''
      then Some (parse_uint 64 (trim (drop 8 trimmed)))
      else expires_header ls)"

fun contact_expires :: "string list \<Rightarrow> nat option may_panic" where
  "contact_expires [] = Some None"
| "contact_expires (line # ls) =
     (let trimmed = trim line; lower = to_lowercase trimmed in
      if starts_with lower ''contact:'' \<or> starts_with lower ''m:'' then
        (case find_str ''expires='' lower of
           Some pos \<Rightarrow>
             (case slice_from trimmed (pos + 8) of
                None \<Rightarrow> None
              | Some after \<Rightarrow>
                  Some (parse_uint 64 (first_piece (\<lambda>c. param_end c \<or> c = CHR ''>'') after)))
         | None \<Rightarrow> contact_expires ls)
      else contact_expires ls)"

definition extract_expires :: "string \<Rightarrow> nat option may_panic" where
  "extract_expires msg =
     (case expires_header (lines msg) of
        Some r \<Rightarrow> Some r
      | None \<Rightarrow> contact_expires (lines msg))"

definition extract_body :: "string \<Rightarrow> string option" where
  "extract_body msg =
     (case find_str (CRLF @ CRLF) msg of
        Some pos \<Rightarrow> (let body = drop (pos + 4) msg in if body \<noteq> [] then Some body else None)
      | None \<Rightarrow> None)"

definition is_request :: "string \<Rightarrow> bool" where
  "is_request msg =
     (case first_line msg of Some l \<Rightarrow> \<not> starts_with l ''SIP/2.0'' | None \<Rightarrow> False)"

definition is_response :: "string \<Rightarrow> bool" where
  "is_response msg =
     (case first_line msg of Some l \<Rightarrow> starts_with l ''SIP/2.0'' | None \<Rightarrow> False)"

definition compact_form :: "string \<Rightarrow> string option" where
  "compact_form lower_name =
     (if lower_name = ''from'' then Some ''f:''
      else if lower_name = ''to'' then Some ''t:''
      else if lower_name = ''contact'' then Some ''m:''
      else if lower_name = ''via'' then Some ''v:''
      else if lower_name = ''call-id'' then Some ''i:''
      else None)"

definition header_rest :: "string \<Rightarrow> string \<Rightarrow> string option" where
  "header_rest header_name line =
     (let trimmed = trim line; lower = to_lower trimmed in
      if starts_with lower (to_lower header_name @ '':'')
      then Some (drop (length header_name + 1) trimmed)
      else (case compact_form (to_lower header_name) of
              Some c \<Rightarrow> if starts_with lower c then Some (drop (length c) trimmed) else None
            | None \<Rightarrow> None))"

fun uri_lines :: "string \<Rightarrow> string list \<Rightarrow> string option may_panic" where
  "uri_lines header_name [] = Some None"
| "uri_lines header_name (line # ls) =
     (case header_rest header_name line of
        None \<Rightarrow> uri_lines header_name ls
      | Some v \<Rightarrow>
          (case (find_char (CHR ''<'') v, find_char (CHR ''>'') v) of
             (Some start, Some fin) \<Rightarrow> map_option Some (str_slice v (start + 1) fin)
           | _ \<Rightarrow>
               (let uri = trim (first_piece (\<lambda>c. c = CHR '';'') (trim v))
                in if uri \<noteq> [] then Some (Some uri) else uri_lines header_name ls)))"

definition extract_uri_from_header :: "string \<Rightarrow> string \<Rightarrow> string option may_panic" where
  "extract_uri_from_header msg header_name = uri_lines header_name (lines msg)"

section \<open>Lemmas\<close>

lemma first_piece_all: "\<forall>c \<in> set s. \<not> P c \<Longrightarrow> first_piece P s = s"
  by (simp add: first_piece_def takeWhile_eq_all_conv)

lemma user_part_at:
  assumes "user \<noteq> []" "CHR ''@'' \<notin> set user" "CHR '';'' \<notin> set user"
  shows "user_part (user @ CHR ''@'' # host) = Some user"
proof -
  have "first_piece (\<lambda>c. c = CHR '';'') user = user" using assms(3) by (intro first_piece_all) auto
  with assms show ?thesis by (simp add: user_part_def)
qed

lemma uri_in_brackets_between:
  assumes "CHR ''<'' \<notin> set pre" "CHR ''>'' \<notin> set pre" "CHR ''>'' \<notin> set uri"
  shows "uri_in_brackets (pre @ CHR ''<'' # uri @ CHR ''>'' # post) = Some uri"
proof -
  let ?s = "pre @ CHR ''<'' # uri @ CHR ''>'' # post"
  have "find_char (CHR ''<'') ?s = Some (length pre)" using assms(1) by simp
  moreover have "find_char (CHR ''>'') ((pre @ CHR ''<'' # uri) @ CHR ''>'' # post) =
      Some (length (pre @ CHR ''<'' # uri))"
    using assms(2,3) by (intro find_char_here) simp
  moreover have "str_slice ?s (length pre + 1) (length (pre @ CHR ''<'' # uri)) = Some uri"
    by (simp add: str_slice_def)
  ultimately show ?thesis by (simp add: uri_in_brackets_def)
qed

section \<open>Properties\<close>

text \<open>The caller or callee of a name-addr \<open>"Name" <sip:user@host;...>...\<close> is its user part,
  for the three URI schemes, whatever stands before and after the brackets.\<close>

theorem extension_of_name_addr:
  assumes "scheme \<in> {''sip:'', ''sips:''}"
    and "user \<noteq> []" "\<forall>c \<in> {CHR ''@'', CHR '';'', CHR ''>''}. c \<notin> set user" "CHR ''>'' \<notin> set host"
    and "CHR ''<'' \<notin> set display" "CHR ''>'' \<notin> set display"
  shows "extract_extension
     (display @ ''<'' @ scheme @ user @ ''@'' @ host @ ''>'' @ params) = Some (Some user)"
proof -
  have s: "CHR ''>'' \<notin> set scheme" using assms(1) by auto
  with assms have "uri_in_brackets (display @ CHR ''<'' # (scheme @ user @ ''@'' @ host) @ CHR ''>'' # params) =
      Some (scheme @ user @ ''@'' @ host)"
    by (intro uri_in_brackets_between) auto
  moreover have "without_scheme (scheme @ user @ ''@'' @ host) = user @ ''@'' @ host"
  proof -
    have "to_lower ''sip:'' = ''sip:''" "to_lower ''sips:'' = ''sips:''" by code_simp+
    then have "to_lower (scheme @ t) = scheme @ to_lower t" for t
      using assms(1) by (auto simp: to_lower_append simp del: append.simps)
    then show ?thesis using assms(1) by (auto simp: without_scheme_def Let_def)
  qed
  ultimately show ?thesis
    using user_part_at [OF assms(2), of host] assms(3) by (simp add: extract_extension_def)
qed

theorem extension_of_name_addr_witness:
  "extract_extension (''Bob '' @ ''<'' @ ''sip:'' @ ''1001'' @ ''@'' @ ''pbx'' @ ''>'' @ '';tag=1'') =
     Some (Some ''1001'')"
  by (rule extension_of_name_addr) code_simp+

text \<open>\<open>extract_extension\<close> panics exactly on the texts in which the first \<open>></\<close> comes before
  the first \<open><\<close>: the slice between the brackets has no other guard.\<close>

theorem extract_extension_panics_iff:
  "panics (extract_extension s) \<longleftrightarrow>
     (\<exists>i j. find_char (CHR ''<'') s = Some i \<and> find_char (CHR ''>'') s = Some j \<and> j \<le> i)"
proof -
  have "j \<le> length s" if "find_char (CHR ''>'') s = Some j" for j
    using find_char_Some(1) [OF that] by simp
  then show ?thesis
    by (auto simp: extract_extension_def uri_in_brackets_def str_slice_def split: option.splits if_splits)
qed

end
