(* ===== verification/Sip_Framing.thy ===== *)
theory Sip_Framing
  imports Sip_Parser
begin

text \<open>
  Message boundaries on the TLS stream: \<open>frame_sip_message\<close> of \<open>src/sip/parser.rs\<close> and the
  buffer loop of \<open>handle_connection\<close> in \<open>src/sip/server.rs\<close>. The lemmas show that a frame,
  once complete, is not changed by later bytes, that no byte is lost or read twice, and that
  the messages do not depend on how the stream was cut into reads.
\<close>

section \<open>One frame\<close>

datatype sip_frame_result = Complete nat | Incomplete | Invalid

text \<open>
  The loop over the header lines. \<open>None\<close> is the early return \<open>Invalid\<close>; a value is what
  \<open>content_length\<close> holds at the end.
\<close>

fun scan_content_length :: "string list \<Rightarrow> nat option \<Rightarrow> nat option option" where
  "scan_content_length [] content_length = Some content_length"
| "scan_content_length (line # ls) content_length =
     (let trimmed = trim line; lower = to_lower trimmed in
      if starts_with lower ''content-length:'' \<or> starts_with lower ''l:'' then
        (case parse_uint 64
                (if starts_with lower ''content-length:'' then trim (drop 15 trimmed)
                 else trim (drop 2 trimmed)) of
           None \<Rightarrow> None
         | Some parsed \<Rightarrow>
             (case content_length of
                Some existing \<Rightarrow>
                  if existing \<noteq> parsed then None else scan_content_length ls (Some parsed)
              | None \<Rightarrow> scan_content_length ls (Some parsed)))
      else scan_content_length ls content_length)"

definition frame_sip_message :: "string \<Rightarrow> sip_frame_result" where
  "frame_sip_message buf =
     (if length buf < 4 then Incomplete
      else case find_str (CRLF @ CRLF) buf of
        None \<Rightarrow> Incomplete
      | Some header_end \<Rightarrow>
          (if \<not> valid_utf8 (take header_end buf) then Invalid
           else case scan_content_length (lines (take header_end buf)) None of
             None \<Rightarrow> Invalid
           | Some content_length \<Rightarrow>
               (let total = header_end + 4 + (case content_length of Some n \<Rightarrow> n | None \<Rightarrow> 0)
                in if 2 ^ 64 \<le> total then Invalid
                   else if total \<le> length buf then Complete total
                   else Incomplete)))"

lemma length_CRLF [simp]: "length CRLF = 2"
  by (simp add: CRLF_def)

lemma header_end_bound: "find_str (CRLF @ CRLF) buf = Some p \<Longrightarrow> p + 4 \<le> length buf"
  using find_str_Some [of "CRLF @ CRLF" buf p] by simp

lemma frame_Complete_bounds:
  "frame_sip_message buf = Complete n \<Longrightarrow> 4 \<le> n \<and> n \<le> length buf"
  by (auto simp: frame_sip_message_def Let_def split: if_splits option.splits)

lemma frame_Complete_append:
  "frame_sip_message buf = Complete n \<Longrightarrow> frame_sip_message (buf @ later) = Complete n"
  using header_end_bound [of buf]
  by (auto simp: frame_sip_message_def Let_def find_str_append
      split: if_splits option.splits)

lemma frame_Invalid_append:
  "frame_sip_message buf = Invalid \<Longrightarrow> frame_sip_message (buf @ later) = Invalid"
  using header_end_bound [of buf]
  by (auto simp: frame_sip_message_def Let_def find_str_append
      split: if_splits option.splits)

section \<open>The buffer loop\<close>

text \<open>
  The inner loop of \<open>handle_connection\<close>: the messages taken from the buffer in order, the
  bytes that remain, and whether an illegal frame ended the connection.
\<close>

function extract_frames :: "string \<Rightarrow> string list \<times> string \<times> bool" where
  "extract_frames buffer =
     (case frame_sip_message buffer of
        Complete msg_len \<Rightarrow>
          (case extract_frames (drop msg_len buffer) of
             (ms, rest, bad) \<Rightarrow> (take msg_len buffer # ms, rest, bad))
      | Incomplete \<Rightarrow> ([], buffer, False)
      | Invalid \<Rightarrow> ([], buffer, True))"
  by pat_completeness auto
termination
  by (relation "measure length") (auto dest!: frame_Complete_bounds)

declare extract_frames.simps [simp del]

definition MAX_BUFFER :: nat where "MAX_BUFFER = 65536"

text \<open>
  One round of the read loop: append the bytes read, take the complete messages, and close on
  an illegal frame or when more than \<open>MAX_BUFFER\<close> bytes are left over.
\<close>

definition read_round :: "string \<Rightarrow> string \<Rightarrow> string list \<times> string \<times> bool" where
  "read_round buffer chunk =
     (case extract_frames (buffer @ chunk) of
        (ms, rest, bad) \<Rightarrow> (ms, rest, bad \<or> MAX_BUFFER < length rest))"

fun read_rounds :: "string \<Rightarrow> string list \<Rightarrow> string list \<times> string \<times> bool" where
  "read_rounds buffer [] = ([], buffer, False)"
| "read_rounds buffer (chunk # chunks) =
     (case read_round buffer chunk of
        (ms, rest, True) \<Rightarrow> (ms, rest, True)
      | (ms, rest, False) \<Rightarrow>
          (case read_rounds rest chunks of (ms', rest', closed) \<Rightarrow> (ms @ ms', rest', closed)))"

lemma extract_frames_conserves:
  "extract_frames buf = (ms, rest, bad) \<Longrightarrow> concat ms @ rest = buf"
proof (induction buf arbitrary: ms rest bad rule: extract_frames.induct)
  case (1 buf)
  show ?case
  proof (cases "frame_sip_message buf")
    case (Complete n)
    obtain ms' r' b' where rec: "extract_frames (drop n buf) = (ms', r', b')"
      by (cases "extract_frames (drop n buf)") auto
    from "1.IH" [OF Complete rec] "1.prems" Complete rec show ?thesis
      by (auto simp: extract_frames.simps [of buf])
  qed (use "1.prems" in \<open>auto simp: extract_frames.simps [of buf]\<close>)
qed

lemma extract_frames_append_ok:
  "extract_frames b = (ms, rest, False) \<Longrightarrow>
   extract_frames (b @ c) =
     (case extract_frames (rest @ c) of (ms', rest', bad) \<Rightarrow> (ms @ ms', rest', bad))"
proof (induction b arbitrary: ms rest rule: extract_frames.induct)
  case (1 b)
  show ?case
  proof (cases "frame_sip_message b")
    case (Complete n)
    obtain ms1 r1 b1 where rec: "extract_frames (drop n b) = (ms1, r1, b1)"
      by (cases "extract_frames (drop n b)") auto
    with "1.prems" Complete have *: "ms = take n b # ms1" "rest = r1" "b1 = False"
      by (auto simp: extract_frames.simps [of b])
    from Complete have "n \<le> length b" by (simp add: frame_Complete_bounds)
    with "1.IH" [OF Complete, of ms1 r1] rec * frame_Complete_append [OF Complete, of c]
    show ?thesis
      by (auto simp: extract_frames.simps [of "b @ c"] split: prod.splits)
  qed (use "1.prems" in \<open>auto simp: extract_frames.simps [of b] split: prod.splits\<close>)
qed

lemma extract_frames_append_bad:
  "extract_frames b = (ms, rest, True) \<Longrightarrow> extract_frames (b @ c) = (ms, rest @ c, True)"
proof (induction b arbitrary: ms rest rule: extract_frames.induct)
  case (1 b)
  show ?case
  proof (cases "frame_sip_message b")
    case (Complete n)
    obtain ms1 r1 b1 where rec: "extract_frames (drop n b) = (ms1, r1, b1)"
      by (cases "extract_frames (drop n b)") auto
    with "1.prems" Complete have *: "ms = take n b # ms1" "rest = r1" "b1 = True"
      by (auto simp: extract_frames.simps [of b])
    from Complete have "n \<le> length b" by (simp add: frame_Complete_bounds)
    with "1.IH" [OF Complete, of ms1 r1] rec * frame_Complete_append [OF Complete, of c]
    show ?thesis
      by (auto simp: extract_frames.simps [of "b @ c"])
  next
    case Incomplete
    with "1.prems" show ?thesis by (simp add: extract_frames.simps [of b])
  next
    case Invalid
    with "1.prems" have "ms = []" "rest = b" by (simp_all add: extract_frames.simps [of b])
    with frame_Invalid_append [OF Invalid, of c] show ?thesis
      by (simp add: extract_frames.simps [of "b @ c"])
  qed
qed

lemma extract_frames_stuck:
  "extract_frames b = (ms, rest, False) \<Longrightarrow> extract_frames rest = ([], rest, False)"
proof (induction b arbitrary: ms rest rule: extract_frames.induct)
  case (1 b)
  show ?case
  proof (cases "frame_sip_message b")
    case (Complete n)
    obtain ms1 r1 b1 where rec: "extract_frames (drop n b) = (ms1, r1, b1)"
      by (cases "extract_frames (drop n b)") auto
    with "1.prems" Complete have "rest = r1" "b1 = False"
      by (auto simp: extract_frames.simps [of b])
    with "1.IH" [OF Complete] rec show ?thesis by simp
  next
    case Incomplete
    with "1.prems" have "rest = b" by (simp add: extract_frames.simps [of b])
    with Incomplete show ?thesis by (simp add: extract_frames.simps [of b])
  next
    case Invalid
    with "1.prems" show ?thesis by (simp add: extract_frames.simps [of b])
  qed
qed

section \<open>Cutting the stream\<close>

lemma read_rounds_frames:
  assumes "read_rounds buffer chunks = (ms, rest, False)" "extract_frames buffer = ([], buffer, False)"
  shows "extract_frames (buffer @ concat chunks) = (ms, rest, False)"
  using assms
proof (induction chunks arbitrary: buffer ms)
  case Nil
  then show ?case by simp
next
  case (Cons chunk chunks)
  obtain ms1 r1 where fr: "extract_frames (buffer @ chunk) = (ms1, r1, False)"
    using Cons.prems(1)
    by (cases "extract_frames (buffer @ chunk)")
       (auto simp: read_round_def split: prod.splits bool.splits)
  with Cons.prems(1) obtain ms2 where
    rs: "read_rounds r1 chunks = (ms2, rest, False)" "ms = ms1 @ ms2"
    by (auto simp: read_round_def split: prod.splits bool.splits)
  from Cons.IH [OF rs(1) extract_frames_stuck [OF fr]]
  have "extract_frames (r1 @ concat chunks) = (ms2, rest, False)" .
  with extract_frames_append_ok [OF fr, of "concat chunks"] rs(2) show ?case by simp
qed

section \<open>Properties\<close>

text \<open>The bytes of the stream are neither lost nor read twice: the messages taken from a
  buffer, followed by what stays in it, are the buffer.\<close>

theorem extract_frames_partition:
  "concat (fst (extract_frames buf)) @ fst (snd (extract_frames buf)) = buf"
  by (cases "extract_frames buf") (simp add: extract_frames_conserves)


definition ex_stream :: "string list" where
  "ex_stream = [''A'' @ CRLF @ ''l: '', ''1'' @ CRLF @ CRLF @ ''xB'' @ [CR], [LF, CR, LF] @ ''C'']"


text \<open>Line ends before a start line are not skipped. A message received right after a CRLF
  keepalive is framed together with it and then has no method, so no handler sees it.\<close>

theorem keepalive_hides_request:
  assumes "frame_sip_message (CRLF @ m) = Complete n"
  shows "extract_method (take n (CRLF @ m)) = None"
proof -
  from assms have "4 \<le> n" using frame_Complete_bounds by blast
  then have "take n (CRLF @ m) = [] @ CRLF @ take (n - 2) m"
    by (simp add: take_append)
  then have "first_line (take n (CRLF @ m)) = Some []"
    using lines_line [of "[]" "take (n - 2) m"] by (simp add: first_line_def)
  then show ?thesis by (simp add: extract_method_def split_whitespace_def)
qed

theorem keepalive_hides_request_witness:
  "extract_method (take 19 (CRLF @ ''BYE s SIP/2.0'' @ CRLF @ CRLF)) = None"
  by (rule keepalive_hides_request) code_simp

end
