(* ===== verification/Sip_Response.thy ===== *)
theory Sip_Response
  imports Sip_Framing
begin

text \<open>
  What the responses built by \<open>src/sip/parser.rs\<close> look like to their receiver: their lines, the
  frame a receiver with the same framing rules cuts out, and the fields it reads back.
\<close>

section \<open>Text made of header lines\<close>

definition unlines :: "string list \<Rightarrow> string" where
  "unlines ls = concat (map (\<lambda>l. l @ CRLF) ls)"

definition header_line :: "string \<Rightarrow> bool" where
  "header_line l \<longleftrightarrow> l \<noteq> [] \<and> LF \<notin> set l"

lemma unlines_simps [simp]:
  "unlines [] = []" "unlines (l # ls) = l @ CRLF @ unlines ls"
  "unlines (ls @ ls') = unlines ls @ unlines ls'"
  by (simp_all add: unlines_def)

lemma lines_unlines: "\<forall>l \<in> set ls. LF \<notin> set l \<Longrightarrow> lines (unlines ls @ t) = ls @ lines t"
  by (induction ls) (simp_all add: lines_line)

lemma CR_LF_neq [simp]: "CR \<noteq> LF" "LF \<noteq> CR"
  by (simp_all add: CR_def LF_def)

lemma find_blank_line:
  "LF \<notin> set l \<Longrightarrow> find_str (CRLF @ CRLF) (l @ CRLF @ CRLF @ body) = Some (length l)"
proof (induction l)
  case Nil
  then show ?case by (simp add: CRLF_def)
next
  case (Cons c l)
  then show ?case by (cases l) (auto simp: CRLF_def)
qed

lemma find_past_line:
  "LF \<notin> set l \<Longrightarrow> \<not> starts_with t CRLF \<Longrightarrow>
   find_str (CRLF @ CRLF) (l @ CRLF @ t) =
     map_option (\<lambda>i. length l + 2 + i) (find_str (CRLF @ CRLF) t)"
proof (induction l)
  case Nil
  then have n: "\<not> starts_with (CRLF @ t) (CRLF @ CRLF)" "\<not> starts_with (LF # t) (CRLF @ CRLF)"
    by (simp_all add: CRLF_def)
  then show ?case by (simp add: CRLF_def option.map_comp comp_def)
next
  case (Cons c l)
  from Cons.prems(1) have "\<not> starts_with (c # l @ CRLF @ t) (CRLF @ CRLF)"
    by (cases l) (auto simp: CRLF_def)
  with Cons show ?case by (simp add: option.map_comp comp_def)
qed

lemma header_line_no_CRLF: "header_line l \<Longrightarrow> \<not> starts_with (l @ CRLF @ t) CRLF"
  by (cases l; cases "tl l") (auto simp: header_line_def CRLF_def)

lemma find_header_end:
  assumes "\<forall>l \<in> set ls. header_line l" "header_line l"
  shows "find_str (CRLF @ CRLF) (unlines (ls @ [l]) @ CRLF @ body) =
         Some (length (unlines ls @ l))"
  using assms
proof (induction ls)
  case Nil
  then show ?case using find_blank_line [of l body] by (simp add: header_line_def)
next
  case (Cons a ls)
  let ?t = "unlines (ls @ [l]) @ CRLF @ body"
  have "\<not> starts_with ?t CRLF"
    using Cons.prems header_line_no_CRLF by (cases ls) auto
  moreover have "LF \<notin> set a" using Cons.prems by (simp add: header_line_def)
  ultimately have "find_str (CRLF @ CRLF) (a @ CRLF @ ?t) =
      map_option (\<lambda>i. length a + 2 + i) (find_str (CRLF @ CRLF) ?t)"
    by (intro find_past_line)
  with Cons show ?case by simp
qed

lemma take_header_end: "take (length (unlines ls @ l)) (unlines (ls @ [l]) @ t) = unlines ls @ l"
  by simp

lemma lines_head: "\<forall>x \<in> set ls. LF \<notin> set x \<Longrightarrow> header_line l \<Longrightarrow> lines (unlines ls @ l) = ls @ [l]"
  by (simp add: lines_unlines header_line_def lines_last)

section \<open>ASCII text is UTF-8\<close>

definition ascii :: "string \<Rightarrow> bool" where
  "ascii s \<longleftrightarrow> (\<forall>c \<in> set s. (of_char c :: nat) < 128)"

lemma utf8_codes_ascii: "\<forall>n \<in> set ns. n < 128 \<Longrightarrow> utf8_codes ns"
  by (induction ns) auto

lemma ascii_valid_utf8: "ascii s \<Longrightarrow> valid_utf8 s"
  by (simp add: ascii_def valid_utf8_def utf8_codes_ascii)

lemma ascii_append [simp]: "ascii (s @ t) \<longleftrightarrow> ascii s \<and> ascii t"
  by (auto simp: ascii_def)

lemma ascii_Cons [simp]: "ascii (c # s) \<longleftrightarrow> (of_char c :: nat) < 128 \<and> ascii s"
  by (auto simp: ascii_def)

lemma ascii_CRLF [simp]: "ascii CRLF"
  by (simp add: ascii_def CRLF_def CR_def LF_def)

lemma ascii_unlines: "\<forall>l \<in> set ls. ascii l \<Longrightarrow> ascii (unlines ls)"
  by (induction ls) (auto simp: ascii_def CRLF_def CR_def LF_def)

lemma ascii_show_nat [simp]: "ascii (show_nat n)"
  using show_nat_all_digits by (fastforce simp: ascii_def is_digit_def)

section \<open>What the header loop copies\<close>

definition via_line :: "string \<Rightarrow> bool" where
  "via_line l \<longleftrightarrow> starts_with (to_lower (trim l)) ''via:'' \<or> starts_with (to_lower (trim l)) ''v:''"

definition from_line :: "string \<Rightarrow> bool" where
  "from_line l \<longleftrightarrow> starts_with (to_lower (trim l)) ''from:'' \<or> starts_with (to_lower (trim l)) ''f:''"

definition to_line :: "string \<Rightarrow> bool" where
  "to_line l \<longleftrightarrow> starts_with (to_lower (trim l)) ''to:'' \<or> starts_with (to_lower (trim l)) ''t:''"

definition call_id_line :: "string \<Rightarrow> bool" where
  "call_id_line l \<longleftrightarrow>
     starts_with (to_lower (trim l)) ''call-id:'' \<or> starts_with (to_lower (trim l)) ''i:''"

definition cseq_line :: "string \<Rightarrow> bool" where
  "cseq_line l \<longleftrightarrow> starts_with (to_lower (trim l)) ''cseq:''"

lemmas line_kind_defs = via_line_def from_line_def to_line_def call_id_line_def cseq_line_def

lemma copy_header_fields:
  "set (via_headers (copy_header (trim l) h)) \<subseteq> set (via_headers h) \<union> (if via_line l then {trim l} else {})"
  "from_header (copy_header (trim l) h) \<in> {from_header h} \<union> (if from_line l then {trim l} else {})"
  "to_header (copy_header (trim l) h) \<in> {to_header h} \<union> (if to_line l then {trim l} else {})"
  "call_id_header (copy_header (trim l) h) \<in>
     {call_id_header h} \<union> (if call_id_line l then {trim l} else {})"
  "cseq_header (copy_header (trim l) h) \<in> {cseq_header h} \<union> (if cseq_line l then {trim l} else {})"
  by (simp_all add: copy_header_def line_kind_defs Let_def)

lemma scan_headers_fields:
  "v \<in> set (via_headers (scan_headers ls h)) \<Longrightarrow>
     v \<in> set (via_headers h) \<or> (\<exists>l \<in> set ls. via_line l \<and> v = trim l)"
  "from_header (scan_headers ls h) \<in> {from_header h} \<union> trim ` set (filter from_line ls)"
  "to_header (scan_headers ls h) \<in> {to_header h} \<union> trim ` set (filter to_line ls)"
  "call_id_header (scan_headers ls h) \<in> {call_id_header h} \<union> trim ` set (filter call_id_line ls)"
  "cseq_header (scan_headers ls h) \<in> {cseq_header h} \<union> trim ` set (filter cseq_line ls)"
proof (induction ls arbitrary: h)
  case (Cons l ls)
  note step = copy_header_fields [where l = l] and IH = Cons
  { case (1 h)
    show ?case
    proof (cases "trim l = []")
      case False
      with 1 have "v \<in> set (via_headers (scan_headers ls (copy_header (trim l) h)))"
        by (simp add: Let_def)
      from IH(1) [OF this] show ?thesis using step(1) [of h] by (auto split: if_splits)
    qed (use 1 in simp) }
  { case (2 h) show ?case using step(2) [of h] IH(2) [of "copy_header (trim l) h"]
      by (auto simp: Let_def split: if_splits) }
  { case (3 h) show ?case using step(3) [of h] IH(3) [of "copy_header (trim l) h"]
      by (auto simp: Let_def split: if_splits) }
  { case (4 h) show ?case using step(4) [of h] IH(4) [of "copy_header (trim l) h"]
      by (auto simp: Let_def split: if_splits) }
  { case (5 h) show ?case using step(5) [of h] IH(5) [of "copy_header (trim l) h"]
      by (auto simp: Let_def split: if_splits) }
qed simp_all

section \<open>The lines of a response\<close>

definition complete_headers :: "string \<Rightarrow> bool" where
  "complete_headers request \<longleftrightarrow>
     (let h = scan_headers (lines request) no_headers
      in from_header h \<noteq> [] \<and> to_header h \<noteq> [] \<and> call_id_header h \<noteq> [] \<and> cseq_header h \<noteq> [])"

definition status_line :: "nat \<Rightarrow> string \<Rightarrow> string" where
  "status_line code reason = ''SIP/2.0 '' @ show_nat code @ '' '' @ reason"

definition response_lines :: "string \<Rightarrow> nat \<Rightarrow> string \<Rightarrow> string \<Rightarrow> string list" where
  "response_lines request code reason tag =
     (let h = scan_headers (lines request) no_headers
      in status_line code reason # via_headers h
         @ [from_header h, add_to_tag code tag (to_header h), call_id_header h, cseq_header h])"

lemma response_head_unlines:
  "response_head request code reason tag = unlines (response_lines request code reason tag)"
  by (simp add: response_head_def response_lines_def status_line_def Let_def unlines_def)

lemma extra_header_unlines:
  "extra_header_lines extra = unlines (map (\<lambda>(name, v). name @ '': '' @ v) extra)"
  by (simp add: extra_header_lines_def unlines_def comp_def case_prod_unfold)

lemma build_response_unlines:
  "build_response_with_headers request code reason extra tag =
     unlines (response_lines request code reason tag
       @ map (\<lambda>(name, v). name @ '': '' @ v) extra @ [''Content-Length: '' @ show_nat 0])
     @ CRLF @ []"
  by (simp add: build_response_with_headers_def response_head_unlines extra_header_unlines)

lemma build_response_no_extra:
  "build_response request code reason tag = build_response_with_headers request code reason [] tag"
  by (simp add: build_response_def build_response_with_headers_def extra_header_lines_def)

section \<open>Framing of a message made of header lines\<close>

definition content_length_line :: "string \<Rightarrow> bool" where
  "content_length_line l \<longleftrightarrow>
     starts_with (to_lower (trim l)) ''content-length:'' \<or> starts_with (to_lower (trim l)) ''l:''"

lemma scan_content_length_skip:
  "\<forall>l \<in> set ls. \<not> content_length_line l \<Longrightarrow>
   scan_content_length (ls @ ls') c = scan_content_length ls' c"
  by (induction ls) (auto simp: content_length_line_def Let_def)

lemma trim_content_length: "trim (''Content-Length: '' @ show_nat n) = ''Content-Length: '' @ show_nat n"
  by (rule trim_id) (simp_all, simp add: is_ws_def)

lemma lower_content_length: "to_lower ''Content-Length: '' = ''content-length: ''"
  by code_simp

lemma trim_space_nat: "trim (CHR '' '' # show_nat n) = show_nat n"
proof -
  have "trim_start (CHR '' '' # show_nat n) = trim_start (show_nat n)"
    by (simp add: trim_start_def is_ws_def)
  then show ?thesis using trim_show_nat [of n] by (simp add: trim_def)
qed

lemma scan_content_length_last:
  assumes "n < 2 ^ 64"
  shows "scan_content_length [''Content-Length: '' @ show_nat n] None = Some (Some n)"
proof -
  let ?l = "''Content-Length: '' @ show_nat n"
  have "to_lower (trim ?l) = ''content-length: '' @ to_lower (show_nat n)"
    unfolding trim_content_length to_lower_append lower_content_length ..
  moreover have "trim (drop 15 (trim ?l)) = show_nat n"
    unfolding trim_content_length by (simp add: trim_space_nat)
  ultimately show ?thesis using assms by (simp add: Let_def)
qed

lemma frame_message:
  fixes hs body later
  defines "cl \<equiv> ''Content-Length: '' @ show_nat (length body)"
  defines "msg \<equiv> unlines (hs @ [cl]) @ CRLF @ body"
  assumes "\<forall>l \<in> set hs. header_line l \<and> ascii l \<and> \<not> content_length_line l"
    and "length msg < 2 ^ 64"
  shows "frame_sip_message (msg @ later) = Complete (length msg)"
proof -
  let ?he = "length (unlines hs @ cl)"
  have cl: "header_line cl" "ascii cl"
    using show_nat_all_digits not_digit by (auto simp: cl_def header_line_def ascii_def LF_def
        is_digit_def dest!: show_nat_all_digits)
  have he: "find_str (CRLF @ CRLF) (msg @ later) = Some ?he"
    using find_header_end [of hs cl "body @ later"] assms cl by (simp add: msg_def)
  have tk: "take ?he (msg @ later) = unlines hs @ cl"
    by (simp add: msg_def)
  have "ascii (unlines hs @ cl)" using assms cl by (simp add: ascii_unlines)
  then have v: "valid_utf8 (take ?he (msg @ later))" unfolding tk by (rule ascii_valid_utf8)
  have "lines (unlines hs @ cl) = hs @ [cl]"
    using assms cl(1) by (intro lines_head) (auto simp: header_line_def)
  moreover have "length body < 2 ^ 64" using assms by (simp add: msg_def)
  ultimately have sc: "scan_content_length (lines (take ?he (msg @ later))) None = Some (Some (length body))"
    unfolding tk using assms scan_content_length_last [of "length body"]
    by (simp add: scan_content_length_skip cl_def)
  have len: "length msg = ?he + 4 + length body" "4 \<le> length (msg @ later)"
    by (simp_all add: msg_def)
  show ?thesis using he v sc len assms by (simp add: frame_sip_message_def)
qed

section \<open>The kind of a header line\<close>

lemma starts_with_both:
  "starts_with s p \<Longrightarrow> starts_with s q \<Longrightarrow> starts_with p q \<or> starts_with q p"
proof (induction s p arbitrary: q rule: starts_with.induct)
  case (3 c s p ps)
  then show ?case by (cases q) auto
qed (auto elim: starts_with.elims)

text \<open>A line is of at most one kind: no header name is a prefix of another.\<close>

lemma line_kinds_exclusive:
  "via_line l \<Longrightarrow> \<not> from_line l \<and> \<not> to_line l \<and> \<not> call_id_line l \<and> \<not> cseq_line l"
  "from_line l \<Longrightarrow> \<not> to_line l \<and> \<not> call_id_line l \<and> \<not> cseq_line l"
  "to_line l \<Longrightarrow> \<not> call_id_line l \<and> \<not> cseq_line l"
  "call_id_line l \<Longrightarrow> \<not> cseq_line l"
  "via_line l \<or> from_line l \<or> to_line l \<or> call_id_line l \<or> cseq_line l \<Longrightarrow> \<not> content_length_line l"
  by (auto simp: line_kind_defs content_length_line_def dest: starts_with_both)

lemma line_kinds_trim [simp]:
  "via_line (trim l) = via_line l" "from_line (trim l) = from_line l"
  "to_line (trim l) = to_line l" "call_id_line (trim l) = call_id_line l"
  "cseq_line (trim l) = cseq_line l" "content_length_line (trim l) = content_length_line l"
  by (simp_all add: line_kind_defs content_length_line_def)

lemma trim_hd:
  assumes "l \<noteq> []" "\<not> is_ws (hd l)"
  shows "trim l \<noteq> []" "hd (trim l) = hd l"
proof -
  obtain c cs where l: "l = c # cs" using assms by (cases l) auto
  then have "trim_start l = [] @ [c] @ cs" using assms by (simp add: trim_start_def)
  then have "trim l = trim_end ([] @ ([c] @ cs))" by (simp add: trim_def)
  moreover have "trim_end ([c] @ cs) = (if \<exists>d \<in> set cs. \<not> is_ws d then c # trim_end cs else [c])"
  proof (cases "\<exists>d \<in> set cs. \<not> is_ws d")
    case True
    then obtain d where "d \<in> set cs" "\<not> is_ws d" by blast
    then have "trim_end ([c] @ cs) = [c] @ trim_end cs" by (rule trim_end_append_nonws)
    with True show ?thesis by simp
  next
    case False
    then have "dropWhile is_ws (rev cs @ [c]) = dropWhile is_ws [c]"
      by (intro dropWhile_append2) auto
    with False assms l show ?thesis by (simp add: trim_end_def)
  qed
  ultimately show "trim l \<noteq> []" "hd (trim l) = hd l" using l by (auto split: if_splits)
qed

lemma kind_hd:
  assumes "l \<noteq> []" "\<not> is_ws (hd l)"
  shows "starts_with (to_lower (trim l)) (p # ps) \<Longrightarrow> p = to_lower_char (hd l)"
proof -
  assume s: "starts_with (to_lower (trim l)) (p # ps)"
  obtain c cs where "trim l = c # cs" "c = hd l"
    using trim_hd [OF assms] by (cases "trim l") auto
  with s show ?thesis by (simp add: to_lower_def)
qed

lemma to_lower_char_code: "to_lower_char (CHR ''S'') = CHR ''s''"
  by code_simp

lemma status_line_kind:
  "\<not> via_line (status_line code reason)" "\<not> from_line (status_line code reason)"
  "\<not> to_line (status_line code reason)" "\<not> call_id_line (status_line code reason)"
  "\<not> cseq_line (status_line code reason)" "\<not> content_length_line (status_line code reason)"
proof -
  have l: "status_line code reason \<noteq> []" "\<not> is_ws (hd (status_line code reason))"
     "hd (status_line code reason) = CHR ''S''"
    by (simp_all add: status_line_def is_ws_def)
  note k = kind_hd [OF l(1,2), unfolded l(3) to_lower_char_code]
  show "\<not> via_line (status_line code reason)" "\<not> from_line (status_line code reason)"
    "\<not> to_line (status_line code reason)" "\<not> call_id_line (status_line code reason)"
    "\<not> cseq_line (status_line code reason)" "\<not> content_length_line (status_line code reason)"
    unfolding line_kind_defs content_length_line_def by (auto dest: k)
qed

lemma kind_append:
  assumes "k \<in> {''to:'', ''t:''}" "starts_with (to_lower (trim l)) k"
  shows "to_line (trim l @ t)"
proof -
  have ne: "trim l \<noteq> []" using assms by auto
  note hl = trim_hd_last [OF ne]
  obtain u where u: "trim l @ t = trim l @ u @ (drop (length u) t)" "trim (trim l @ t) = trim l @ u"
  proof -
    have "trim_start (trim l @ t) = trim l @ t"
      using ne hl by (cases "trim l") (auto simp: trim_start_def)
    then have e: "trim (trim l @ t) = trim_end (trim l @ t)" by (simp add: trim_def)
    show ?thesis
    proof (cases "\<exists>d \<in> set t. \<not> is_ws d")
      case True
      then obtain d where "d \<in> set t" "\<not> is_ws d" by blast
      then have "trim (trim l @ t) = trim l @ trim_end t" unfolding e by (rule trim_end_append_nonws)
      moreover have "t = trim_end t @ rev (takeWhile is_ws (rev t))"
        by (metis rev_append rev_rev_ident takeWhile_dropWhile_id trim_end_def)
      ultimately show ?thesis by (metis append_eq_conv_conj that)
    next
      case False
      then have "trim (trim l @ t) = trim_end (trim l)"
        unfolding e by (subst (1 2) trim_end_def) (simp, subst dropWhile_append2, auto)
      also have "\<dots> = trim l"
        using ne hl by (cases "rev (trim l)") (auto simp: trim_end_def hd_rev [symmetric])
      finally show ?thesis using that [of "[]"] by simp
    qed
  qed
  have "starts_with (to_lower (trim (trim l @ t))) k"
    unfolding u(2) to_lower_append using assms(2) by (rule starts_with_mono)
  with assms(1) show ?thesis by (auto simp: to_line_def)
qed

lemma to_line_add_tag: "to_line l \<Longrightarrow> to_line (add_to_tag code tag (trim l))"
  unfolding add_to_tag_def using kind_append [of _ l] by (auto simp: to_line_def)

lemma header_line_trim: "trim l \<noteq> [] \<Longrightarrow> LF \<notin> set l \<Longrightarrow> header_line (trim l)"
  using set_trim by (auto simp: header_line_def)

definition kinds :: "string \<Rightarrow> bool" where
  "kinds l \<longleftrightarrow> via_line l \<or> from_line l \<or> to_line l \<or> call_id_line l \<or> cseq_line l"

lemma kinds_nonempty: "kinds l \<Longrightarrow> trim l \<noteq> []"
  by (auto simp: kinds_def line_kind_defs)

text \<open>The five kinds of lines the header record of a complete request holds.\<close>

lemma complete_headers_lines:
  assumes "complete_headers request"
  defines "h \<equiv> scan_headers (lines request) no_headers"
  shows "\<forall>v \<in> set (via_headers h). \<exists>l \<in> set (lines request). via_line l \<and> v = trim l"
    and "\<exists>l \<in> set (lines request). from_line l \<and> from_header h = trim l"
    and "\<exists>l \<in> set (lines request). to_line l \<and> to_header h = trim l"
    and "\<exists>l \<in> set (lines request). call_id_line l \<and> call_id_header h = trim l"
    and "\<exists>l \<in> set (lines request). cseq_line l \<and> cseq_header h = trim l"
  using scan_headers_fields [where ls = "lines request" and h = no_headers] assms
  by (auto simp: complete_headers_def no_headers_def Let_def)

text \<open>The arguments of a response that is built from ASCII, one-line parts.\<close>

definition response_args :: "string \<Rightarrow> string \<Rightarrow> string \<Rightarrow> (string \<times> string) list \<Rightarrow> bool" where
  "response_args request reason tag extra \<longleftrightarrow>
     complete_headers request \<and> ascii request \<and> ascii reason \<and> LF \<notin> set reason \<and>
     ascii tag \<and> LF \<notin> set tag \<and>
     list_all (\<lambda>(n, v). header_line (n @ '': '' @ v) \<and> ascii (n @ '': '' @ v) \<and>
                        \<not> content_length_line (n @ '': '' @ v)) extra"

definition clean_line :: "string \<Rightarrow> bool" where
  "clean_line l \<longleftrightarrow> header_line l \<and> ascii l \<and> \<not> content_length_line l"

lemma clean_status_line:
  "ascii reason \<Longrightarrow> LF \<notin> set reason \<Longrightarrow> clean_line (status_line code reason)"
  using status_line_kind(6) [of code reason] show_nat_all_digits [of LF code] not_digit
  by (auto simp: clean_line_def header_line_def status_line_def LF_def)

lemma clean_kind:
  "l \<in> set (lines request) \<Longrightarrow> kinds l \<Longrightarrow> ascii request \<Longrightarrow> clean_line (trim l)"
proof -
  assume l: "l \<in> set (lines request)" "kinds l" "ascii request"
  then have "header_line (trim l)" using kinds_nonempty lines_no_LF by (intro header_line_trim)
  moreover have "ascii (trim l)"
    using l set_trim [of l] set_lines [OF l(1)] by (auto simp: ascii_def)
  moreover have "\<not> content_length_line l" using l(2) line_kinds_exclusive(5) by (auto simp: kinds_def)
  ultimately show ?thesis by (simp add: clean_line_def)
qed

lemma clean_add_tag:
  assumes "clean_line (trim l)" "to_line l" "ascii tag" "LF \<notin> set tag"
  shows "clean_line (add_to_tag code tag (trim l))"
proof -
  have "\<not> content_length_line (add_to_tag code tag (trim l))"
    using to_line_add_tag [OF assms(2)] line_kinds_exclusive(5) by blast
  with assms show ?thesis
    by (auto simp: clean_line_def header_line_def add_to_tag_def LF_def)
qed

lemma clean_response_lines:
  assumes "response_args request reason tag extra"
  shows "\<forall>l \<in> set (response_lines request code reason tag). clean_line l"
proof -
  have c: "complete_headers request" "ascii request" "ascii reason" "LF \<notin> set reason"
     "ascii tag" "LF \<notin> set tag"
    using assms by (simp_all add: response_args_def)
  note hl = complete_headers_lines [OF c(1)] and ck = clean_kind [OF _ _ c(2)]
  show ?thesis
    using hl c clean_status_line ck clean_add_tag
    by (auto simp: response_lines_def Let_def kinds_def)
qed

definition body_lines :: "string \<Rightarrow> string list" where
  "body_lines body = (if body \<noteq> [] then [''Content-Type: application/sdp''] else [])"

lemma build_response_body_unlines:
  "build_response_with_body request code reason extra body tag =
     unlines ((response_lines request code reason tag
       @ map (\<lambda>(name, v). name @ '': '' @ v) extra @ body_lines body)
       @ [''Content-Length: '' @ show_nat (length body)]) @ CRLF @ body"
  by (simp add: build_response_with_body_def response_head_unlines extra_header_unlines body_lines_def)

lemma body_lines_clean: "\<forall>l \<in> set (body_lines body). clean_line l"
proof -
  have "clean_line ''Content-Type: application/sdp''" unfolding clean_line_def content_length_line_def ascii_def header_line_def
    by code_simp
  then show ?thesis by (simp add: body_lines_def)
qed

section \<open>What the peer reads back\<close>

text \<open>Splitting at white space does not see the white space at the ends.\<close>

lemma split_on_snoc: "P x \<Longrightarrow> split_on P (s @ [x]) = split_on P s @ [[]]"
  by (induction s) (auto split: list.splits)

lemma split_whitespace_trim: "split_whitespace (trim s) = split_whitespace s"
proof -
  have e: "split_whitespace (s @ ws) = split_whitespace s" if "\<forall>c \<in> set ws. is_ws c" for s ws
    using that
  proof (induction ws rule: rev_induct)
    case (snoc x xs)
    then show ?case
      using split_on_snoc [of is_ws x "s @ xs"] by (simp add: split_whitespace_def)
  qed simp
  have st: "split_whitespace (trim_start s) = split_whitespace s"
    by (induction s) (auto simp: trim_start_def split_whitespace_def)
  have "trim_start s = trim s @ rev (takeWhile is_ws (rev (trim_start s)))"
    by (metis rev_append rev_rev_ident takeWhile_dropWhile_id trim_def trim_end_def)
  moreover have "\<forall>c \<in> set (rev (takeWhile is_ws (rev (trim_start s)))). is_ws c"
    by (auto dest: set_takeWhileD)
  ultimately show ?thesis using e st by metis
qed

lemma first_line_unlines:
  "LF \<notin> set l \<Longrightarrow> first_line (unlines (l # ls) @ t) = Some (trim l)"
  by (simp add: first_line_def lines_line)

lemma status_line_trim: "starts_with (trim (status_line code reason)) ''SIP/2.0''"
proof -
  let ?r = "show_nat code @ '' '' @ reason"
  have "trim_start (''SIP/2.0 '' @ ?r) = ''SIP/2.0 '' @ ?r"
    by (simp add: trim_start_def is_ws_def)
  then have "trim (status_line code reason) = trim_end (''SIP/2.0 '' @ ?r)"
    by (simp add: trim_def status_line_def)
  also have "\<dots> = ''SIP/2.0 '' @ trim_end ?r"
    using show_nat_not_ws(1) [of code]
    by (intro trim_end_append_nonws [of "hd (show_nat code)"]) simp_all
  finally show ?thesis by simp
qed

lemma split_status_line:
  "split_whitespace (trim (status_line code reason)) =
     ''SIP/2.0'' # show_nat code # split_whitespace reason"
proof -
  have nw: "\<forall>c \<in> set ''SIP/2.0''. \<not> is_ws c" "is_ws (CHR '' '')" by (simp_all add: is_ws_def)
  have nn: "\<forall>c \<in> set (show_nat code). \<not> is_ws c" using show_nat_all_digits digit_not_ws by blast
  have "split_on is_ws (status_line code reason) =
      ''SIP/2.0'' # show_nat code # split_on is_ws reason"
    using split_on_append [OF nw, of "show_nat code @ '' '' @ reason"]
      split_on_append [OF nn nw(2), of reason] by (simp add: status_line_def)
  then show ?thesis by (simp add: split_whitespace_trim) (simp add: split_whitespace_def)
qed

lemma extract_status_code_unlines:
  assumes "LF \<notin> set reason" "code < 2 ^ 16"
  shows "extract_status_code (unlines (status_line code reason # ls) @ t) = Some code"
proof -
  have "LF \<notin> set (status_line code reason)"
    using assms show_nat_all_digits [of LF code] not_digit
    by (auto simp: status_line_def LF_def)
  then have "first_line (unlines (status_line code reason # ls) @ t) =
      Some (trim (status_line code reason))" by (rule first_line_unlines)
  with assms show ?thesis
    by (simp add: extract_status_code_def status_line_trim split_status_line)
qed

lemma response_lines_hd:
  "\<exists>ls. response_lines request code reason tag = status_line code reason # ls"
  by (simp add: response_lines_def Let_def)

section \<open>The echoed headers\<close>

definition head_lines :: "string \<Rightarrow> string list" where
  "head_lines msg = takeWhile (\<lambda>l. trim l \<noteq> []) (lines msg)"

text \<open>One From, To, Call-ID and CSeq header, and none of the five kinds after the blank line.\<close>

definition well_formed_request :: "string \<Rightarrow> bool" where
  "well_formed_request msg \<longleftrightarrow>
     length (filter from_line (head_lines msg)) = 1 \<and>
     length (filter to_line (head_lines msg)) = 1 \<and>
     length (filter call_id_line (head_lines msg)) = 1 \<and>
     length (filter cseq_line (head_lines msg)) = 1 \<and>
     list_all (\<lambda>l. \<not> kinds l) (drop (length (head_lines msg)) (lines msg))"

lemma scan_headers_head:
  "scan_headers ls h = fold (copy_header \<circ> trim) (takeWhile (\<lambda>l. trim l \<noteq> []) ls) h"
  by (induction ls arbitrary: h) (simp_all add: Let_def)

lemma copy_header_kinds:
  "via_headers (copy_header (trim l) h) = via_headers h @ (if via_line l then [trim l] else [])"
  "from_header (copy_header (trim l) h) = (if from_line l then trim l else from_header h)"
  "to_header (copy_header (trim l) h) = (if to_line l then trim l else to_header h)"
  "call_id_header (copy_header (trim l) h) = (if call_id_line l then trim l else call_id_header h)"
  "cseq_header (copy_header (trim l) h) = (if cseq_line l then trim l else cseq_header h)"
  using line_kinds_exclusive [of l] by (auto simp: copy_header_def Let_def line_kind_defs)

lemma fold_copy_vias:
  "via_headers (fold (copy_header \<circ> trim) ls h) = via_headers h @ map trim (filter via_line ls)"
  by (induction ls arbitrary: h) (auto simp: copy_header_kinds)

lemma fold_copy_last:
  "from_header (fold (copy_header \<circ> trim) ls h) =
     last (from_header h # map trim (filter from_line ls))"
  "to_header (fold (copy_header \<circ> trim) ls h) =
     last (to_header h # map trim (filter to_line ls))"
  "call_id_header (fold (copy_header \<circ> trim) ls h) =
     last (call_id_header h # map trim (filter call_id_line ls))"
  "cseq_header (fold (copy_header \<circ> trim) ls h) =
     last (cseq_header h # map trim (filter cseq_line ls))"
  by (induction ls arbitrary: h) (auto simp: copy_header_kinds)

text \<open>Each of the scanning functions looks at the lines of one kind only.\<close>

lemma call_id_lines_filter: "call_id_lines ls = call_id_lines (filter call_id_line ls)"
  by (induction ls) (auto simp: call_id_line_def Let_def)

lemma cseq_lines_filter: "cseq_method_lines ls = cseq_method_lines (filter cseq_line ls)"
  by (induction ls) (auto simp: cseq_line_def Let_def split: list.splits)

lemma via_param_filter:
  "header_param ''via:'' ''v:'' k ls = header_param ''via:'' ''v:'' k (filter via_line ls)"
  by (induction ls) (auto simp: via_line_def Let_def to_lowercase_prefix split: option.splits)

lemma from_param_filter:
  "header_param ''from:'' ''f:'' k ls = header_param ''from:'' ''f:'' k (filter from_line ls)"
  by (induction ls) (auto simp: from_line_def Let_def to_lowercase_prefix split: option.splits)

lemma header_param_trim: "header_param h1 h2 k (map trim ls) = header_param h1 h2 k ls"
  by (induction ls) (auto simp: Let_def split: option.splits)

lemma call_id_lines_trim: "call_id_lines (map trim ls) = call_id_lines ls"
  by (induction ls) (auto simp: Let_def)

lemma cseq_lines_trim: "cseq_method_lines (map trim ls) = cseq_method_lines ls"
  by (induction ls) (auto simp: Let_def split: list.splits)

lemma filter_head:
  assumes "list_all (\<lambda>l. \<not> kinds l) (drop (length (head_lines msg)) (lines msg))"
    and "\<And>l. P l \<Longrightarrow> kinds l"
  shows "filter P (lines msg) = filter P (head_lines msg)"
proof -
  have "lines msg = head_lines msg @ drop (length (head_lines msg)) (lines msg)"
    by (metis append_take_drop_id head_lines_def takeWhile_eq_take)
  moreover have "filter P (drop (length (head_lines msg)) (lines msg)) = []"
    using assms by (auto simp: list_all_iff filter_empty_conv)
  ultimately show ?thesis by (metis append.right_neutral filter_append)
qed

lemma well_formed_headers:
  assumes "well_formed_request msg"
  defines "h \<equiv> scan_headers (lines msg) no_headers"
  shows "via_headers h = map trim (filter via_line (lines msg))"
    and "[from_header h] = map trim (filter from_line (lines msg))"
    and "[to_header h] = map trim (filter to_line (lines msg))"
    and "[call_id_header h] = map trim (filter call_id_line (lines msg))"
    and "[cseq_header h] = map trim (filter cseq_line (lines msg))"
proof -
  have h: "h = fold (copy_header \<circ> trim) (head_lines msg) no_headers"
    by (simp add: h_def scan_headers_head head_lines_def)
  have b: "list_all (\<lambda>l. \<not> kinds l) (drop (length (head_lines msg)) (lines msg))"
    using assms by (simp add: well_formed_request_def)
  have one: "length xs = 1 \<Longrightarrow> [last (x # map trim xs)] = map trim xs" for x xs
    by (cases xs) auto
  note f = filter_head [OF b]
  show "via_headers h = map trim (filter via_line (lines msg))"
    using f [of via_line] by (simp add: h fold_copy_vias no_headers_def kinds_def)
  show "[from_header h] = map trim (filter from_line (lines msg))"
    using f [of from_line] assms(1) one by (simp add: h fold_copy_last kinds_def well_formed_request_def)
  show "[to_header h] = map trim (filter to_line (lines msg))"
    using f [of to_line] assms(1) one by (simp add: h fold_copy_last kinds_def well_formed_request_def)
  show "[call_id_header h] = map trim (filter call_id_line (lines msg))"
    using f [of call_id_line] assms(1) one by (simp add: h fold_copy_last kinds_def well_formed_request_def)
  show "[cseq_header h] = map trim (filter cseq_line (lines msg))"
    using f [of cseq_line] assms(1) one by (simp add: h fold_copy_last kinds_def well_formed_request_def)
qed

lemma lines_response:
  assumes "\<forall>l \<in> set ls. LF \<notin> set l"
  shows "lines (unlines ls @ CRLF @ body) = ls @ [] # lines body"
  using lines_unlines [OF assms, of "CRLF @ body"] lines_line [of "[]" body] by simp

lemma filter_response_lines:
  assumes "well_formed_request request"
  defines "h \<equiv> scan_headers (lines request) no_headers"
  shows "filter via_line (response_lines request code reason tag) = via_headers h"
    and "filter from_line (response_lines request code reason tag) = [from_header h]"
    and "filter call_id_line (response_lines request code reason tag) = [call_id_header h]"
    and "filter cseq_line (response_lines request code reason tag) = [cseq_header h]"
proof -
  note wf = well_formed_headers [OF assms(1), folded h_def]
  have k: "\<forall>v \<in> set (via_headers h). via_line v" using wf(1) by auto
  have one: "P x" if "[x] = map trim (filter P (lines request))" "\<And>l. P (trim l) = P l" for x P
    using that by (metis (no_types, lifting) filter_eq_Cons_iff map_eq_Cons_D)
  have f: "from_line (from_header h)" "to_line (to_header h)" "call_id_line (call_id_header h)"
      "cseq_line (cseq_header h)"
    using one [OF wf(2)] one [OF wf(3)] one [OF wf(4)] one [OF wf(5)] by simp_all
  have "to_header h = trim (to_header h)" using wf(3) by (auto simp: Cons_eq_map_conv)
  then have t: "to_line (add_to_tag code tag (to_header h))"
    using to_line_add_tag [OF f(2), of code tag] by metis
  note ex = line_kinds_exclusive
  show "filter via_line (response_lines request code reason tag) = via_headers h"
    using k f t ex status_line_kind by (auto simp: response_lines_def Let_def h_def)
  show "filter from_line (response_lines request code reason tag) = [from_header h]"
    using k f t ex status_line_kind by (auto simp: response_lines_def Let_def h_def)
  show "filter call_id_line (response_lines request code reason tag) = [call_id_header h]"
    using k f t ex status_line_kind by (auto simp: response_lines_def Let_def h_def)
  show "filter cseq_line (response_lines request code reason tag) = [cseq_header h]"
    using k f t ex status_line_kind by (auto simp: response_lines_def Let_def h_def)
qed

lemma well_formed_complete: "well_formed_request request \<Longrightarrow> complete_headers request"
proof -
  assume wf: "well_formed_request request"
  note w = well_formed_headers [OF wf]
  have ne: "x \<noteq> []" if "[x] = map trim (filter P (lines request))" "\<And>l. P l \<Longrightarrow> kinds l" for x P
  proof -
    from that(1) have "x \<in> set (map trim (filter P (lines request)))" by (metis list.set_intros(1))
    then obtain l where "x = trim l" "P l" by auto
    then have "kinds l" by (intro that(2))
    with \<open>x = trim l\<close> show ?thesis by (simp add: kinds_nonempty)
  qed
  let ?h = "scan_headers (lines request) no_headers"
  have "from_header ?h \<noteq> []" by (rule ne [OF w(2)]) (simp add: kinds_def)
  moreover have "to_header ?h \<noteq> []" by (rule ne [OF w(3)]) (simp add: kinds_def)
  moreover have "call_id_header ?h \<noteq> []" by (rule ne [OF w(4)]) (simp add: kinds_def)
  moreover have "cseq_header ?h \<noteq> []" by (rule ne [OF w(5)]) (simp add: kinds_def)
  ultimately show ?thesis by (simp add: complete_headers_def)
qed

lemma lines_built:
  assumes "response_args request reason tag extra"
  shows "lines (build_response_with_headers request code reason extra tag) =
     response_lines request code reason tag @ map (\<lambda>(name, v). name @ '': '' @ v) extra
       @ [''Content-Length: '' @ show_nat 0, []]"
proof -
  have "\<forall>l \<in> set (response_lines request code reason tag). LF \<notin> set l"
    using clean_response_lines [OF assms] by (simp add: clean_line_def header_line_def)
  moreover have "LF \<notin> set (''Content-Length: '' @ show_nat 0)" by (simp add: LF_def)
  moreover have "\<forall>l \<in> set (map (\<lambda>(name, v). name @ '': '' @ v) extra). LF \<notin> set l"
    using assms by (auto simp: response_args_def list_all_iff header_line_def)
  ultimately have "\<forall>l \<in> set (response_lines request code reason tag @ map (\<lambda>(name, v). name @ '': '' @ v) extra
       @ [''Content-Length: '' @ show_nat 0]). LF \<notin> set l" by (auto simp: LF_def)
  from lines_response [OF this, of "[]"] show ?thesis
    unfolding build_response_unlines lines_Nil by (simp only: append_assoc append.simps)
qed

lemma built_filter:
  assumes "response_args request reason tag extra"
    and "list_all (\<lambda>(n, v). \<not> kinds (n @ '': '' @ v)) extra" and "\<And>l. P l \<Longrightarrow> kinds l"
  shows "filter P (lines (build_response_with_headers request code reason extra tag)) =
     filter P (response_lines request code reason tag)"
proof -
  have "\<not> kinds (''Content-Length: '' @ show_nat 0)" "\<not> kinds []"
    unfolding kinds_def by code_simp+
  moreover have "\<forall>l \<in> set (map (\<lambda>(name, v). name @ '': '' @ v) extra). \<not> kinds l"
    using assms(2) by (auto simp: list_all_iff)
  ultimately show ?thesis using assms(3)
    unfolding lines_built [OF assms(1)] by (auto simp: filter_empty_conv)
qed

section \<open>Properties\<close>

definition ex_invite :: string where
  "ex_invite = unlines
     [''INVITE sip:1002@pbx SIP/2.0'', ''Via: SIP/2.0/UDP 10.0.0.7:5060;branch=z9hG4bKa1'',
      ''From: <sip:1001@pbx>;tag=77'', ''To: <sip:1002@pbx>'', ''Call-ID: c-1'',
      ''CSeq: 1 INVITE'', ''Content-Length: 0''] @ CRLF"

lemma ex_invite_args:
  "response_args ex_invite ''Trying'' ''t9'' [(''Allow'', ''INVITE'')]"
  "well_formed_request ex_invite"
  by (simp_all only: response_args_def ascii_def) code_simp+

text \<open>A response is self-delimiting. Built from a complete ASCII request, with or without a
  body and whatever follows it on the stream, the receiver cuts it out at its exact length.\<close>

theorem response_frames_itself:
  assumes "response_args request reason tag extra"
    and "length (build_response_with_body request code reason extra body tag) < 2 ^ 64"
  shows "frame_sip_message (build_response_with_body request code reason extra body tag @ later) =
     Complete (length (build_response_with_body request code reason extra body tag))"
proof -
  let ?hs = "response_lines request code reason tag
       @ map (\<lambda>(name, v). name @ '': '' @ v) extra @ body_lines body"
  have "\<forall>l \<in> set (map (\<lambda>(name, v). name @ '': '' @ v) extra). clean_line l"
    using assms(1) by (auto simp: response_args_def list_all_iff clean_line_def)
  then have "\<forall>l \<in> set ?hs. clean_line l"
    using clean_response_lines [OF assms(1), of code] body_lines_clean [of body] by auto
  then have "\<forall>l \<in> set ?hs. header_line l \<and> ascii l \<and> \<not> content_length_line l"
    by (simp add: clean_line_def)
  from frame_message [OF this, of body later] assms(2) show ?thesis
    unfolding build_response_body_unlines by simp
qed

theorem response_frames_itself_witness:
  "frame_sip_message
     (build_response_with_body ex_invite 200 ''Trying'' [(''Allow'', ''INVITE'')] ''v=0'' ''t9'' @ ''BYE'') =
   Complete (length (build_response_with_body ex_invite 200 ''Trying'' [(''Allow'', ''INVITE'')] ''v=0'' ''t9''))"
  by (rule response_frames_itself [OF ex_invite_args(1)]) code_simp

text \<open>The status code written into a response is the one the peer reads, for every 16-bit
  code and one-line reason phrase, whatever the request was.\<close>

theorem response_status_code:
  assumes "LF \<notin> set reason" "code < 2 ^ 16"
  shows "extract_status_code (build_response_with_body request code reason extra body tag) = Some code"
  using extract_status_code_unlines [OF assms] response_lines_hd [of request code reason tag]
  unfolding build_response_body_unlines by (metis append_Cons append_assoc)

theorem response_status_code_witness:
  "extract_status_code (build_response_with_body ex_invite 486 ''Busy Here'' [] [] ''t9'') = Some 486"
  by (rule response_status_code) code_simp+

text \<open>A response carries the identity of its transaction. For a request with one header of
  each kind, the Call-ID, the From tag, the topmost Via branch and the CSeq method read from the
  response are those read from the request.\<close>

theorem response_same_transaction:
  assumes "response_args request reason tag extra" "well_formed_request request"
    and "list_all (\<lambda>(n, v). \<not> kinds (n @ '': '' @ v)) extra"
  shows "let resp = build_response_with_headers request code reason extra tag in
         extract_call_id resp = extract_call_id request \<and>
         extract_from_tag resp = extract_from_tag request \<and>
         extract_via_branch resp = extract_via_branch request \<and>
         extract_cseq_method resp = extract_cseq_method request"
proof -
  let ?resp = "build_response_with_headers request code reason extra tag"
  note w = well_formed_headers [OF assms(2)] and f = filter_response_lines [OF assms(2)]
  have b: "filter P (lines ?resp) = filter P (response_lines request code reason tag)"
    if "\<And>l. P l \<Longrightarrow> kinds l" for P
    using built_filter [OF assms(1,3) that] by simp
  have "filter call_id_line (lines ?resp) = map trim (filter call_id_line (lines request))"
    using b [of call_id_line] f(3) w(4) by (simp add: kinds_def)
  moreover have "filter from_line (lines ?resp) = map trim (filter from_line (lines request))"
    using b [of from_line] f(2) w(2) by (simp add: kinds_def)
  moreover have "filter via_line (lines ?resp) = map trim (filter via_line (lines request))"
    using b [of via_line] f(1) w(1) by (simp add: kinds_def)
  moreover have "filter cseq_line (lines ?resp) = map trim (filter cseq_line (lines request))"
    using b [of cseq_line] f(4) w(5) by (simp add: kinds_def)
  ultimately show ?thesis
    unfolding Let_def extract_call_id_def extract_from_tag_def extract_via_branch_def extract_cseq_method_def
    by (metis call_id_lines_filter call_id_lines_trim from_param_filter header_param_trim
        via_param_filter cseq_lines_filter cseq_lines_trim)
qed

theorem response_same_transaction_witness:
  "extract_via_branch
     (build_response_with_headers ex_invite 180 ''Trying'' [(''Allow'', ''INVITE'')] ''t9'') =
     Some (Some ''z9hG4bKa1'')"
proof -
  have "extract_via_branch (build_response_with_headers ex_invite 180 ''Trying''
      [(''Allow'', ''INVITE'')] ''t9'') = extract_via_branch ex_invite"
    using response_same_transaction [OF ex_invite_args] unfolding Let_def kinds_def by code_simp
  also have "\<dots> = Some (Some ''z9hG4bKa1'')" by code_simp
  finally show ?thesis .
qed

end
