(* ===== verification/Utf8_Text.thy ===== *)
theory Utf8_Text
  imports Sip_Response
begin

text \<open>
  Rust's \<open>String\<close> and \<open>str\<close> are always valid UTF-8, and a slice that would break this panics. The
  functions of \<open>src/sip/parser.rs\<close> slice at byte offsets they search for; here it is shown that what
  they cut out of a valid message is valid, so that no offset lies within a character, and that
  what they put together is valid.
\<close>

section \<open>Cutting and joining\<close>

lemma codes_append: "utf8_codes xs \<Longrightarrow> utf8_codes (xs @ ys) = utf8_codes ys"
  by (induction xs rule: utf8_codes.induct) (auto split: if_splits list.splits)

text \<open>The first character, with its continuation bytes.\<close>

lemma codes_first:
  assumes "utf8_codes zs" "zs \<noteq> []"
  obtains u v where "zs = u @ v" "u \<noteq> []" "utf8_codes u" "utf8_codes v" "\<forall>b \<in> set (tl u). cont_byte b"
proof -
  obtain a xs where z: "zs = a # xs" using assms(2) by (cases zs) auto
  consider "a \<le> 127" | "194 \<le> a" "a \<le> 223" | "224 \<le> a" "a \<le> 239" | "240 \<le> a" "a \<le> 244"
    using assms(1) unfolding z by (auto split: if_splits)
  then show ?thesis
  proof cases
    case 1
    then show ?thesis using that [of "[a]" xs] z assms(1) by simp
  next
    case 2
    then have "case xs of b # ys \<Rightarrow> cont_byte b \<and> utf8_codes ys | [] \<Rightarrow> False" using assms(1) unfolding z by simp
    then obtain b ys where "xs = b # ys" "cont_byte b" "utf8_codes ys" by (auto split: list.splits)
    then show ?thesis using 2 that [of "[a, b]" ys] z by simp
  next
    case 3
    then have "case xs of b # c # ys \<Rightarrow> cont_byte b \<and> cont_byte c \<and> (a = 224 \<longrightarrow> 160 \<le> b) \<and>
        (a = 237 \<longrightarrow> b \<le> 159) \<and> utf8_codes ys | _ \<Rightarrow> False" using assms(1) unfolding z by simp
    then obtain b c ys where "xs = b # c # ys" "cont_byte b" "cont_byte c" "a = 224 \<longrightarrow> 160 \<le> b"
      "a = 237 \<longrightarrow> b \<le> 159" "utf8_codes ys" by (auto split: list.splits)
    then show ?thesis using 3 that [of "[a, b, c]" ys] z by simp
  next
    case 4
    then have "case xs of b # c # d # ys \<Rightarrow> cont_byte b \<and> cont_byte c \<and> cont_byte d \<and>
        (a = 240 \<longrightarrow> 144 \<le> b) \<and> (a = 244 \<longrightarrow> b \<le> 143) \<and> utf8_codes ys | _ \<Rightarrow> False"
      using assms(1) unfolding z by simp
    then obtain b c d ys where "xs = b # c # d # ys" "cont_byte b" "cont_byte c" "cont_byte d"
      "a = 240 \<longrightarrow> 144 \<le> b" "a = 244 \<longrightarrow> b \<le> 143" "utf8_codes ys" by (auto split: list.splits)
    then show ?thesis using 4 that [of "[a, b, c, d]" ys] z by simp
  qed
qed

lemma codes_cut:
  assumes "utf8_codes (xs @ ys)" "ys = [] \<or> \<not> cont_byte (hd ys)"
  shows "utf8_codes xs"
  using assms
proof (induction "length xs" arbitrary: xs rule: less_induct)
  case less
  show ?case
  proof (cases "xs = []")
    case False
    obtain u v where u: "xs @ ys = u @ v" "u \<noteq> []" "utf8_codes u" "utf8_codes v" "\<forall>b \<in> set (tl u). cont_byte b"
      using codes_first [OF less.prems(1)] False by (metis append_is_Nil_conv)
    consider w where "xs = u @ w" "w @ ys = v" | w where "u = xs @ w" "w \<noteq> []" "ys = w @ v"
      using u(1) by (auto simp: append_eq_append_conv2) blast
    then show ?thesis
    proof cases
      case (1 w)
      then have "utf8_codes w" using less.hyps [of w] less.prems(2) u(2,4) by simp
      with 1 u(3) show ?thesis by (simp add: codes_append)
    next
      case (2 w)
      then have "hd ys \<in> set (tl u)" using False by (cases xs; cases w) auto
      with 2 u(5) less.prems(2) show ?thesis by auto
    qed
  qed simp
qed

lemma codes_head: "utf8_codes xs \<Longrightarrow> xs = [] \<or> \<not> cont_byte (hd xs)"
  by (cases xs) (auto simp: cont_byte_def split: if_splits)

named_theorems utf8_intros \<open>operations that keep a text valid UTF-8\<close>

abbreviation ascii_char :: "char \<Rightarrow> bool" where "ascii_char c \<equiv> (of_char c :: nat) < 128"

lemma ascii_Nil [simp]: "ascii []"
  by (simp add: ascii_def)

lemma valid_Nil [simp, utf8_intros]: "valid_utf8 []"
  by (simp add: valid_utf8_def)

lemma valid_append: "valid_utf8 s \<Longrightarrow> valid_utf8 (s @ t) = valid_utf8 t"
  by (simp add: valid_utf8_def codes_append)

lemma valid_join [utf8_intros]: "valid_utf8 s \<Longrightarrow> valid_utf8 t \<Longrightarrow> valid_utf8 (s @ t)"
  by (simp add: valid_append)

lemma valid_ascii: "\<forall>c \<in> set s. ascii_char c \<Longrightarrow> valid_utf8 s"
  by (rule ascii_valid_utf8) (simp add: ascii_def)

lemma valid_Cons: "ascii_char c \<Longrightarrow> valid_utf8 (c # s) = valid_utf8 s"
  using valid_append [OF valid_ascii, of "[c]" s] by simp

lemma valid_before: "valid_utf8 (s @ t) \<Longrightarrow> t = [] \<or> ascii_char (hd t) \<Longrightarrow> valid_utf8 s"
  unfolding valid_utf8_def map_append
  by (erule codes_cut) (cases t; auto simp: cont_byte_def)

lemma valid_after: "valid_utf8 (s @ t) \<Longrightarrow> s = [] \<or> ascii_char (last s) \<Longrightarrow> valid_utf8 t"
proof (cases s rule: rev_cases)
  case (snoc u c)
  assume "valid_utf8 (s @ t)" "s = [] \<or> ascii_char (last s)"
  then have v: "valid_utf8 (u @ c # t)" "ascii_char c" using snoc by auto
  then have "valid_utf8 u" using valid_before [of u "c # t"] by simp
  with v show ?thesis by (simp add: valid_append valid_Cons)
qed simp

lemma valid_drop_ascii: "valid_utf8 s \<Longrightarrow> \<forall>c \<in> set (take n s). ascii_char c \<Longrightarrow> valid_utf8 (drop n s)"
  using valid_append [OF valid_ascii, of "take n s" "drop n s"] by simp

lemma valid_takeWhile: "valid_utf8 s \<Longrightarrow> (\<And>c. \<not> P c \<Longrightarrow> ascii_char c) \<Longrightarrow> valid_utf8 (takeWhile P s)"
  using valid_before [of "takeWhile P s" "dropWhile P s"] hd_dropWhile [of P s] by auto

lemma valid_dropWhile: "valid_utf8 s \<Longrightarrow> (\<And>c. P c \<Longrightarrow> ascii_char c) \<Longrightarrow> valid_utf8 (dropWhile P s)"
  using valid_append [OF valid_ascii, of "takeWhile P s" "dropWhile P s"] set_takeWhileD [of _ P s] by auto

lemma valid_dropWhile_end:
  assumes "valid_utf8 s" "\<And>c. P c \<Longrightarrow> ascii_char c"
  shows "valid_utf8 (rev (dropWhile P (rev s)))"
proof -
  have s: "rev (dropWhile P (rev s)) @ rev (takeWhile P (rev s)) = s"
    by (metis rev_append rev_rev_ident takeWhile_dropWhile_id)
  have "ascii_char (hd (rev (takeWhile P (rev s))))" if "takeWhile P (rev s) \<noteq> []"
    using that assms(2) set_takeWhileD [of _ P "rev s"] by (metis last_in_set hd_rev)
  with valid_before [of "rev (dropWhile P (rev s))" "rev (takeWhile P (rev s))"] assms(1) s show ?thesis by auto
qed

lemma is_ws_ascii: "is_ws c \<Longrightarrow> ascii_char c"
  by (auto simp: is_ws_def)

lemma valid_trim [utf8_intros]: "valid_utf8 s \<Longrightarrow> valid_utf8 (trim s)"
  unfolding trim_def trim_end_def trim_start_def
  by (intro valid_dropWhile_end valid_dropWhile is_ws_ascii)

lemma valid_split_on:
  assumes "valid_utf8 s" "\<And>c. P c \<Longrightarrow> ascii_char c" "w \<in> set (split_on P s)"
  shows "valid_utf8 w"
  using assms(1,3)
proof (induction "length s" arbitrary: s rule: less_induct)
  case less
  show ?case
  proof (cases "dropWhile (\<lambda>c. \<not> P c) s")
    case Nil
    then have "split_on P s = [s]" by (intro split_on_none) (simp add: dropWhile_eq_Nil_conv)
    with less.prems show ?thesis by simp
  next
    case (Cons c t)
    let ?u = "takeWhile (\<lambda>c. \<not> P c) s"
    have s: "s = ?u @ c # t" using Cons takeWhile_dropWhile_id [of "\<lambda>c. \<not> P c" s] by simp
    have c: "P c" using Cons hd_dropWhile [of "\<lambda>c. \<not> P c" s] by simp
    have "split_on P s = ?u # split_on P t"
      using split_on_append [of ?u P c t] c set_takeWhileD [of _ "\<lambda>c. \<not> P c" s] s by metis
    moreover have "valid_utf8 ?u" using less.prems(1) assms(2) by (intro valid_takeWhile) auto
    moreover have "valid_utf8 t"
      using valid_after [of "?u @ [c]" t] less.prems(1) s assms(2) [OF c] by simp
    moreover have "length t < length s" using arg_cong [OF s, of length] by simp
    ultimately show ?thesis using less by auto
  qed
qed

lemma valid_split_whitespace: "valid_utf8 s \<Longrightarrow> w \<in> set (split_whitespace s) \<Longrightarrow> valid_utf8 w"
  unfolding split_whitespace_def using valid_split_on [OF _ is_ws_ascii] by auto

lemma valid_strip_cr: "valid_utf8 s \<Longrightarrow> valid_utf8 (strip_cr s)"
  using valid_before [of "butlast s" "[CR]"] by (auto simp: strip_cr_def CR_def) (metis append_butlast_last_id)

lemma valid_lines: "valid_utf8 s \<Longrightarrow> l \<in> set (lines s) \<Longrightarrow> valid_utf8 l"
proof -
  assume v: "valid_utf8 s" and l: "l \<in> set (lines s)"
  let ?ps = "split_on (\<lambda>c. c = LF) s"
  have p: "valid_utf8 w" if "w \<in> set ?ps" for w
    using valid_split_on [OF v _ that] by (simp add: LF_def)
  have "last ?ps \<in> set ?ps" by simp
  with l p valid_strip_cr show ?thesis
    by (auto simp: lines.simps Let_def split_char_def dest: in_set_butlastD split: if_splits)
qed

section \<open>What the parser cuts out\<close>

lemma to_lower_char_ascii: "ascii_char (to_lower_char c) \<Longrightarrow> ascii_char c"
  by (auto simp: to_lower_char.simps Let_def split: if_splits)

lemma lower_prefix_ascii:
  assumes "starts_with (to_lower s) p" "ascii p" "n \<le> length p"
  shows "\<forall>c \<in> set (take n s). ascii_char c"
proof -
  have "take n (to_lower s) = take n p" using assms(1,3) by (auto simp: starts_with_iff)
  then have "to_lower (take n s) = take n p" by (simp add: to_lower_def take_map)
  then have "set (map to_lower_char (take n s)) \<subseteq> set p" by (metis to_lower_def set_take_subset)
  with assms(2) to_lower_char_ascii show ?thesis unfolding ascii_def by (metis image_eqI image_set subsetD)
qed

lemma valid_after_prefix [utf8_intros]:
  "starts_with (to_lower s) p \<Longrightarrow> ascii p \<Longrightarrow> n \<le> length p \<Longrightarrow> valid_utf8 s \<Longrightarrow> valid_utf8 (drop n s)"
  using valid_drop_ascii lower_prefix_ascii by blast

text \<open>A slice between two ASCII characters.\<close>

lemma valid_between:
  assumes "valid_utf8 v" "find_char x v = Some i" "find_char y v = Some j" "ascii_char x" "ascii_char y"
    and "str_slice v (i + 1) j = Some t"
  shows "valid_utf8 t"
proof -
  have ij: "i + 1 \<le> j" "j < length v" "v ! i = x" "v ! j = y"
    using find_char_Some [OF assms(2)] find_char_Some [OF assms(3)] assms(6)
    by (auto simp: str_slice_def split: if_splits)
  have t: "t = take (j - (i + 1)) (drop (i + 1) v)" using assms(6) by (auto simp: str_slice_def split: if_splits)
  have "last (take (i + 1) v) = x" using ij by (simp add: take_Suc_conv_app_nth)
  then have "valid_utf8 (drop (i + 1) v)"
    using valid_after [of "take (i + 1) v" "drop (i + 1) v", unfolded append_take_drop_id] assms(1,4) by simp
  moreover have "drop (i + 1) v = t @ y # drop (Suc j) v"
    using ij id_take_nth_drop [of "j - (i + 1)" "drop (i + 1) v"] by (simp add: t)
  ultimately show ?thesis using valid_before [of t "y # drop (Suc j) v"] assms(5) by simp
qed

lemma valid_slice_from: "valid_utf8 s \<Longrightarrow> slice_from s a = Some t \<Longrightarrow> valid_utf8 t"
proof -
  assume v: "valid_utf8 s" and t: "slice_from s a = Some t"
  have d: "t = drop a s" using slice_from_Some [OF t] by simp
  have "t = [] \<or> \<not> cont_byte (of_char (hd t))"
    using t unfolding slice_from_def d [symmetric] by (cases t) (auto simp: cont_byte_def split: if_splits)
  then have "utf8_codes (map of_char (take a s))"
    using v codes_cut [of "map of_char (take a s)" "map of_char t"] unfolding valid_utf8_def d
    by (metis append_take_drop_id hd_map map_append map_is_Nil_conv)
  with v d show ?thesis using valid_append [of "take a s" t] by (simp add: valid_utf8_def)
qed

lemma param_end_ascii: "param_end c \<Longrightarrow> ascii_char c"
  by (auto simp: param_end_def is_ws_def)

lemma valid_first_piece [utf8_intros]:
  "valid_utf8 s \<Longrightarrow> (\<And>c. P c \<Longrightarrow> ascii_char c) \<Longrightarrow> valid_utf8 (first_piece P s)"
  unfolding first_piece_def by (intro valid_takeWhile) auto

lemma valid_call_id: "\<forall>l \<in> set ls. valid_utf8 l \<Longrightarrow> call_id_lines ls = Some x \<Longrightarrow> valid_utf8 x"
proof (induction ls)
  case (Cons l ls)
  have "valid_utf8 (trim (drop 8 (trim l)))" if "starts_with (to_lower (trim l)) ''call-id:''"
    by (rule valid_trim, rule valid_after_prefix [OF that]) (use Cons.prems(1) valid_trim in auto)
  moreover have "valid_utf8 (trim (drop 2 (trim l)))" if "starts_with (to_lower (trim l)) ''i:''"
    by (rule valid_trim, rule valid_after_prefix [OF that]) (use Cons.prems(1) valid_trim in auto)
  ultimately show ?case using Cons by (auto simp: Let_def split: if_splits)
qed simp

lemma valid_header_param: "\<forall>l \<in> set ls. valid_utf8 l \<Longrightarrow> header_param h1 h2 key ls = Some (Some x) \<Longrightarrow> valid_utf8 x"
proof (induction ls)
  case (Cons l ls)
  have "valid_utf8 (first_piece param_end after)" if "slice_from (trim l) a = Some after" for a after
    using valid_slice_from [OF _ that] Cons.prems(1) valid_trim param_end_ascii by (auto intro: valid_first_piece)
  then show ?case using Cons by (auto simp: Let_def split: if_splits option.splits)
qed simp

lemma valid_header_value:
  "\<forall>l \<in> set ls. valid_utf8 l \<Longrightarrow> ascii p \<Longrightarrow> Suc n \<le> length p \<Longrightarrow> header_value_lines p n ls = Some x \<Longrightarrow> valid_utf8 x"
proof (induction ls)
  case (Cons l ls)
  have "valid_utf8 (trim (drop (n + 1) (trim l)))" if "starts_with (to_lower (trim l)) p"
    by (rule valid_trim, rule valid_after_prefix [OF that]) (use Cons.prems valid_trim in auto)
  then show ?case using Cons by (auto simp: Let_def split: if_splits)
qed simp

text \<open>The end of an address without brackets is where a \<open>;\<close> stands.\<close>

lemma contact_end_at:
  assumes "e = length s \<or> e < length s \<and> ascii_char (s ! e)" "ascii_char c"
  shows "contact_end (to_lower s) (c # p) e = length s \<or>
     contact_end (to_lower s) (c # p) e < length s \<and> ascii_char (s ! contact_end (to_lower s) (c # p) e)"
proof (cases "find_str (c # p) (to_lower s)")
  case (Some i)
  have i: "i < length s" "starts_with (drop i (to_lower s)) (c # p)" using find_str_Some [OF Some] by auto
  have "drop i (to_lower s) = to_lower_char (s ! i) # drop (Suc i) (to_lower s)"
    using i(1) by (simp add: to_lower_def Cons_nth_drop_Suc [symmetric] drop_map)
  with i(2) assms(2) have "ascii_char (s ! i)" using to_lower_char_ascii [of "s ! i"] by simp
  with i(1) assms(1) Some show ?thesis by (auto simp: contact_end_def min_def)
qed (use assms(1) in \<open>simp add: contact_end_def\<close>)

lemma valid_contact_value: "valid_utf8 v \<Longrightarrow> contact_uri_of_value v = Some x \<Longrightarrow> valid_utf8 x"
proof -
  assume v: "valid_utf8 v" and x: "contact_uri_of_value v = Some x"
  let ?f = "trim (first_piece (\<lambda>c. c = CHR '','') v)"
  let ?e = "contact_end (to_lower ?f) '';q='' (contact_end (to_lower ?f) '';expires='' (length ?f))"
  have f: "valid_utf8 ?f" by (rule valid_trim, rule valid_first_piece [OF v]) auto
  have "?e = length ?f \<or> ?e < length ?f \<and> ascii_char (?f ! ?e)"
    by (intro contact_end_at) simp_all
  then have "valid_utf8 (take ?e ?f)"
    using valid_before [of "take ?e ?f" "drop ?e ?f"] f by (auto simp: hd_drop_conv_nth)
  then have plain: "valid_utf8 (trim (take ?e ?f))" by (rule valid_trim)
  have between: "valid_utf8 t"
    if "find_char (CHR ''<'') v = Some i" "find_char (CHR ''>'') v = Some j" "str_slice v (i + 1) j = Some t" for i j t
    using valid_between [OF v that(1,2) _ _ that(3)] by simp
  show ?thesis
  proof (cases "find_char (CHR ''<'') v = None \<or> find_char (CHR ''>'') v = None")
    case True
    then have "x = trim (take ?e ?f)" using x by (auto simp: contact_uri_of_value_def Let_def split: option.splits)
    with plain show ?thesis by (simp only:)
  next
    case False
    then show ?thesis using x between by (auto simp: contact_uri_of_value_def)
  qed
qed

lemma valid_contact_uri: "\<forall>l \<in> set ls. valid_utf8 l \<Longrightarrow> contact_uri_lines ls = Some (Some x) \<Longrightarrow> valid_utf8 x"
proof (induction ls)
  case (Cons l ls)
  have "valid_utf8 (trim (drop 8 (trim l)))" if "starts_with (to_lower (trim l)) ''contact:''"
    by (rule valid_trim, rule valid_after_prefix [OF that]) (use Cons.prems(1) valid_trim in auto)
  moreover have "valid_utf8 (trim (drop 2 (trim l)))" if "starts_with (to_lower (trim l)) ''m:''"
    by (rule valid_trim, rule valid_after_prefix [OF that]) (use Cons.prems(1) valid_trim in auto)
  ultimately show ?case using Cons valid_contact_value
    by (auto simp: Let_def simp del: contact_uri_of_value_def split: if_splits)
qed simp

lemma ascii_to_lower: "ascii s \<Longrightarrow> ascii (to_lower s)"
  by (auto simp: ascii_def to_lower_def to_lower_char.simps Let_def)

lemma valid_header_rest:
  assumes "valid_utf8 l" "ascii name" "header_rest name l = Some v"
  shows "valid_utf8 v"
proof -
  have t: "valid_utf8 (trim l)" using assms(1) by (rule valid_trim)
  have n: "ascii (to_lower name @ '':'')"
    using ascii_to_lower [OF assms(2)] by simp
  have "valid_utf8 (drop (length name + 1) (trim l))" if "starts_with (to_lower (trim l)) (to_lower name @ '':'')"
    by (rule valid_after_prefix [OF that n _ t]) simp
  moreover have "valid_utf8 (drop (length c) (trim l))"
    if "starts_with (to_lower (trim l)) c" "compact_form (to_lower name) = Some c" for c
    by (rule valid_after_prefix [OF that(1) _ _ t]) (use that(2) in \<open>auto simp: compact_form_def split: if_splits\<close>)
  ultimately show ?thesis using assms(3) by (auto simp: header_rest_def Let_def split: if_splits option.splits)
qed

lemma valid_uri: "\<forall>l \<in> set ls. valid_utf8 l \<Longrightarrow> ascii name \<Longrightarrow> uri_lines name ls = Some (Some x) \<Longrightarrow> valid_utf8 x"
proof (induction ls)
  case (Cons l ls)
  have v: "valid_utf8 v" if "header_rest name l = Some v" for v
    using valid_header_rest [OF _ Cons.prems(2) that] Cons.prems(1) by simp
  have plain: "valid_utf8 (trim (first_piece (\<lambda>c. c = CHR '';'') (trim v)))" if "header_rest name l = Some v" for v
    by (rule valid_trim, rule valid_first_piece, rule valid_trim, rule v [OF that]) auto
  have between: "valid_utf8 t" if "header_rest name l = Some v" "find_char (CHR ''<'') v = Some i"
      "find_char (CHR ''>'') v = Some j" "str_slice v (Suc i) j = Some t" for v i j t
    using valid_between [OF v [OF that(1)] that(2,3)] that(4) by simp
  show ?case using Cons plain between by (auto simp: Let_def split: option.splits if_splits)
qed simp

lemma valid_first_line: "valid_utf8 msg \<Longrightarrow> first_line msg = Some l \<Longrightarrow> valid_utf8 l"
  using valid_lines [of msg] valid_trim by (auto simp: first_line_def split: list.splits)

lemma valid_body: "valid_utf8 msg \<Longrightarrow> extract_body msg = Some x \<Longrightarrow> valid_utf8 x"
proof -
  assume v: "valid_utf8 msg" and b: "extract_body msg = Some x"
  then obtain pos where p: "find_str (CRLF @ CRLF) msg = Some pos" "x = drop (pos + 4) msg"
    by (auto simp: extract_body_def Let_def split: option.splits if_splits)
  then obtain t where t: "drop pos msg = (CRLF @ CRLF) @ t" using find_str_Some [OF p(1)] by (auto simp: starts_with_iff)
  have "drop (pos + 4) msg = drop 4 (drop pos msg)" by (simp add: add.commute)
  then have "x = t" unfolding p(2) t by (simp add: CRLF_def)
  moreover have "valid_utf8 ((take pos msg @ CRLF @ CRLF) @ t)" using v t by (metis append.assoc append_take_drop_id)
  then have "valid_utf8 t" by (rule valid_after) (simp add: CRLF_def LF_def)
  ultimately show ?thesis by simp
qed

lemma codes_map_ascii:
  "(\<And>n. n \<le> 127 \<Longrightarrow> f n \<le> 127) \<Longrightarrow> (\<And>n. 127 < n \<Longrightarrow> f n = n) \<Longrightarrow> utf8_codes xs \<Longrightarrow> utf8_codes (map f xs)"
proof (induction "length xs" arbitrary: xs rule: less_induct)
  case less
  show ?case
  proof (cases "xs = []")
    case False
    obtain u v where u: "xs = u @ v" "u \<noteq> []" "utf8_codes u" "utf8_codes v" "\<forall>b \<in> set (tl u). cont_byte b"
      using codes_first [OF less.prems(3) False] by metis
    obtain a w where a: "u = a # w" using u(2) by (cases u) auto
    have "map f w = w" using u(5) less.prems(2) unfolding a by (intro map_idI) (auto simp: cont_byte_def)
    then have "utf8_codes (map f u)"
    proof (cases "a \<le> 127")
      case True
      then show ?thesis using u(3) less.prems(1) \<open>map f w = w\<close> unfolding a by simp
    next
      case False
      then show ?thesis using u(3) less.prems(2) [of a] \<open>map f w = w\<close> unfolding a by simp
    qed
    moreover have "utf8_codes (map f v)" using less u by simp
    ultimately show ?thesis unfolding u(1) map_append by (simp add: codes_append)
  qed simp
qed

lemma valid_to_upper: "valid_utf8 s \<Longrightarrow> valid_utf8 (to_upper s)"
proof -
  assume v: "valid_utf8 s"
  let ?f = "\<lambda>n. if 97 \<le> n \<and> n \<le> 122 then n - 32 else n :: nat"
  have "of_char (to_upper_char c) = ?f (of_char c)" for c
  proof (cases "97 \<le> (of_char c :: nat) \<and> (of_char c :: nat) \<le> 122")
    case True
    then have "(of_char c - 32 :: nat) < 256" by linarith
    with True show ?thesis by (simp add: to_upper_char.simps)
  qed (auto simp: to_upper_char.simps Let_def)
  then have "map of_char (to_upper s) = map ?f (map of_char s)" by (simp add: to_upper_def)
  moreover have "utf8_codes (map ?f (map of_char s))"
    using v by (intro codes_map_ascii) (auto simp: valid_utf8_def)
  ultimately show ?thesis by (simp add: valid_utf8_def)
qed

lemma valid_start_word:
  assumes "valid_utf8 msg" "first_line msg = Some l" "w \<in> set (split_whitespace l)"
  shows "valid_utf8 w"
  using valid_split_whitespace [OF valid_first_line [OF assms(1,2)] assms(3)] .

lemma valid_method:
  assumes "valid_utf8 msg" "extract_method msg = Some x"
  shows "valid_utf8 x"
proof -
  obtain l w ws where "first_line msg = Some l" "split_whitespace l = w # ws" "x = to_upper w"
    using assms(2) by (auto simp: extract_method_def split: option.splits if_splits list.splits)
  with valid_start_word [OF assms(1), of l w] show ?thesis by (simp add: valid_to_upper)
qed

lemma valid_request_uri:
  assumes "valid_utf8 msg" "extract_request_uri msg = Some x"
  shows "valid_utf8 x"
proof -
  obtain l w ws where "first_line msg = Some l" "split_whitespace l = w # x # ws"
    using assms(2) by (auto simp: extract_request_uri_def split: option.splits if_splits list.splits)
  with valid_start_word [OF assms(1), of l x] show ?thesis by simp
qed

lemma valid_extension:
  assumes "valid_utf8 s" "extract_extension s = Some (Some x)"
  shows "valid_utf8 x"
proof -
  obtain u where u: "uri_in_brackets s = Some u" "user_part (without_scheme u) = Some x"
    using assms(2) by (auto simp: extract_extension_def split: option.splits)
  have "valid_utf8 u"
    using u(1) valid_between [OF assms(1)] assms(1) by (auto simp: uri_in_brackets_def split: option.splits)
  then have w: "valid_utf8 (without_scheme u)"
    using valid_after_prefix [of u "''sip:''" 4] valid_after_prefix [of u "''sips:''" 5] valid_after_prefix [of u "''tel:''" 4]
    by (simp add: without_scheme_def Let_def)
  have "valid_utf8 (take i (without_scheme u))" if "find_char (CHR ''@'') (without_scheme u) = Some i" for i
    using valid_before [of "take i (without_scheme u)" "drop i (without_scheme u)"] w find_char_Some [OF that]
    by (simp add: hd_drop_conv_nth)
  with w u(2) show ?thesis
    by (auto simp: user_part_def Let_def intro!: valid_first_piece split: option.splits if_splits)
qed

section \<open>What the builders put together\<close>

lemma valid_CRLF [utf8_intros]: "valid_utf8 CRLF"
  by (rule ascii_valid_utf8) simp

lemma valid_show_nat [utf8_intros]: "valid_utf8 (show_nat n)"
  by (rule ascii_valid_utf8) simp

lemma valid_concat [utf8_intros]: "(\<And>w. w \<in> set ws \<Longrightarrow> valid_utf8 w) \<Longrightarrow> valid_utf8 (concat ws)"
  by (induction ws) (auto intro: valid_join)

definition valid_headers :: "resp_headers \<Rightarrow> bool" where
  "valid_headers h \<longleftrightarrow> (\<forall>v \<in> set (via_headers h). valid_utf8 v) \<and> valid_utf8 (from_header h) \<and>
     valid_utf8 (to_header h) \<and> valid_utf8 (call_id_header h) \<and> valid_utf8 (cseq_header h)"

lemma valid_scan: "\<forall>l \<in> set ls. valid_utf8 l \<Longrightarrow> valid_headers h \<Longrightarrow> valid_headers (scan_headers ls h)"
proof (induction ls arbitrary: h)
  case (Cons l ls)
  have "valid_headers (copy_header (trim l) h)"
    using Cons.prems valid_trim [of l] by (auto simp: copy_header_def valid_headers_def Let_def)
  then show ?case using Cons by (simp add: Let_def)
qed simp

lemma valid_response:
  assumes "valid_utf8 request" "valid_utf8 reason" "valid_utf8 tag" "\<forall>p \<in> set extra. valid_utf8 (fst p) \<and> valid_utf8 (snd p)"
    and "valid_utf8 body"
  shows "valid_utf8 (build_response_with_body request code reason extra body tag)"
    "valid_utf8 (build_response_with_headers request code reason extra tag)" "valid_utf8 (build_response request code reason tag)"
proof -
  let ?h = "scan_headers (lines request) no_headers"
  have "valid_headers no_headers" by (simp add: valid_headers_def no_headers_def)
  then have h: "valid_headers ?h" using valid_scan valid_lines [OF assms(1)] by blast
  then have "valid_utf8 (add_to_tag code tag (to_header ?h))"
    using assms(3) by (auto simp: add_to_tag_def valid_headers_def valid_Cons intro!: valid_join)
  then have head: "valid_utf8 (response_head request code reason tag)"
    using h assms(2) valid_ascii [of "''SIP/2.0 ''"] unfolding response_head_def Let_def
    by (auto simp: valid_headers_def valid_Cons intro!: utf8_intros)
  have extra: "valid_utf8 (extra_header_lines extra)"
    using assms(4) unfolding extra_header_lines_def case_prod_beta
    by (intro valid_concat) (auto simp: valid_Cons intro!: valid_join valid_CRLF)
  show "valid_utf8 (build_response_with_body request code reason extra body tag)"
    "valid_utf8 (build_response_with_headers request code reason extra tag)" "valid_utf8 (build_response request code reason tag)"
    using head extra assms(5) unfolding build_response_with_body_def build_response_with_headers_def build_response_def
    by (auto simp: valid_Cons intro!: utf8_intros)
qed

section \<open>Offsets found in the lower case line\<close>

text \<open>Without a letter that grows in lower case the offset is right, and it follows an ASCII key.\<close>

lemma slice_after_key:
  assumes "valid_utf8 t" "CHR 0xC4 \<notin> set t" "find_str key (to_lowercase t) = Some pos"
    and "key \<noteq> []" "ascii key"
  shows "slice_from t (pos + length key) \<noteq> None"
proof -
  let ?n = "pos + length key"
  have low: "find_str key (to_lower t) = Some pos" using assms(2,3) by (simp add: to_lowercase_id)
  have n: "?n \<le> length t" "starts_with (to_lower (drop pos t)) key"
    using find_str_Some [OF low] by (simp_all add: drop_to_lower)
  have "\<forall>c \<in> set (take (length key) (drop pos t)). ascii_char c"
    by (rule lower_prefix_ascii [OF n(2) assms(5)]) simp
  moreover have "last (take ?n t) \<in> set (take (length key) (drop pos t))"
  proof -
    have "take ?n t = take pos t @ take (length key) (drop pos t)" by (rule take_add)
    moreover have "take (length key) (drop pos t) \<noteq> []" using n(1) assms(4) by (cases key) auto
    ultimately show ?thesis by (simp add: last_append)
  qed
  ultimately have "valid_utf8 (drop ?n t)"
    using valid_after [of "take ?n t" "drop ?n t", unfolded append_take_drop_id] assms(1) by blast
  then have "drop ?n t = [] \<or> \<not> cont_byte (of_char (hd (drop ?n t)))"
    using codes_head [of "map of_char (drop ?n t)"] by (auto simp: valid_utf8_def hd_map)
  then show ?thesis using n(1) by (cases "drop ?n t") (auto simp: slice_from_def cont_byte_def)
qed

lemma header_param_safe:
  assumes "\<forall>l \<in> set ls. valid_utf8 l \<and> CHR 0xC4 \<notin> set l" "key \<noteq> []" "ascii key"
  shows "header_param h1 h2 key ls \<noteq> None"
  using assms(1)
proof (induction ls)
  case (Cons l ls)
  have "slice_from (trim l) (pos + length key) \<noteq> None" if "find_str key (to_lowercase (trim l)) = Some pos" for pos
    using Cons.prems set_trim valid_trim by (intro slice_after_key [OF _ _ that assms(2,3)]) auto
  then show ?case using Cons by (fastforce simp: Let_def split: option.split)
qed simp

lemma contact_expires_safe:
  assumes "\<forall>l \<in> set ls. valid_utf8 l \<and> CHR 0xC4 \<notin> set l"
  shows "contact_expires ls \<noteq> None"
  using assms
proof (induction ls)
  case (Cons l ls)
  have v: "valid_utf8 (trim l)" "CHR 0xC4 \<notin> set (trim l)" using Cons.prems set_trim [of l] valid_trim [of l] by auto
  have k: "length ''expires='' = 8" "''expires='' \<noteq> []" "ascii ''expires=''" by simp_all
  have "\<exists>t. slice_from (trim l) (pos + 8) = Some t" if "find_str ''expires='' (to_lowercase (trim l)) = Some pos" for pos
    using slice_after_key [OF v that k(2,3)] unfolding k(1) by blast
  moreover have "contact_expires ls \<noteq> None" using Cons by simp
  ultimately show ?case by (auto simp: Let_def split: option.split)
qed simp

section \<open>Property\<close>



end
