(* ===== verification/Sdp.thy ===== *)
theory Sdp
  imports Sip_Response
begin

text \<open>
  The SDP rewriting of the media B2BUA: \<open>rewrite_sdp_with_cryptos\<close> of \<open>src/sip/parser.rs\<close> and
  the two answer fixes of \<open>src/sip/router.rs\<close>. The lemmas show what the peer is told: the relay's
  address and port, the server's own keys once per audio section, and none of the attributes
  of the other side that would let the media bypass the relay.
\<close>

section \<open>Crypto lines\<close>

record sdp_crypto =
  crypto_tag :: nat
  crypto_suite :: string
  crypto_key :: string

definition crypto_to_line :: "sdp_crypto \<Rightarrow> string" where
  "crypto_to_line c =
     ''a=crypto:'' @ show_nat (crypto_tag c) @ '' '' @ crypto_suite c @ '' inline:'' @ crypto_key c"

definition should_strip_for_sdes_srtp :: "string \<Rightarrow> bool" where
  "should_strip_for_sdes_srtp line =
     (let lower = to_lower (trim line) in
      list_ex (starts_with lower)
        [''a=crypto:'', ''a=fingerprint:'', ''a=setup:'', ''a=connection:'', ''a=key-mgmt:'',
         ''a=ice-ufrag:'', ''a=ice-pwd:'', ''a=ice-options:'', ''a=candidate:'',
         ''a=end-of-candidates'', ''a=remote-candidates:'', ''a=rtcp:'', ''a=rtcp-mux'',
         ''a=rtcp-rsize''])"

section \<open>The rewriting loop\<close>

record rewrite_state =
  result :: "string list"
  in_audio :: bool
  found_audio :: bool
  crypto_inserted :: bool

definition push_crypto_lines :: "sdp_crypto list \<Rightarrow> rewrite_state \<Rightarrow> rewrite_state" where
  "push_crypto_lines cryptos st = st\<lparr>result := result st @ map crypto_to_line cryptos\<rparr>"

definition push_line :: "string \<Rightarrow> rewrite_state \<Rightarrow> rewrite_state" where
  "push_line l st = st\<lparr>result := result st @ [l]\<rparr>"

text \<open>The first \<open>if\<close> of the loop body: a new media section begins.\<close>

definition enter_media :: "sdp_crypto list \<Rightarrow> string \<Rightarrow> rewrite_state \<Rightarrow> rewrite_state" where
  "enter_media cryptos line st =
     (if starts_with line ''m='' then
        (let st1 = (if in_audio st \<and> \<not> crypto_inserted st \<and> cryptos \<noteq> []
                    then push_crypto_lines cryptos st else st)
         in st1\<lparr>in_audio := starts_with line ''m=audio'', crypto_inserted := False\<rparr>)
      else st)"

definition rewrite_line ::
  "string \<Rightarrow> nat \<Rightarrow> sdp_crypto list \<Rightarrow> string \<Rightarrow> rewrite_state \<Rightarrow> rewrite_state" where
  "rewrite_line relay_addr relay_port cryptos line st0 =
     (let st = enter_media cryptos line st0 in
      if starts_with line ''c='' then push_line (''c=IN IP4 '' @ relay_addr) st
      else if starts_with line ''m=audio'' then
        (let parts = split_whitespace line in
         if 4 \<le> length parts then
           (let proto = (if cryptos \<noteq> [] then ''RTP/SAVP'' else parts ! 2) in
            (push_line (''m=audio '' @ show_nat relay_port @ '' '' @ proto @ '' ''
               @ join '' '' (drop 3 parts)) st)\<lparr>found_audio := True\<rparr>)
         else push_line line st)
      else if in_audio st \<and> starts_with line ''a=crypto'' then
        (if \<not> crypto_inserted st
         then (push_crypto_lines cryptos st)\<lparr>crypto_inserted := True\<rparr> else st)
      else if cryptos \<noteq> [] \<and> should_strip_for_sdes_srtp line then st
      else push_line line st)"

definition rewrite_start :: rewrite_state where
  "rewrite_start = \<lparr>result = [], in_audio = False, found_audio = False, crypto_inserted = False\<rparr>"

definition rewrite_lines ::
  "string \<Rightarrow> nat \<Rightarrow> sdp_crypto list \<Rightarrow> string list \<Rightarrow> rewrite_state" where
  "rewrite_lines relay_addr relay_port cryptos ls =
     (let st = fold (rewrite_line relay_addr relay_port cryptos) ls rewrite_start in
      if in_audio st \<and> found_audio st \<and> \<not> crypto_inserted st \<and> cryptos \<noteq> []
      then push_crypto_lines cryptos st else st)"

definition rewrite_sdp_with_cryptos ::
  "string \<Rightarrow> string \<Rightarrow> nat \<Rightarrow> sdp_crypto list \<Rightarrow> string" where
  "rewrite_sdp_with_cryptos sdp relay_addr relay_port cryptos =
     join CRLF (result (rewrite_lines relay_addr relay_port cryptos (lines sdp))) @ CRLF"

definition rewrite_sdp_with_crypto ::
  "string \<Rightarrow> string \<Rightarrow> nat \<Rightarrow> string option \<Rightarrow> string" where
  "rewrite_sdp_with_crypto sdp relay_addr relay_port crypto_key_b64 =
     rewrite_sdp_with_cryptos sdp relay_addr relay_port
       (case crypto_key_b64 of
          Some key \<Rightarrow> [\<lparr>crypto_tag = 1, crypto_suite = ''AES_CM_128_HMAC_SHA1_80'', crypto_key = key\<rparr>]
        | None \<Rightarrow> [])"

definition rewrite_sdp :: "string \<Rightarrow> string \<Rightarrow> nat \<Rightarrow> string \<Rightarrow> string" where
  "rewrite_sdp sdp relay_addr relay_port crypto_key_b64 =
     rewrite_sdp_with_crypto sdp relay_addr relay_port (Some crypto_key_b64)"

section \<open>Answer fixes\<close>

text \<open>\<open>sdp.trim_end_matches('\<close>LF\<open>').trim_end_matches('\<close>CR\<open>')\<close>, and its last line.\<close>

definition trim_line_end :: "string \<Rightarrow> string" where
  "trim_line_end sdp = trim_end_matches CR (trim_end_matches LF sdp)"

definition crypto_last :: "string \<Rightarrow> bool" where
  "crypto_last sdp =
     starts_with (to_lower (trim (last (split_char LF (trim_line_end sdp))))) ''a=crypto:''"

definition ensure_answer_crypto_not_last_line :: "string \<Rightarrow> string" where
  "ensure_answer_crypto_not_last_line sdp =
     (if \<not> crypto_last sdp then sdp
      else trim_line_end sdp @ CRLF @ ''a=ptime:20'' @ CRLF)"

record rtpmap_scan =
  scan_audio :: bool
  audio_pts :: "nat list"
  rtpmap_pts :: "nat set"

text \<open>The \<open>parse::<u16>().ok()\<close> of the payload numbers of an \<open>m=audio\<close> line.\<close>

definition parsed_pts :: "string list \<Rightarrow> nat list" where
  "parsed_pts ws = List.map_filter (parse_uint 16) ws"

definition rtpmap_line :: "string \<Rightarrow> rtpmap_scan \<Rightarrow> rtpmap_scan" where
  "rtpmap_line line s0 =
     (let s1 = (if starts_with line ''m='' then s0\<lparr>scan_audio := starts_with line ''m=audio''\<rparr>
                else s0);
          s2 = (if scan_audio s1 then
                  (case strip_prefix (trim line) ''a=rtpmap:'' of
                     Some rest \<Rightarrow>
                       (case split_whitespace rest of
                          pt # _ \<Rightarrow>
                            (case parse_uint 16 pt of
                               Some num \<Rightarrow> s1\<lparr>rtpmap_pts := insert num (rtpmap_pts s1)\<rparr>
                             | None \<Rightarrow> s1)
                        | [] \<Rightarrow> s1)
                   | None \<Rightarrow> s1)
                else s1)
      in if scan_audio s2 \<and> starts_with line ''m=audio'' then
           (let parts = split_whitespace line in
            if 4 \<le> length parts
            then s2\<lparr>audio_pts := audio_pts s2 @ parsed_pts (drop 3 parts)\<rparr> else s2)
         else s2)"

definition scan_rtpmaps :: "string \<Rightarrow> rtpmap_scan" where
  "scan_rtpmaps sdp =
     fold rtpmap_line (lines sdp) \<lparr>scan_audio = False, audio_pts = [], rtpmap_pts = {}\<rparr>"

definition missing_rtpmaps :: "string \<Rightarrow> nat list" where
  "missing_rtpmaps sdp =
     (let s = scan_rtpmaps sdp
      in filter (\<lambda>pt. 95 < pt \<and> pt \<notin> rtpmap_pts s) (audio_pts s))"

definition fill_missing_rtpmap :: "string \<Rightarrow> string" where
  "fill_missing_rtpmap sdp =
     (if missing_rtpmaps sdp = [] then sdp
      else trim_line_end sdp
        @ concat (map (\<lambda>pt. CRLF @ ''a=rtpmap:'' @ show_nat pt @ '' unknown/8000'')
                   (missing_rtpmaps sdp))
        @ CRLF)"

section \<open>The lines of the result\<close>

lemma join_unlines: "ls \<noteq> [] \<Longrightarrow> join CRLF ls @ CRLF = unlines ls"
  by (induction CRLF ls rule: join.induct) simp_all

lemma push_simps [simp]:
  "result (push_line l st) = result st @ [l]" "in_audio (push_line l st) = in_audio st"
  "found_audio (push_line l st) = found_audio st"
  "crypto_inserted (push_line l st) = crypto_inserted st"
  "result (push_crypto_lines cs st) = result st @ map crypto_to_line cs"
  "in_audio (push_crypto_lines cs st) = in_audio st"
  "found_audio (push_crypto_lines cs st) = found_audio st"
  "crypto_inserted (push_crypto_lines cs st) = crypto_inserted st"
  by (simp_all add: push_line_def push_crypto_lines_def)

definition rewritten_line :: "string \<Rightarrow> nat \<Rightarrow> sdp_crypto list \<Rightarrow> string \<Rightarrow> bool" where
  "rewritten_line relay_addr relay_port cryptos l \<longleftrightarrow>
     (starts_with l ''c='' \<longrightarrow> l = ''c=IN IP4 '' @ relay_addr) \<and>
     (should_strip_for_sdes_srtp l \<longrightarrow> l \<in> crypto_to_line ` set cryptos) \<and>
     (starts_with l ''m=audio'' \<and> 4 \<le> length (split_whitespace l) \<longrightarrow>
        (\<exists>formats. l = ''m=audio '' @ show_nat relay_port @ '' RTP/SAVP '' @ formats))"

lemma strip_needs_a:
  assumes "l \<noteq> []" "\<not> is_ws (hd l)" "to_lower_char (hd l) \<noteq> CHR ''a''"
  shows "\<not> should_strip_for_sdes_srtp l"
  using kind_hd [OF assms(1,2)] assms(3) by (auto simp: should_strip_for_sdes_srtp_def Let_def)

lemma lower_cm: "to_lower_char (CHR ''c'') = CHR ''c''" "to_lower_char (CHR ''m'') = CHR ''m''"
  "to_lower_char (CHR ''a'') = CHR ''a''"
  by code_simp+

lemma c_m_not_stripped:
  "starts_with l ''c='' \<or> starts_with l ''m='' \<Longrightarrow> \<not> should_strip_for_sdes_srtp l"
  using strip_needs_a [of l] lower_cm by (cases l) (auto simp: is_ws_def)

lemma m_audio_is_m: "starts_with l ''m=audio'' \<Longrightarrow> starts_with l ''m=''"
  by (auto simp: starts_with_iff)

lemma audio_line_strip: "starts_with l ''m=audio'' \<Longrightarrow> \<not> should_strip_for_sdes_srtp l"
  using c_m_not_stripped m_audio_is_m by blast

lemma rewritten_audio:
  "rewritten_line a p cs (''m=audio '' @ show_nat p @ '' RTP/SAVP '' @ fmts)"
  using audio_line_strip [of "''m=audio '' @ show_nat p @ '' RTP/SAVP '' @ fmts"]
  by (simp add: rewritten_line_def)

lemma rewritten_c: "rewritten_line a p cs (''c=IN IP4 '' @ a)"
  using c_m_not_stripped [of "''c=IN IP4 '' @ a"] by (simp add: rewritten_line_def)

lemma rewritten_crypto: "c \<in> set cs \<Longrightarrow> rewritten_line a p cs (crypto_to_line c)"
  by (simp add: rewritten_line_def crypto_to_line_def)

lemma rewritten_Nil: "rewritten_line a p cs []"
  by (simp add: rewritten_line_def should_strip_for_sdes_srtp_def Let_def)

lemma enter_media_result:
  "set (result (enter_media cs l st)) \<subseteq> set (result st) \<union> crypto_to_line ` set cs"
  by (auto simp: enter_media_def Let_def)

definition audio_line :: "nat \<Rightarrow> sdp_crypto list \<Rightarrow> string list \<Rightarrow> string" where
  "audio_line relay_port cryptos parts =
     ''m=audio '' @ show_nat relay_port @ '' ''
       @ (if cryptos \<noteq> [] then ''RTP/SAVP'' else parts ! 2) @ '' '' @ join '' '' (drop 3 parts)"

text \<open>The five ways a line gets into the result.\<close>

lemma rewrite_line_cases:
  assumes "l \<in> set (result (rewrite_line a p cs line st))"
  obtains (old) "l \<in> set (result st)"
    | (crypto) "l \<in> crypto_to_line ` set cs"
    | (c) "l = ''c=IN IP4 '' @ a"
    | (audio) "4 \<le> length (split_whitespace line)" "l = audio_line p cs (split_whitespace line)"
    | (kept) "l = line" "\<not> starts_with line ''c=''" "starts_with line ''m=audio''"
        "\<not> 4 \<le> length (split_whitespace line)"
    | (other) "l = line" "\<not> starts_with line ''c=''" "\<not> starts_with line ''m=audio''"
        "cs = [] \<or> \<not> should_strip_for_sdes_srtp line"
proof -
  let ?e = "enter_media cs line st"
  have e: "set (result ?e) \<subseteq> set (result st) \<union> crypto_to_line ` set cs"
    by (rule enter_media_result)
  consider (c') "starts_with line ''c=''"
    | (m') "\<not> starts_with line ''c=''" "starts_with line ''m=audio''" "4 \<le> length (split_whitespace line)"
    | (s') "\<not> starts_with line ''c=''" "starts_with line ''m=audio''" "\<not> 4 \<le> length (split_whitespace line)"
    | (k') "\<not> starts_with line ''c=''" "\<not> starts_with line ''m=audio''" "in_audio ?e \<and> starts_with line ''a=crypto''"
    | (o') "\<not> starts_with line ''c=''" "\<not> starts_with line ''m=audio''" "\<not> (in_audio ?e \<and> starts_with line ''a=crypto'')"
    by blast
  then have "l \<in> set (result ?e) \<or> l \<in> crypto_to_line ` set cs \<or> l = ''c=IN IP4 '' @ a
     \<or> 4 \<le> length (split_whitespace line) \<and> l = audio_line p cs (split_whitespace line)
     \<or> l = line \<and> \<not> starts_with line ''c='' \<and> starts_with line ''m=audio'' \<and> \<not> 4 \<le> length (split_whitespace line)
     \<or> l = line \<and> \<not> starts_with line ''c='' \<and> \<not> starts_with line ''m=audio'' \<and>
        (cs = [] \<or> \<not> should_strip_for_sdes_srtp line)"
  proof cases
    case c' then show ?thesis using assms by (auto simp: rewrite_line_def Let_def)
  next
    case m'
    then have "result (rewrite_line a p cs line st) = result ?e @ [audio_line p cs (split_whitespace line)]"
      by (simp add: rewrite_line_def Let_def audio_line_def)
    with assms m' show ?thesis by auto
  next
    case s' then show ?thesis using assms by (auto simp: rewrite_line_def Let_def)
  next
    case k' then show ?thesis using assms by (auto simp: rewrite_line_def Let_def split: if_splits)
  next
    case o' then show ?thesis using assms by (auto simp: rewrite_line_def Let_def split: if_splits)
  qed
  with e show ?thesis using that by blast
qed

lemma rewrite_lines_all:
  assumes line: "\<And>line st l. line \<in> set ls \<Longrightarrow> l \<in> set (result (rewrite_line a p cs line st)) \<Longrightarrow>
      l \<in> set (result st) \<or> P l"
    and cr: "\<And>c. c \<in> set cs \<Longrightarrow> P (crypto_to_line c)"
    and l: "l \<in> set (result (rewrite_lines a p cs ls))"
  shows "P l"
proof -
  have "l \<in> set (result st) \<or> P l" if "l \<in> set (result (fold (rewrite_line a p cs) xs st))" "set xs \<subseteq> set ls" for xs st
    using that
  proof (induction xs arbitrary: st)
    case (Cons x xs)
    then show ?case using line [of x l st] by auto
  qed simp
  from this [of ls rewrite_start] l cr show ?thesis
    by (auto simp: rewrite_lines_def Let_def rewrite_start_def split: if_splits)
qed

lemma rewritten_result:
  assumes "cs \<noteq> []" "l \<in> set (result (rewrite_lines a p cs ls))"
  shows "rewritten_line a p cs l"
proof (rule rewrite_lines_all [where P = "rewritten_line a p cs", OF _ rewritten_crypto assms(2)])
  fix line st l
  assume "l \<in> set (result (rewrite_line a p cs line st))"
  then show "l \<in> set (result st) \<or> rewritten_line a p cs l"
  proof (cases rule: rewrite_line_cases)
    case crypto then show ?thesis using rewritten_crypto by blast
  next
    case c then show ?thesis using rewritten_c by simp
  next
    case audio
    then have "rewritten_line a p cs l"
      using rewritten_audio [of a p cs "join '' '' (drop 3 (split_whitespace line))"] assms(1)
      by (simp add: audio_line_def)
    then show ?thesis ..
  next
    case kept then show ?thesis using audio_line_strip by (simp add: rewritten_line_def)
  next
    case other then show ?thesis using assms(1) by (simp add: rewritten_line_def)
  qed simp
qed

text \<open>No line of the result holds a line feed, so the text has exactly these lines.\<close>

definition one_line_params :: "string \<Rightarrow> sdp_crypto list \<Rightarrow> bool" where
  "one_line_params relay_addr cryptos \<longleftrightarrow>
     LF \<notin> set relay_addr \<and> list_all (\<lambda>c. LF \<notin> set (crypto_to_line c)) cryptos"

lemma audio_line_no_LF:
  assumes "4 \<le> length (split_whitespace line)"
  shows "LF \<notin> set (audio_line p cs (split_whitespace line))"
proof -
  have "LF \<notin> set (split_whitespace line ! 2)"
    using assms by (intro split_whitespace_no_LF [of _ line] nth_mem) simp
  moreover have "LF \<notin> set (join '' '' (drop 3 (split_whitespace line)))"
    using split_whitespace_no_LF in_set_dropD by (intro join_no_LF) (fastforce simp: LF_def)+
  moreover have "LF \<notin> set ''m=audio ''" "LF \<notin> set '' ''" "LF \<notin> set ''RTP/SAVP''"
    by (simp_all add: LF_def)
  ultimately show ?thesis 
    by (simp only: audio_line_def set_append Un_iff show_nat_no_LF split: if_split) simp
qed

lemma result_no_LF:
  assumes "one_line_params a cs" "l \<in> set (result (rewrite_lines a p cs (lines sdp)))"
  shows "LF \<notin> set l"
proof (rule rewrite_lines_all [where P = "\<lambda>l. LF \<notin> set l", OF _ _ assms(2)])
  fix c assume "c \<in> set cs"
  with assms(1) show "LF \<notin> set (crypto_to_line c)" by (simp add: one_line_params_def list_all_iff)
next
  fix line st l
  assume i: "line \<in> set (lines sdp)" and "l \<in> set (result (rewrite_line a p cs line st))"
  from this(2) show "l \<in> set (result st) \<or> LF \<notin> set l"
  proof (cases rule: rewrite_line_cases)
    case crypto then show ?thesis using assms(1) by (auto simp: one_line_params_def list_all_iff)
  next
    case c then show ?thesis using assms(1) by (auto simp: one_line_params_def LF_def)
  next
    case audio then show ?thesis using audio_line_no_LF by simp
  qed (use i lines_no_LF in auto)
qed

lemma lines_rewrite:
  assumes "one_line_params a cs"
  shows "lines (rewrite_sdp_with_cryptos sdp a p cs) =
     (let r = result (rewrite_lines a p cs (lines sdp)) in if r = [] then [[]] else r)"
proof -
  let ?r = "result (rewrite_lines a p cs (lines sdp))"
  have "\<forall>l \<in> set ?r. LF \<notin> set l" using result_no_LF [OF assms] by blast
  then have "lines (unlines ?r @ []) = ?r @ lines []" by (rule lines_unlines)
  then show ?thesis
    using join_unlines [of ?r] lines_line [of "[]" "[]"]
    by (simp add: rewrite_sdp_with_cryptos_def Let_def)
qed

section \<open>How often the keys are announced\<close>

definition crypto_line :: "string \<Rightarrow> bool" where
  "crypto_line l = starts_with (to_lower (trim l)) ''a=crypto:''"

definition audio_sections :: "string list \<Rightarrow> nat" where
  "audio_sections ls = length (filter (\<lambda>l. starts_with l ''m=audio'') ls)"

definition audio_fields :: "string list \<Rightarrow> bool" where
  "audio_fields ls = list_all (\<lambda>l. starts_with l ''m=audio'' \<longrightarrow> 4 \<le> length (split_whitespace l)) ls"

lemma crypto_line_of: "crypto_line (crypto_to_line c)"
proof -
  let ?r = "show_nat (crypto_tag c) @ '' '' @ crypto_suite c @ '' inline:'' @ crypto_key c"
  have "trim_start (''a=crypto:'' @ ?r) = ''a=crypto:'' @ ?r" by (simp add: trim_start_def is_ws_def)
  then have "trim (crypto_to_line c) = trim_end (''a=crypto:'' @ ?r)"
    by (simp add: trim_def crypto_to_line_def)
  also have "\<dots> = ''a=crypto:'' @ trim_end ?r"
    using show_nat_not_ws(1) [of "crypto_tag c"]
    by (intro trim_end_append_nonws [of "hd (show_nat (crypto_tag c))"]) simp_all
  finally have "to_lower (trim (crypto_to_line c)) = ''a=crypto:'' @ to_lower (trim_end ?r)"
    by (simp only: to_lower_append) code_simp
  then show ?thesis by (simp add: crypto_line_def)
qed

lemma crypto_lines_of [simp]: "filter crypto_line (map crypto_to_line cs) = map crypto_to_line cs"
  by (simp add: crypto_line_of filter_id_conv)

lemma not_stripped_not_crypto: "\<not> should_strip_for_sdes_srtp l \<Longrightarrow> \<not> crypto_line l"
  by (simp add: should_strip_for_sdes_srtp_def crypto_line_def Let_def)

lemma audio_line_not_crypto: "\<not> crypto_line (audio_line p cs parts)"
  by (rule not_stripped_not_crypto, rule audio_line_strip) (simp add: audio_line_def)

lemma c_line_not_crypto: "\<not> crypto_line (''c=IN IP4 '' @ a)"
  by (rule not_stripped_not_crypto, rule c_m_not_stripped) simp

text \<open>
  The loop invariant: the keys were written once for each audio section seen so far, the
  current one excepted while its keys are still pending.
\<close>

definition keys_written :: "sdp_crypto list \<Rightarrow> nat \<Rightarrow> rewrite_state \<Rightarrow> bool" where
  "keys_written cs n st \<longleftrightarrow>
     (in_audio st \<longrightarrow> found_audio st \<and> 0 < n) \<and>
     filter crypto_line (result st) =
       concat (replicate (if in_audio st \<and> \<not> crypto_inserted st then n - 1 else n)
                (map crypto_to_line cs))"

lemma concat_replicate_pred:
  "0 < n \<Longrightarrow> concat (replicate (n - 1) xs) @ xs = concat (replicate n xs)"
proof -
  have "concat (replicate k xs) @ xs = xs @ concat (replicate k xs)" for k
    by (induction k) simp_all
  moreover assume "0 < n"
  ultimately show ?thesis by (cases n) simp_all
qed

lemma enter_media_keys:
  assumes "cs \<noteq> []" "keys_written cs n st"
  shows "filter crypto_line (result (enter_media cs line st)) =
     concat (replicate (if in_audio st \<and> \<not> crypto_inserted st \<and> \<not> starts_with line ''m=''
                        then n - 1 else n) (map crypto_to_line cs))"
  using assms by (auto simp: enter_media_def keys_written_def Let_def concat_replicate_pred [unfolded One_nat_def])

lemma rewrite_line_keys:
  assumes "cs \<noteq> []" "keys_written cs n st" "audio_fields [line]"
  shows "keys_written cs (n + audio_sections [line]) (rewrite_line a p cs line st)"
proof -
  let ?e = "enter_media cs line st"
  note e = enter_media_keys [OF assms(1,2), of line]
  have fl: "in_audio ?e = (if starts_with line ''m='' then starts_with line ''m=audio'' else in_audio st)"
    "crypto_inserted ?e = (\<not> starts_with line ''m='' \<and> crypto_inserted st)"
    "found_audio ?e = found_audio st"
    by (simp_all add: enter_media_def Let_def)
  have cm: "starts_with line ''c='' \<Longrightarrow> \<not> starts_with line ''m='' \<and> \<not> starts_with line ''m=audio''"
    by (cases line) auto
  consider (c) "starts_with line ''c=''"
    | (m) "\<not> starts_with line ''c=''" "starts_with line ''m=audio''"
    | (k) "\<not> starts_with line ''c=''" "\<not> starts_with line ''m=audio''" "in_audio ?e \<and> starts_with line ''a=crypto''"
    | (o) "\<not> starts_with line ''c=''" "\<not> starts_with line ''m=audio''" "\<not> (in_audio ?e \<and> starts_with line ''a=crypto'')"
    by blast
  then show ?thesis
  proof cases
    case c
    with cm e fl assms(2) c_line_not_crypto show ?thesis
      by (simp add: rewrite_line_def keys_written_def audio_sections_def Let_def)
  next
    case m
    with m_audio_is_m e fl assms audio_line_not_crypto [of p cs "split_whitespace line"] show ?thesis
      by (simp add: rewrite_line_def keys_written_def audio_sections_def audio_fields_def
          audio_line_def Let_def)
  next
    case k
    then have nm: "\<not> starts_with line ''m=''" by (cases line) auto
    with k e fl assms(2) show ?thesis
      by (auto simp: rewrite_line_def keys_written_def audio_sections_def Let_def
          concat_replicate_pred [unfolded One_nat_def])
  next
    case o
    with e fl assms(1,2) not_stripped_not_crypto m_audio_is_m show ?thesis
      by (auto simp: rewrite_line_def keys_written_def audio_sections_def Let_def split: if_splits)
  qed
qed

lemma rewrite_fold_keys:
  assumes "cs \<noteq> []"
  shows "keys_written cs n st \<Longrightarrow> audio_fields ls \<Longrightarrow>
     keys_written cs (n + audio_sections ls) (fold (rewrite_line a p cs) ls st)"
proof (induction ls arbitrary: n st)
  case Nil
  then show ?case by (simp add: audio_sections_def)
next
  case (Cons l ls)
  then have "keys_written cs (n + audio_sections [l]) (rewrite_line a p cs l st)"
    by (intro rewrite_line_keys [OF assms]) (simp_all add: audio_fields_def)
  from Cons.IH [OF this] Cons.prems(2) show ?case
    by (simp add: audio_sections_def audio_fields_def add.assoc split: if_splits)
qed

lemma rewrite_lines_keys:
  assumes "cs \<noteq> []" "audio_fields ls"
  shows "filter crypto_line (result (rewrite_lines a p cs ls)) =
     concat (replicate (audio_sections ls) (map crypto_to_line cs))"
proof -
  have "keys_written cs 0 rewrite_start" by (simp add: keys_written_def rewrite_start_def)
  from rewrite_fold_keys [OF assms(1) this assms(2), of a p]
  have k: "keys_written cs (audio_sections ls) (fold (rewrite_line a p cs) ls rewrite_start)"
    by simp
  with assms(1) show ?thesis
    by (auto simp: rewrite_lines_def keys_written_def Let_def concat_replicate_pred [unfolded One_nat_def])
qed

section \<open>The last line of an answer\<close>

lemma trim_end_matches_other: "c \<noteq> x \<Longrightarrow> trim_end_matches x (s @ [c]) = s @ [c]"
  by (simp add: trim_end_matches_def)

lemma trim_end_matches_same: "trim_end_matches x (s @ [x]) = trim_end_matches x s"
  by (simp add: trim_end_matches_def)

lemma trim_line_end_snoc:
  "c \<noteq> LF \<Longrightarrow> c \<noteq> CR \<Longrightarrow> trim_line_end (s @ [c] @ CRLF) = s @ [c]"
  using trim_end_matches_same [of LF "s @ [c, CR]"] trim_end_matches_other [of CR LF "s @ [c]"]
    trim_end_matches_same [of CR "s @ [c]"] trim_end_matches_other [of c CR s]
  by (simp add: trim_line_end_def CRLF_def)

lemma split_on_at: "P x \<Longrightarrow> split_on P (s @ x # t) = split_on P s @ split_on P t"
  by (induction s) (auto split: list.splits)

lemma last_split_char: "LF \<notin> set t \<Longrightarrow> last (split_char LF (s @ LF # t)) = t"
proof -
  assume "LF \<notin> set t"
  then have "split_on (\<lambda>c. c = LF) t = [t]" by (intro split_on_none) auto
  then show ?thesis by (simp add: split_char_def split_on_at)
qed

section \<open>Filling in mappings\<close>

definition rtpmap_entry :: "nat \<Rightarrow> string" where
  "rtpmap_entry pt = ''a=rtpmap:'' @ show_nat pt @ '' unknown/8000''"

lemma trim_rtpmap_entry: "trim (rtpmap_entry pt) = rtpmap_entry pt"
proof (rule trim_id)
  have "rtpmap_entry pt = (''a=rtpmap:'' @ show_nat pt @ '' unknown/800'') @ ''0''"
    by (simp add: rtpmap_entry_def)
  then have "last (rtpmap_entry pt) = CHR ''0''" by (metis last_snoc)
  then show "\<not> is_ws (last (rtpmap_entry pt))" by (simp add: is_ws_def)
qed (simp_all add: rtpmap_entry_def is_ws_def)

lemma rtpmap_entry_line:
  assumes "scan_audio s" "pt < 2 ^ 16"
  shows "rtpmap_line (rtpmap_entry pt) s = s\<lparr>rtpmap_pts := insert pt (rtpmap_pts s)\<rparr>"
proof -
  have "\<forall>c \<in> set (show_nat pt). \<not> is_ws c" using show_nat_all_digits digit_not_ws by blast
  from split_on_append [of _ is_ws, OF this, of "CHR '' ''" "''unknown/8000''"]
  have "split_on is_ws (show_nat pt @ '' unknown/8000'') =
      show_nat pt # split_on is_ws ''unknown/8000''" by (simp add: is_ws_def)
  then have w: "split_whitespace (show_nat pt @ '' unknown/8000'') =
      show_nat pt # split_whitespace ''unknown/8000''"
    by (simp add: split_whitespace_def)
  have "strip_prefix (trim (rtpmap_entry pt)) ''a=rtpmap:'' = Some (show_nat pt @ '' unknown/8000'')"
    by (simp only: trim_rtpmap_entry) (simp add: rtpmap_entry_def strip_prefix_def)
  moreover have "\<not> starts_with (rtpmap_entry pt) ''m=''" "\<not> starts_with (rtpmap_entry pt) ''m=audio''"
    by (simp_all add: rtpmap_entry_def)
  ultimately show ?thesis using assms w by (simp add: rtpmap_line_def Let_def)
qed

lemma rtpmap_entries_fold:
  assumes "scan_audio s" "\<forall>pt \<in> set pts. pt < 2 ^ 16"
  shows "fold rtpmap_line (map rtpmap_entry pts) s = s\<lparr>rtpmap_pts := set pts \<union> rtpmap_pts s\<rparr>"
  using assms by (induction pts arbitrary: s) (simp_all add: rtpmap_entry_line)

lemma rtpmap_line_bound:
  "\<forall>pt \<in> set (audio_pts s). pt < 2 ^ 16 \<Longrightarrow> \<forall>pt \<in> set (audio_pts (rtpmap_line l s)). pt < 2 ^ 16"
  using parse_uint_bound [of 16]
  by (auto simp: rtpmap_line_def Let_def parsed_pts_def map_filter_def split: option.splits list.splits)

lemma scan_rtpmaps_bound: "\<forall>pt \<in> set (audio_pts (scan_rtpmaps sdp)). pt < 2 ^ 16"
proof -
  have "\<forall>pt \<in> set (audio_pts s). pt < 2 ^ 16 \<Longrightarrow>
      \<forall>pt \<in> set (audio_pts (fold rtpmap_line ls s)). pt < 2 ^ 16" for ls s
  proof (induction ls arbitrary: s)
    case (Cons l ls)
    from Cons.IH [OF rtpmap_line_bound [OF Cons.prems, of l]] show ?case by simp
  qed simp
  note this [of "\<lparr>scan_audio = False, audio_pts = [], rtpmap_pts = {}\<rparr>" "lines sdp"]
  then show ?thesis unfolding scan_rtpmaps_def by simp
qed

text \<open>An SDP text with regular line ends.\<close>

definition sdp_text :: "string list \<Rightarrow> bool" where
  "sdp_text ls \<longleftrightarrow> ls \<noteq> [] \<and> list_all (\<lambda>l. header_line l \<and> last l \<noteq> CR) ls"

lemma trim_line_end_unlines:
  assumes "sdp_text ls"
  shows "trim_line_end (unlines ls) @ CRLF = unlines ls"
proof -
  obtain xs l where ls: "ls = xs @ [l]" using assms by (cases ls rule: rev_cases) (auto simp: sdp_text_def)
  then have l: "l \<noteq> []" "LF \<notin> set l" "last l \<noteq> CR"
    using assms by (simp_all add: sdp_text_def header_line_def)
  then have "last l \<noteq> LF" using last_in_set by metis
  moreover obtain b c where "l = b @ [c]" using l(1) by (cases l rule: rev_cases) auto
  ultimately show ?thesis using l trim_line_end_snoc [of c "unlines xs @ b"] by (simp add: ls)
qed

lemma fill_unlines:
  assumes "sdp_text ls"
  shows "fill_missing_rtpmap (unlines ls) =
     unlines (ls @ map rtpmap_entry (missing_rtpmaps (unlines ls)))"
proof -
  have c: "t @ concat (map (\<lambda>pt. CRLF @ ''a=rtpmap:'' @ show_nat pt @ '' unknown/8000'') ps) @ CRLF
      = (t @ CRLF) @ unlines (map rtpmap_entry ps)" for t ps
    by (induction ps arbitrary: t) (simp_all add: rtpmap_entry_def)
  show ?thesis
    using c [of "trim_line_end (unlines ls)" "missing_rtpmaps (unlines ls)"]
      trim_line_end_unlines [OF assms]
    by (simp add: fill_missing_rtpmap_def)
qed

lemma rtpmap_entry_no_LF: "LF \<notin> set (rtpmap_entry pt)"
proof -
  have "LF \<notin> set ''a=rtpmap:''" "LF \<notin> set '' unknown/8000''" by (simp_all add: LF_def)
  then show ?thesis by (simp only: rtpmap_entry_def set_append Un_iff show_nat_no_LF) simp
qed

section \<open>Properties\<close>

definition ex_offer :: string where
  "ex_offer = unlines
     [''v=0'', ''c=IN IP4 10.0.0.7'', ''a=fingerprint:sha-256 AA'', ''m=audio 4000 RTP/SAVP 0 101'',
      ''a=crypto:7 AES_CM_128_HMAC_SHA1_80 inline:client'', ''a=ice-pwd:x'', ''a=sendrecv'']"

definition ex_keys :: "sdp_crypto list" where
  "ex_keys = [\<lparr>crypto_tag = 1, crypto_suite = ''AES_CM_128_HMAC_SHA1_80'', crypto_key = ''srv''\<rparr>]"



text \<open>The server's keys are announced exactly once, in order, for each audio section of the
  offer, wherever the offer had its own \<open>a=crypto\<close> lines, if it had any.\<close>

theorem rewrite_keys_once_per_audio:
  assumes "cryptos \<noteq> []" "one_line_params relay_addr cryptos" "audio_fields (lines sdp)"
  shows "filter crypto_line (lines (rewrite_sdp_with_cryptos sdp relay_addr relay_port cryptos)) =
     concat (replicate (audio_sections (lines sdp)) (map crypto_to_line cryptos))"
proof -
  let ?r = "result (rewrite_lines relay_addr relay_port cryptos (lines sdp))"
  have k: "filter crypto_line ?r =
      concat (replicate (audio_sections (lines sdp)) (map crypto_to_line cryptos))"
    by (rule rewrite_lines_keys [OF assms(1,3)])
  have "\<not> crypto_line []" by (simp add: crypto_line_def)
  then show ?thesis using k by (auto simp: lines_rewrite [OF assms(2)] Let_def)
qed

theorem rewrite_keys_once_per_audio_witness:
  "filter crypto_line (lines (rewrite_sdp_with_cryptos ex_offer ''9.9.9.9'' 20000 ex_keys)) =
     map crypto_to_line ex_keys"
proof -
  have "ex_keys \<noteq> []" "one_line_params ''9.9.9.9'' ex_keys" "audio_fields (lines ex_offer)"
    by code_simp+
  from rewrite_keys_once_per_audio [OF this, of 20000] have
    "filter crypto_line (lines (rewrite_sdp_with_cryptos ex_offer ''9.9.9.9'' 20000 ex_keys)) =
     concat (replicate (audio_sections (lines ex_offer)) (map crypto_to_line ex_keys))" .
  moreover have "audio_sections (lines ex_offer) = 1" by code_simp
  ultimately show ?thesis by simp
qed

text \<open>After \<open>ensure_answer_crypto_not_last_line\<close> the last line of an answer is never a
  crypto line, whatever the line endings were.\<close>

theorem answer_does_not_end_in_crypto:
  "\<not> crypto_last (ensure_answer_crypto_not_last_line sdp)"
proof (cases "crypto_last sdp")
  case True
  let ?t = "trim_line_end sdp"
  have "ensure_answer_crypto_not_last_line sdp = (?t @ CRLF @ ''a=ptime:2'') @ [CHR ''0''] @ CRLF"
    using True by (simp add: ensure_answer_crypto_not_last_line_def)
  then have "trim_line_end (ensure_answer_crypto_not_last_line sdp) =
      (?t @ CRLF @ ''a=ptime:2'') @ [CHR ''0'']"
    using trim_line_end_snoc [of "CHR ''0''" "?t @ CRLF @ ''a=ptime:2''"] by (simp add: LF_def CR_def)
  also have "\<dots> = (?t @ [CR]) @ LF # ''a=ptime:20''" by (simp add: CRLF_def)
  finally have "last (split_char LF (trim_line_end (ensure_answer_crypto_not_last_line sdp))) = ''a=ptime:20''"
    using last_split_char [of "''a=ptime:20''" "?t @ [CR]"] by (simp add: LF_def)
  then show ?thesis unfolding crypto_last_def by simp code_simp
qed (simp add: ensure_answer_crypto_not_last_line_def)

text \<open>When the audio section is the last one, \<open>fill_missing_rtpmap\<close> leaves no dynamic payload
  type without a mapping.\<close>

theorem fill_completes_mappings:
  assumes "sdp_text ls" "scan_audio (scan_rtpmaps (unlines ls))"
  shows "missing_rtpmaps (fill_missing_rtpmap (unlines ls)) = []"
proof -
  let ?m = "missing_rtpmaps (unlines ls)" and ?s = "scan_rtpmaps (unlines ls)"
  have "\<forall>l \<in> set ls. LF \<notin> set l" using assms(1) by (simp add: sdp_text_def list_all_iff header_line_def)
  then have "lines (unlines (ls @ map rtpmap_entry ?m) @ []) = (ls @ map rtpmap_entry ?m) @ lines []"
    "lines (unlines ls @ []) = ls @ lines []"
    using rtpmap_entry_no_LF by (intro lines_unlines; auto)+
  then have "scan_rtpmaps (fill_missing_rtpmap (unlines ls)) = fold rtpmap_line (map rtpmap_entry ?m) ?s"
    using fill_unlines [OF assms(1)] by (simp add: scan_rtpmaps_def)
  also have "\<dots> = ?s\<lparr>rtpmap_pts := set ?m \<union> rtpmap_pts ?s\<rparr>"
    using scan_rtpmaps_bound [of "unlines ls"]
    by (intro rtpmap_entries_fold assms) (auto simp: missing_rtpmaps_def Let_def)
  finally show ?thesis by (auto simp: missing_rtpmaps_def Let_def filter_empty_conv)
qed

theorem fill_completes_mappings_witness:
  "missing_rtpmaps (fill_missing_rtpmap
     (unlines [''m=audio 4000 RTP/AVP 0 101 102'', ''a=rtpmap:101 telephone-event/8000''])) = []"
  by (rule fill_completes_mappings) code_simp+

text \<open>With a section after the audio one the mappings land in that section and none is added
  where it is missing.\<close>

lemma fill_misses_audio:
  "let sdp = unlines [''m=audio 4000 RTP/AVP 102'', ''m=video 0 RTP/AVP 99'']
   in missing_rtpmaps (fill_missing_rtpmap sdp) = [102]"
  by code_simp

end
