(* ===== verification/Transport.thy ===== *)
theory Transport
  imports Rust_Map Rust_Str
begin

text \<open>
  \<open>src/sip/transport.rs\<close> and \<open>src/sip/transaction.rs\<close>: the transport of a signalling
  connection, the outlet through which the server sends to a peer, and the transaction table.
  Whether a channel is open and what a datagram send returns come from outside and are
  arguments of \<open>sink_send\<close>. An \<open>Instant\<close> is a number of nanoseconds.
\<close>

section \<open>Transports\<close>

text \<open>A \<open>SocketAddr\<close>: the canonical text of its IP address, its family and its port.\<close>

record socket_addr =
  ip_text :: string
  is_v6 :: bool
  port :: nat

text \<open>The \<open>Display\<close> of a \<open>SocketAddr\<close>.\<close>

definition show_addr :: "socket_addr \<Rightarrow> string" where
  "show_addr a =
     (if is_v6 a then ''['' @ ip_text a @ '']:'' @ show_nat (port a)
      else ip_text a @ '':'' @ show_nat (port a))"

datatype transport = Tls | Udp

fun via_token :: "transport \<Rightarrow> string" where
  "via_token Tls = ''TLS''"
| "via_token Udp = ''UDP''"

fun uri_param :: "transport \<Rightarrow> string" where
  "uri_param Tls = ''tls''"
| "uri_param Udp = ''udp''"

text \<open>\<open>ConnectionSink\<close>: a stream is identified by its channel, a datagram outlet by its peer.\<close>

datatype connection_sink = Stream nat | Udp_Sink socket_addr

datatype sink_send_error = ChannelClosed | Io string

fun sink_transport :: "connection_sink \<Rightarrow> transport" where
  "sink_transport (Stream ch) = Tls"
| "sink_transport (Udp_Sink peer) = Udp"

fun sink_send ::
  "(nat \<Rightarrow> bool) \<Rightarrow> (string \<Rightarrow> socket_addr \<Rightarrow> string + nat) \<Rightarrow> string \<Rightarrow> connection_sink
     \<Rightarrow> sink_send_error + unit" where
  "sink_send channel_open send_to data (Stream ch) =
     (if channel_open ch then Inr () else Inl ChannelClosed)"
| "sink_send channel_open send_to data (Udp_Sink peer) =
     (case send_to data peer of Inl e \<Rightarrow> Inl (Io e) | Inr n \<Rightarrow> Inr ())"

section \<open>Transactions\<close>

datatype transaction_state = Proceeding | Completed | Terminated

record transaction =
  tx_branch :: string
  tx_method :: string
  tx_call_id :: string
  created_at :: nat
  tx_state :: transaction_state

type_synonym transaction_table = "(string, transaction) hashmap"

definition tx_new :: transaction_table where
  "tx_new = hm_empty"

definition create_transaction ::
  "nat \<Rightarrow> string \<Rightarrow> string \<Rightarrow> string \<Rightarrow> transaction_table \<Rightarrow> string \<times> transaction_table" where
  "create_transaction now branch method call_id m =
     (branch,
      hm_insert branch \<lparr>tx_branch = branch, tx_method = method, tx_call_id = call_id,
        created_at = now, tx_state = Proceeding\<rparr> m)"

definition find_transaction :: "string \<Rightarrow> transaction_table \<Rightarrow> transaction option" where
  "find_transaction branch m = hm_get m branch"

definition update_state ::
  "string \<Rightarrow> transaction_state \<Rightarrow> transaction_table \<Rightarrow> transaction_table" where
  "update_state branch new_state m =
     (case hm_get m branch of
        Some tx \<Rightarrow> hm_insert branch (tx\<lparr>tx_state := new_state\<rparr>) m
      | None \<Rightarrow> m)"

definition remove_transaction :: "string \<Rightarrow> transaction_table \<Rightarrow> transaction_table" where
  "remove_transaction branch m = hm_remove branch m"

definition elapsed_secs :: "nat \<Rightarrow> nat \<Rightarrow> nat" where
  "elapsed_secs now t = (now - t) div 1000000000"

definition cleanup_transactions :: "nat \<Rightarrow> transaction_table \<Rightarrow> transaction_table" where
  "cleanup_transactions now m =
     hm_retain (\<lambda>branch tx. \<not> 32 < elapsed_secs now (created_at tx)) m"

section \<open>Transaction histories\<close>

text \<open>The table as its users see it: which operation can be the next one.\<close>

datatype tx_op = Create string string string | Update string transaction_state
  | Remove string | Cleanup

fun tx_step :: "nat \<Rightarrow> tx_op \<Rightarrow> transaction_table \<Rightarrow> transaction_table" where
  "tx_step now (Create b m c) t = snd (create_transaction now b m c t)"
| "tx_step now (Update b s) t = update_state b s t"
| "tx_step now (Remove b) t = remove_transaction b t"
| "tx_step now Cleanup t = cleanup_transactions now t"

definition tx_keyed :: "transaction_table \<Rightarrow> bool" where
  "tx_keyed m \<longleftrightarrow> (\<forall>b tx. hm_get m b = Some tx \<longrightarrow> tx_branch tx = b)"

lemma tx_step_keyed: "tx_keyed m \<Longrightarrow> tx_keyed (tx_step now op m)"
  by (cases op)
    (auto simp: tx_keyed_def create_transaction_def update_state_def remove_transaction_def
      cleanup_transactions_def hm.get_retain_Some split: option.splits if_splits)

lemma elapsed_over_32: "32 < elapsed_secs now t \<longleftrightarrow> t + 33000000000 \<le> now"
proof -
  have "33 \<le> elapsed_secs now t \<longleftrightarrow> 33 * 1000000000 \<le> now - t"
    unfolding elapsed_secs_def by (rule less_eq_div_iff_mult_less_eq) simp
  moreover have "32 < q \<longleftrightarrow> 33 \<le> q" for q :: nat by auto
  moreover have "33 * 1000000000 \<le> now - t \<longleftrightarrow> t + 33000000000 \<le> now" by auto
  ultimately show ?thesis by (simp only:)
qed

text \<open>Cleanup removes exactly the transactions older than 32 seconds, and changes nothing
  else; a transaction found after it is one that was found before.\<close>

theorem cleanup_transactions_exact:
  "find_transaction b (cleanup_transactions now m) =
     (case find_transaction b m of
        Some tx \<Rightarrow> if created_at tx + 33000000000 \<le> now then None else Some tx
      | None \<Rightarrow> None)"
proof -
  have "32 < elapsed_secs now t \<longleftrightarrow> t + 33000000000 \<le> now" for t
    by (rule elapsed_over_32)
  then show ?thesis
    by (simp add: find_transaction_def cleanup_transactions_def hm.get_retain split: option.splits)
qed

text \<open>After any sequence of operations a branch leads to the transaction created under it,
  so a lookup by branch never returns another transaction.\<close>

theorem transactions_keyed_by_branch:
  "find_transaction b (fold (\<lambda>(now, op). tx_step now op) history tx_new) = Some tx \<longrightarrow> tx_branch tx = b"
proof -
  have "tx_keyed m \<Longrightarrow> tx_keyed (fold (\<lambda>(now, op). tx_step now op) history m)" for m
  proof (induction history arbitrary: m)
    case (Cons x xs)
    obtain now op where x: "x = (now, op)" by (cases x)
    from Cons.IH [OF tx_step_keyed [OF Cons.prems, of now op]] show ?case by (simp add: x)
  qed simp
  from this [of tx_new] have "tx_keyed (fold (\<lambda>(now, op). tx_step now op) history tx_new)"
    by (simp add: tx_keyed_def tx_new_def)
  then show ?thesis unfolding tx_keyed_def find_transaction_def by blast
qed

theorem transactions_keyed_by_branch_witness:
  "let t = fold (\<lambda>(now, op). tx_step now op)
       [(5, Create ''b1'' ''INVITE'' ''c''), (7, Update ''b1'' Completed)] tx_new
   in map_option tx_branch (find_transaction ''b1'' t) = Some ''b1''"
proof -
  let ?h = "[(5, Create ''b1'' ''INVITE'' ''c''), (7, Update ''b1'' Completed)]"
  have "find_transaction ''b1'' (fold (\<lambda>(now, op). tx_step now op) ?h tx_new) \<noteq> None"
    by (simp add: find_transaction_def create_transaction_def update_state_def tx_new_def)
  then show ?thesis using transactions_keyed_by_branch [of "''b1''" ?h] by auto
qed

end
