(* ===== verification/Config.thy ===== *)
theory Config
  imports Rust_Map Rust_Str
begin

text \<open>
  \<open>src/config.rs\<close>: the configuration, the checks \<open>load\<close> makes and the accessors. Reading
  the file and parsing TOML are the result argument of \<open>load\<close>; the local address the
  operating system reports is an argument of \<open>get_media_addr\<close>. The error texts are
  constructors of \<open>config_error\<close>, one for each \<open>Err\<close> of the code.
\<close>

section \<open>The parsers of \<open>std::net\<close>\<close>

definition ipv4_octet :: "string \<Rightarrow> bool" where
  "ipv4_octet w \<longleftrightarrow> w \<noteq> [] \<and> length w \<le> 3 \<and> list_all is_digit w \<and>
     (length w = 1 \<or> hd w \<noteq> CHR ''0'') \<and> (case digits_val 0 w of Some n \<Rightarrow> n \<le> 255 | None \<Rightarrow> False)"

definition is_ipv4 :: "string \<Rightarrow> bool" where
  "is_ipv4 s \<longleftrightarrow> (let ws = split_char (CHR ''.'') s in length ws = 4 \<and> list_all ipv4_octet ws)"

definition ipv6_group :: "string \<Rightarrow> bool" where
  "ipv6_group w \<longleftrightarrow> w \<noteq> [] \<and> length w \<le> 4 \<and> list_all (\<lambda>c. hex_val c \<noteq> None) w"

text \<open>How many 16-bit groups a list of pieces holds; an IPv4 address may stand for the last two.\<close>

fun ipv6_groups :: "bool \<Rightarrow> string list \<Rightarrow> nat option" where
  "ipv6_groups v4 [] = Some 0"
| "ipv6_groups v4 [w] =
     (if ipv6_group w then Some 1 else if v4 \<and> is_ipv4 w then Some 2 else None)"
| "ipv6_groups v4 (w # ws) = (if ipv6_group w then map_option Suc (ipv6_groups v4 ws) else None)"

definition ipv6_part :: "bool \<Rightarrow> string \<Rightarrow> nat option" where
  "ipv6_part v4 s = (if s = [] then Some 0 else ipv6_groups v4 (split_char (CHR '':'') s))"

definition is_ipv6 :: "string \<Rightarrow> bool" where
  "is_ipv6 s \<longleftrightarrow>
     (case find_str ''::'' s of
        None \<Rightarrow> ipv6_part True s = Some 8
      | Some i \<Rightarrow>
          (case (ipv6_part False (take i s), ipv6_part True (drop (i + 2) s)) of
             (Some a, Some b) \<Rightarrow> a + b \<le> 7
           | _ \<Rightarrow> False))"

definition is_ip_addr :: "string \<Rightarrow> bool" where
  "is_ip_addr s \<longleftrightarrow> is_ipv4 s \<or> is_ipv6 s"

section \<open>The configuration\<close>

record server_config =
  listen_addr :: string
  sip_port :: nat
  server_host :: string
  insecure_enabled :: bool
  insecure_port :: nat
  insecure_extensions :: "string list"

record extension_config =
  range_start :: nat
  range_end :: nat
  default_password :: string

record tls_config =
  cert_path :: string
  key_path :: string
  tls_min_version :: string

record media_config =
  rtp_port_start :: nat
  rtp_port_end :: nat
  media_addr :: string

record ip_block_config =
  block_enabled :: bool
  max_failures :: nat
  window_secs :: u64
  max_failed_ips :: nat
  max_blocked_ips :: nat

record app_config =
  server :: server_config
  extensions :: extension_config
  tls :: tls_config
  media :: media_config
  ip_block :: ip_block_config
  passwords :: "(string, string) hashmap"

definition default_insecure_port :: nat where "default_insecure_port = 5060"

definition default_tls_min_version :: string where "default_tls_min_version = ''1.2''"

definition default_ip_block :: ip_block_config where
  "default_ip_block = \<lparr>block_enabled = True, max_failures = 3, window_secs = 600,
     max_failed_ips = 100000, max_blocked_ips = 50000\<rparr>"

definition is_ip_host :: "server_config \<Rightarrow> bool" where
  "is_ip_host s = is_ip_addr (server_host s)"

section \<open>Loading\<close>

definition supported_tls :: "string \<Rightarrow> bool" where
  "supported_tls v \<longleftrightarrow> v \<in> {''1.0'', ''1.1'', ''1.2'', ''1.3''}"

datatype config_error =
    ReadError string
  | ParseError string
  | BadExtensionRange nat nat
  | PortConflict nat nat
  | BadRtpRange nat nat
  | OddRtpStart
  | EmptyMediaAddr
  | BadMediaAddr string
  | BadTlsVersion string
  | ZeroMaxFailures
  | ZeroWindow
  | ZeroMaxFailedIps
  | ZeroMaxBlockedIps
  | BadPasswordExtension string
  | BadInsecureExtension string

text \<open>The first element that is not a 32-bit number, where the two loops of \<open>load\<close> return.\<close>

fun first_non_number :: "string list \<Rightarrow> string option" where
  "first_non_number [] = None"
| "first_non_number (e # es) =
     (case parse_uint 32 e of Some n \<Rightarrow> first_non_number es | None \<Rightarrow> Some e)"

definition check_ip_block :: "ip_block_config \<Rightarrow> config_error option" where
  "check_ip_block b =
     (if block_enabled b then
        (if max_failures b = 0 then Some ZeroMaxFailures
         else if window_secs b = 0 then Some ZeroWindow
         else if max_failed_ips b = 0 then Some ZeroMaxFailedIps
         else if max_blocked_ips b = 0 then Some ZeroMaxBlockedIps
         else None)
      else None)"

definition check_lists :: "app_config \<Rightarrow> config_error + app_config" where
  "check_lists c =
     (case first_non_number (map fst (hm_entries (passwords c))) of
        Some e \<Rightarrow> Inl (BadPasswordExtension e)
      | None \<Rightarrow>
          (case (if insecure_enabled (server c) then first_non_number (insecure_extensions (server c))
                 else None) of
             Some e \<Rightarrow> Inl (BadInsecureExtension e)
           | None \<Rightarrow> Inr c))"

definition validate :: "app_config \<Rightarrow> config_error + app_config" where
  "validate c =
     (if range_end (extensions c) < range_start (extensions c)
        then Inl (BadExtensionRange (range_start (extensions c)) (range_end (extensions c)))
      else if insecure_enabled (server c) \<and> insecure_port (server c) = sip_port (server c)
        then Inl (PortConflict (insecure_port (server c)) (sip_port (server c)))
      else if rtp_port_end (media c) < rtp_port_start (media c)
        then Inl (BadRtpRange (rtp_port_start (media c)) (rtp_port_end (media c)))
      else if rtp_port_start (media c) mod 2 \<noteq> 0 then Inl OddRtpStart
      else if trim (media_addr (media c)) = [] then Inl EmptyMediaAddr
      else if \<not> is_ip_addr (media_addr (media c)) then Inl (BadMediaAddr (media_addr (media c)))
      else if \<not> supported_tls (trim (tls_min_version (tls c)))
        then Inl (BadTlsVersion (trim (tls_min_version (tls c))))
      else (case check_ip_block (ip_block c) of
              Some e \<Rightarrow> Inl e
            | None \<Rightarrow> check_lists c))"

text \<open>\<open>read\<close> is the result of reading the file, \<open>from_toml\<close> the TOML parser.\<close>

definition load ::
  "(string \<Rightarrow> string + string) \<Rightarrow> (string \<Rightarrow> string + app_config) \<Rightarrow> string
     \<Rightarrow> config_error + app_config" where
  "load read from_toml path =
     (case read path of
        Inl e \<Rightarrow> Inl (ReadError e)
      | Inr content \<Rightarrow>
          (case from_toml content of
             Inl e \<Rightarrow> Inl (ParseError e)
           | Inr config \<Rightarrow> validate config))"

section \<open>Accessors\<close>

definition is_valid_extension :: "app_config \<Rightarrow> nat \<Rightarrow> bool" where
  "is_valid_extension c ext \<longleftrightarrow> range_start (extensions c) \<le> ext \<and> ext \<le> range_end (extensions c)"

definition get_password :: "app_config \<Rightarrow> string \<Rightarrow> string" where
  "get_password c extension =
     (case hm_get (passwords c) extension of
        Some pwd \<Rightarrow> pwd
      | None \<Rightarrow> default_password (extensions c))"

definition get_media_addr :: "string option \<Rightarrow> app_config \<Rightarrow> string" where
  "get_media_addr local_ip c =
     (if media_addr (media c) \<noteq> [] then media_addr (media c)
      else (case local_ip of Some ip \<Rightarrow> ip | None \<Rightarrow> ''127.0.0.1''))"

section \<open>What an accepted configuration guarantees\<close>

definition config_ok :: "app_config \<Rightarrow> bool" where
  "config_ok c \<longleftrightarrow>
     range_start (extensions c) \<le> range_end (extensions c) \<and>
     (insecure_enabled (server c) \<longrightarrow> insecure_port (server c) \<noteq> sip_port (server c)) \<and>
     rtp_port_start (media c) \<le> rtp_port_end (media c) \<and> even (rtp_port_start (media c)) \<and>
     is_ip_addr (media_addr (media c)) \<and>
     supported_tls (trim (tls_min_version (tls c))) \<and>
     (block_enabled (ip_block c) \<longrightarrow>
        0 < max_failures (ip_block c) \<and> window_secs (ip_block c) \<noteq> 0 \<and>
        0 < max_failed_ips (ip_block c) \<and> 0 < max_blocked_ips (ip_block c)) \<and>
     (\<forall>e p. hm_get (passwords c) e = Some p \<longrightarrow> parse_uint 32 e \<noteq> None) \<and>
     (insecure_enabled (server c) \<longrightarrow>
        list_all (\<lambda>e. parse_uint 32 e \<noteq> None) (insecure_extensions (server c)))"

lemma first_non_number_None: "first_non_number es = None \<longleftrightarrow> list_all (\<lambda>e. parse_uint 32 e \<noteq> None) es"
  by (induction es) (auto split: option.splits)

lemma password_keys:
  "list_all Q (map fst (hm_entries m)) \<longleftrightarrow> (\<forall>e p. hm_get m e = Some p \<longrightarrow> Q e)"
  by (force simp: list_all_iff hm_get_entries)

lemma trim_Nil_ws:
  assumes "trim s = []"
  shows "\<forall>c \<in> set s. is_ws c"
proof (rule ccontr)
  assume "\<not> (\<forall>c \<in> set s. is_ws c)"
  then have ne: "dropWhile is_ws s \<noteq> []" by auto
  from assms have "dropWhile is_ws (rev (dropWhile is_ws s)) = []"
    by (simp add: trim_def trim_end_def trim_start_def)
  then have "\<forall>c \<in> set (dropWhile is_ws s). is_ws c" by simp
  with ne show False using hd_dropWhile [of is_ws s] hd_in_set by blast
qed

lemma is_ip_addr_nonempty: "is_ip_addr s \<Longrightarrow> trim s \<noteq> []"
proof
  assume ip: "is_ip_addr s" and "trim s = []"
  then have ws: "\<forall>c \<in> set s. is_ws c" using trim_Nil_ws by blast
  moreover have "\<not> is_ws (CHR ''.'')" "\<not> is_ws (CHR '':'')" by (simp_all add: is_ws_def)
  ultimately have sep: "CHR ''.'' \<notin> set s" "CHR '':'' \<notin> set s" by blast+
  then have "split_char (CHR ''.'') s = [s]" "split_char (CHR '':'') s = [s]"
    unfolding split_char_def by (intro split_on_none; auto)+
  moreover have "find_str ''::'' s = None"
  proof -
    have "\<not> starts_with (drop i s) ''::''" for i
      using sep(2) in_set_dropD [of "CHR '':''" i s] by (cases "drop i s") auto
    then show ?thesis by (simp add: find_str_None)
  qed
  ultimately have "\<not> is_ipv4 s" "ipv6_part True s \<noteq> Some 8" "find_str ''::'' s = None"
    by (simp_all add: is_ipv4_def ipv6_part_def)
  then show False using ip by (simp add: is_ip_addr_def is_ipv6_def)
qed

lemma check_ip_block_None:
  "check_ip_block b = None \<longleftrightarrow>
     (block_enabled b \<longrightarrow> 0 < max_failures b \<and> window_secs b \<noteq> 0 \<and>
        0 < max_failed_ips b \<and> 0 < max_blocked_ips b)"
  by (auto simp: check_ip_block_def)

lemma check_lists_ok:
  "check_lists c = Inr c' \<longleftrightarrow> c' = c \<and>
     (\<forall>e p. hm_get (passwords c) e = Some p \<longrightarrow> parse_uint 32 e \<noteq> None) \<and>
     (insecure_enabled (server c) \<longrightarrow>
        list_all (\<lambda>e. parse_uint 32 e \<noteq> None) (insecure_extensions (server c)))"
  using first_non_number_None [of "map fst (hm_entries (passwords c))"]
    first_non_number_None [of "insecure_extensions (server c)"]
    password_keys [of "\<lambda>e. parse_uint 32 e \<noteq> None" "passwords c"]
  by (auto simp: check_lists_def split: option.splits if_splits)

section \<open>Properties\<close>

definition ex_config :: app_config where
  "ex_config =
     \<lparr>server = \<lparr>listen_addr = ''0.0.0.0'', sip_port = 5061, server_host = ''pbx.local'',
        insecure_enabled = True, insecure_port = 5060, insecure_extensions = [''1001'']\<rparr>,
      extensions = \<lparr>range_start = 1000, range_end = 2000, default_password = ''pw''\<rparr>,
      tls = \<lparr>cert_path = [], key_path = [], tls_min_version = ''1.2''\<rparr>,
      media = \<lparr>rtp_port_start = 20000, rtp_port_end = 20020, media_addr = ''192.168.1.100''\<rparr>,
      ip_block = default_ip_block,
      passwords = hm_insert ''1001'' ''secret'' hm_empty\<rparr>"

lemma guard_Inr: "(if b then Inl e else x) = Inr c \<longleftrightarrow> \<not> b \<and> x = Inr c"
  by simp

lemma guard_Some_Inr: "(case x of Some e \<Rightarrow> Inl e | None \<Rightarrow> y) = Inr c \<longleftrightarrow> x = None \<and> y = Inr c"
  by (simp split: option.split)

lemma validate_ok: "validate c' = Inr c \<longleftrightarrow> c' = c \<and> config_ok c"
proof -
  have "validate c' = Inr c \<longleftrightarrow> c' = c \<and> config_ok c'"
    unfolding validate_def guard_Inr guard_Some_Inr check_lists_ok check_ip_block_None config_ok_def
      not_less even_iff_mod_2_eq_zero
    using is_ip_addr_nonempty [of "media_addr (media c')"] by auto
  then show ?thesis by blast
qed

text \<open>\<open>load\<close> accepts exactly the configurations that satisfy \<open>config_ok\<close>, and returns
  them unchanged: every precondition the other components rely on is checked at start.\<close>

theorem load_accepts_iff:
  "load read from_toml path = Inr c \<longleftrightarrow>
     (\<exists>content. read path = Inr content \<and> from_toml content = Inr c \<and> config_ok c)"
  by (auto simp: load_def validate_ok split: sum.splits)

text \<open>The addresses \<open>load\<close> accepts for media are never replaced by the automatic
  detection, and are always addresses.\<close>

theorem loaded_media_addr:
  assumes "load read from_toml path = Inr c"
  shows "get_media_addr local_ip c = media_addr (media c) \<and> is_ip_addr (get_media_addr local_ip c)"
proof -
  from assms have "config_ok c" by (auto simp: load_def validate_ok split: sum.splits)
  then show ?thesis using is_ip_addr_nonempty [of "media_addr (media c)"]
    by (auto simp: get_media_addr_def config_ok_def)
qed

theorem loaded_media_addr_witness:
  "get_media_addr (Some ''10.0.0.1'') ex_config = ''192.168.1.100''"
proof -
  have ip: "is_ip_addr (media_addr (media ex_config))" "supported_tls (trim (tls_min_version (tls ex_config)))"
    "parse_uint 32 ''1001'' = Some 1001"
    by code_simp+
  have "config_ok ex_config"
    using ip by (simp add: config_ok_def ex_config_def default_ip_block_def)
  then have "load (\<lambda>p. Inr []) (\<lambda>t. Inr ex_config) ''c'' = Inr ex_config"
    by (simp add: load_def validate_ok)
  from loaded_media_addr [OF this, of "Some ''10.0.0.1''"] show ?thesis by (simp add: ex_config_def)
qed

end
