(* ===== verification/Registrar.thy ===== *)
theory Registrar
  imports Sip_Response Transport Config
begin

text \<open>
  \<open>src/sip/registrar.rs\<close>: the registration table, Digest authentication with replay
  protection, and the blocking of addresses after repeated failures.

  The clock, the random nonce bytes and the random To tag of a call are arguments; one call of
  a handler sees one reading of the clock. \<open>md5\<close> (a third-party crate) is an argument too:
  it maps the hashed text to the digest bytes. Seconds are \<open>u64\<close> words, so \<open>now + expires\<close>
  wraps as it does in a release build.
\<close>

section \<open>State\<close>

record registration =
  reg_extension :: string
  reg_contact :: string
  reg_expires_at :: u64
  reg_addr :: socket_addr
  reg_transport :: transport

record failed_ip_entry =
  fail_count :: nat
  window_start :: u64

record nonce_entry =
  issued_at :: u64
  nonce_ip :: string
  max_nc :: nat

record ip_block_policy =
  pol_enabled :: bool
  pol_max_failures :: nat
  pol_window_secs :: u64
  pol_max_failed_ips :: nat
  pol_max_blocked_ips :: nat

text \<open>The fields of \<open>RegistrarService\<close> that never change, and those behind a lock.\<close>

record reg_config =
  r_domain :: string
  r_default_password :: string
  r_passwords :: "(string, string) hashmap"
  r_range_start :: nat
  r_range_end :: nat
  r_ip_block :: ip_block_policy
  r_insecure_extensions :: "string list"

record registrar =
  registrations :: "(string, registration) hashmap"
  failed_ips :: "(string, failed_ip_entry) hashmap"
  blocked_ips :: "(string, unit) hashmap"
  issued_nonces :: "(string, nonce_entry) hashmap"

definition NONCE_TTL_SECS :: u64 where "NONCE_TTL_SECS = 300"
definition MAX_ISSUED_NONCES :: nat where "MAX_ISSUED_NONCES = 100000"
definition DEFAULT_MAX_FAILED_IPS :: nat where "DEFAULT_MAX_FAILED_IPS = 100000"
definition DEFAULT_MAX_BLOCKED_IPS :: nat where "DEFAULT_MAX_BLOCKED_IPS = 50000"

definition policy_default :: ip_block_policy where
  "policy_default = \<lparr>pol_enabled = True, pol_max_failures = 3, pol_window_secs = 600,
     pol_max_failed_ips = DEFAULT_MAX_FAILED_IPS, pol_max_blocked_ips = DEFAULT_MAX_BLOCKED_IPS\<rparr>"

definition policy_disabled :: ip_block_policy where
  "policy_disabled = \<lparr>pol_enabled = False, pol_max_failures = 2 ^ 32 - 1, pol_window_secs = 600,
     pol_max_failed_ips = DEFAULT_MAX_FAILED_IPS, pol_max_blocked_ips = DEFAULT_MAX_BLOCKED_IPS\<rparr>"

definition policy_of_config :: "ip_block_config \<Rightarrow> ip_block_policy" where
  "policy_of_config cfg = \<lparr>pol_enabled = block_enabled cfg, pol_max_failures = max_failures cfg,
     pol_window_secs = window_secs cfg, pol_max_failed_ips = max_failed_ips cfg,
     pol_max_blocked_ips = max_blocked_ips cfg\<rparr>"

definition registrar_new :: registrar where
  "registrar_new = \<lparr>registrations = hm_empty, failed_ips = hm_empty, blocked_ips = hm_empty,
     issued_nonces = hm_empty\<rparr>"

section \<open>Blocking of addresses\<close>

definition is_blocked :: "reg_config \<Rightarrow> string \<Rightarrow> registrar \<Rightarrow> bool" where
  "is_blocked cfg ip st \<longleftrightarrow>
     pol_enabled (r_ip_block cfg) \<and> hm_get (blocked_ips st) ip \<noteq> None"

text \<open>The capacity guard both bounded tables run before an insertion.\<close>

definition guard_table ::
  "nat \<Rightarrow> ('v \<Rightarrow> bool) \<Rightarrow> (string, 'v) hashmap \<Rightarrow> (string, 'v) hashmap" where
  "guard_table cap alive m =
     (if cap \<le> hm_len m then
        (let m1 = hm_retain (\<lambda>_ e. alive e) m in if cap \<le> hm_len m1 then hm_empty else m1)
      else m)"

text \<open>The entry the failure is counted in: a new one, or the old one, reset when its window is over.\<close>

definition count_failure :: "u64 \<Rightarrow> u64 \<Rightarrow> failed_ip_entry option \<Rightarrow> failed_ip_entry" where
  "count_failure now window found =
     (let entry = (case found of Some e \<Rightarrow> e | None \<Rightarrow> \<lparr>fail_count = 0, window_start = now\<rparr>);
          entry1 = (if window \<le> saturating_sub now (window_start entry)
                    then \<lparr>fail_count = 0, window_start = now\<rparr> else entry)
      in entry1\<lparr>fail_count := (fail_count entry1 + 1) mod 2 ^ 32\<rparr>)"

definition record_failure ::
  "reg_config \<Rightarrow> u64 \<Rightarrow> string \<Rightarrow> registrar \<Rightarrow> bool \<times> registrar" where
  "record_failure cfg now ip st =
     (let pol = r_ip_block cfg in
      if \<not> pol_enabled pol then (False, st)
      else
        (let failed = guard_table (pol_max_failed_ips pol)
               (\<lambda>e. saturating_sub now (window_start e) < pol_window_secs pol) (failed_ips st);
             entry = count_failure now (pol_window_secs pol) (hm_get failed ip)
         in if fail_count entry < pol_max_failures pol
            then (False, st\<lparr>failed_ips := hm_insert ip entry failed\<rparr>)
            else
              (let st1 = st\<lparr>failed_ips := hm_remove ip (hm_insert ip entry failed)\<rparr>
               in if pol_max_blocked_ips pol \<le> hm_len (blocked_ips st1) then (False, st1)
                  else (True, st1\<lparr>blocked_ips := hm_insert ip () (blocked_ips st1)\<rparr>))))"

definition clear_failures :: "string \<Rightarrow> registrar \<Rightarrow> registrar" where
  "clear_failures ip st = st\<lparr>failed_ips := hm_remove ip (failed_ips st)\<rparr>"

definition reg_password :: "reg_config \<Rightarrow> string \<Rightarrow> string" where
  "reg_password cfg extension =
     (case hm_get (r_passwords cfg) extension of Some pwd \<Rightarrow> pwd | None \<Rightarrow> r_default_password cfg)"

section \<open>The registration table\<close>

definition register :: "registration \<Rightarrow> registrar \<Rightarrow> registrar" where
  "register reg st = st\<lparr>registrations := hm_insert (reg_extension reg) reg (registrations st)\<rparr>"

definition unregister :: "string \<Rightarrow> registrar \<Rightarrow> registrar" where
  "unregister extension st = st\<lparr>registrations := hm_remove extension (registrations st)\<rparr>"

definition lookup :: "u64 \<Rightarrow> string \<Rightarrow> registrar \<Rightarrow> registration option" where
  "lookup now extension st =
     (case hm_get (registrations st) extension of
        None \<Rightarrow> None
      | Some reg \<Rightarrow> if now < reg_expires_at reg then Some reg else None)"

definition is_registered :: "u64 \<Rightarrow> string \<Rightarrow> registrar \<Rightarrow> bool" where
  "is_registered now extension st \<longleftrightarrow> lookup now extension st \<noteq> None"

definition online_count :: "registrar \<Rightarrow> nat" where
  "online_count st = hm_len (registrations st)"

definition cleanup_expired :: "u64 \<Rightarrow> registrar \<Rightarrow> registrar" where
  "cleanup_expired now st =
     st\<lparr>registrations := hm_retain (\<lambda>ext reg. \<not> reg_expires_at reg \<le> now) (registrations st),
        issued_nonces :=
          hm_retain (\<lambda>nonce entry. saturating_sub now (issued_at entry) < NONCE_TTL_SECS)
            (issued_nonces st)\<rparr>"

section \<open>Digest authentication\<close>

definition hex_digit :: "nat \<Rightarrow> char" where
  "hex_digit n = char_of (if n < 10 then 48 + n else 87 + n)"

definition hex_encode :: "string \<Rightarrow> string" where
  "hex_encode bytes =
     concat (map (\<lambda>b. let n = (of_char b :: nat) in [hex_digit (n div 16), hex_digit (n mod 16)]) bytes)"

definition generate_nonce :: "string \<Rightarrow> string" where
  "generate_nonce random_bytes = hex_encode random_bytes"

definition md5_hex :: "(string \<Rightarrow> string) \<Rightarrow> string \<Rightarrow> string" where
  "md5_hex md5 input = hex_encode (md5 input)"

record digest_params =
  d_username :: string
  d_realm :: string
  d_nonce :: string
  d_uri :: string
  d_response :: string
  d_qop :: "string option"
  d_nc :: "string option"
  d_cnonce :: "string option"

text \<open>The character loop of \<open>split_digest_params\<close>: \<open>current\<close> is the piece being read.\<close>

fun split_params_loop :: "string \<Rightarrow> bool \<Rightarrow> string \<Rightarrow> string list" where
  "split_params_loop current in_quotes [] = (if trim current \<noteq> [] then [current] else [])"
| "split_params_loop current in_quotes (ch # s) =
     (if ch = DQ then split_params_loop (current @ [ch]) (\<not> in_quotes) s
      else if ch = CHR '','' \<and> \<not> in_quotes then
        (if trim current \<noteq> [] then [current] else []) @ split_params_loop [] in_quotes s
      else split_params_loop (current @ [ch]) in_quotes s)"

definition split_digest_params :: "string \<Rightarrow> string list" where
  "split_digest_params input = split_params_loop [] False input"

definition set_param :: "string \<Rightarrow> digest_params \<Rightarrow> digest_params" where
  "set_param param p =
     (case split_once (CHR ''='') (trim param) of
        None \<Rightarrow> p
      | Some (k, v) \<Rightarrow>
          (let key = to_lower (trim k); val = trim_matches DQ (trim v) in
           if key = ''username'' then p\<lparr>d_username := val\<rparr>
           else if key = ''realm'' then p\<lparr>d_realm := val\<rparr>
           else if key = ''nonce'' then p\<lparr>d_nonce := val\<rparr>
           else if key = ''uri'' then p\<lparr>d_uri := val\<rparr>
           else if key = ''response'' then p\<lparr>d_response := val\<rparr>
           else if key = ''qop'' then p\<lparr>d_qop := Some val\<rparr>
           else if key = ''nc'' then p\<lparr>d_nc := Some val\<rparr>
           else if key = ''cnonce'' then p\<lparr>d_cnonce := Some val\<rparr>
           else p))"

definition no_params :: digest_params where
  "no_params = \<lparr>d_username = [], d_realm = [], d_nonce = [], d_uri = [], d_response = [],
     d_qop = None, d_nc = None, d_cnonce = None\<rparr>"

definition parse_authorization :: "string \<Rightarrow> digest_params option" where
  "parse_authorization header_value =
     (let v = trim header_value;
          value = (case strip_prefix v ''Digest'' of Some rest \<Rightarrow> trim rest | None \<Rightarrow> v);
          p = fold set_param (split_digest_params value) no_params
      in if d_username p = [] \<or> d_nonce p = [] \<or> d_response p = [] then None else Some p)"

definition expected_response ::
  "(string \<Rightarrow> string) \<Rightarrow> string \<Rightarrow> string \<Rightarrow> digest_params \<Rightarrow> string" where
  "expected_response md5 password meth p =
     (let ha1 = md5_hex md5 (d_username p @ '':'' @ d_realm p @ '':'' @ password);
          ha2 = md5_hex md5 (meth @ '':'' @ d_uri p)
      in if d_qop p = Some ''auth'' then
           (let nc = (case d_nc p of Some x \<Rightarrow> x | None \<Rightarrow> ''00000001'');
                cnonce = (case d_cnonce p of Some x \<Rightarrow> x | None \<Rightarrow> [])
            in md5_hex md5 (ha1 @ '':'' @ d_nonce p @ '':'' @ nc @ '':'' @ cnonce @ '':auth:'' @ ha2))
         else md5_hex md5 (ha1 @ '':'' @ d_nonce p @ '':'' @ ha2))"

definition validate_digest ::
  "(string \<Rightarrow> string) \<Rightarrow> string \<Rightarrow> string \<Rightarrow> digest_params \<Rightarrow> bool" where
  "validate_digest md5 password meth p \<longleftrightarrow>
     to_lower (expected_response md5 password meth p) = to_lower (d_response p)"

section \<open>Challenges and nonces\<close>

definition www_authenticate :: "reg_config \<Rightarrow> string \<Rightarrow> string" where
  "www_authenticate cfg nonce =
     ''Digest realm='' @ [DQ] @ r_domain cfg @ [DQ] @ '', nonce='' @ [DQ] @ nonce @ [DQ]
       @ '', algorithm=MD5, qop='' @ [DQ] @ ''auth'' @ [DQ]"

definition digest_challenge ::
  "reg_config \<Rightarrow> u64 \<Rightarrow> string \<Rightarrow> string \<Rightarrow> string \<Rightarrow> string \<Rightarrow> registrar \<Rightarrow> string \<times> registrar" where
  "digest_challenge cfg now random_bytes tag request_text ip st =
     (let nonce = generate_nonce random_bytes;
          nonces = guard_table MAX_ISSUED_NONCES
            (\<lambda>e. saturating_sub now (issued_at e) < NONCE_TTL_SECS) (issued_nonces st)
      in (build_response_with_headers request_text 401 ''Unauthorized''
            [(''WWW-Authenticate'', www_authenticate cfg nonce)] tag,
          st\<lparr>issued_nonces :=
               hm_insert nonce \<lparr>issued_at = now, nonce_ip = ip, max_nc = 0\<rparr> nonces\<rparr>))"

definition validate_nonce ::
  "u64 \<Rightarrow> string \<Rightarrow> string \<Rightarrow> nat option \<Rightarrow> string option \<Rightarrow> registrar \<Rightarrow> bool \<times> registrar" where
  "validate_nonce now nonce ip nc qop st =
     (case hm_get (issued_nonces st) nonce of
        None \<Rightarrow> (False, st)
      | Some entry \<Rightarrow>
          if nonce_ip entry \<noteq> ip then (False, st)
          else if NONCE_TTL_SECS \<le> saturating_sub now (issued_at entry)
            then (False, st\<lparr>issued_nonces := hm_remove nonce (issued_nonces st)\<rparr>)
          else if qop = Some ''auth'' then
            (let n = (case nc of Some x \<Rightarrow> x | None \<Rightarrow> 0) in
             if n \<le> max_nc entry then (False, st)
             else (True, st\<lparr>issued_nonces :=
                             hm_insert nonce (entry\<lparr>max_nc := n\<rparr>) (issued_nonces st)\<rparr>))
          else (True, st))"

section \<open>The REGISTER handler\<close>

text \<open>The extension of the To header, or of the From header when there is no To header.\<close>

definition register_extension :: "string \<Rightarrow> string option may_panic" where
  "register_extension request_text =
     (case extract_uri_from_header request_text ''To'' of
        None \<Rightarrow> None
      | Some (Some uri) \<Rightarrow> extract_extension uri
      | Some None \<Rightarrow>
          (case extract_uri_from_header request_text ''From'' of
             None \<Rightarrow> None
           | Some (Some uri) \<Rightarrow> extract_extension uri
           | Some None \<Rightarrow> Some None))"

text \<open>The inputs of one call: clock, random bytes, random tag, and the digest function.\<close>

record reg_env =
  env_now :: u64
  env_nonce_bytes :: string
  env_tag :: string
  env_md5 :: "string \<Rightarrow> string"

definition reject ::
  "reg_config \<Rightarrow> reg_env \<Rightarrow> string \<Rightarrow> string \<Rightarrow> nat \<Rightarrow> string \<Rightarrow> registrar
     \<Rightarrow> string may_panic \<times> registrar" where
  "reject cfg env request_text ip code reason st =
     (Some (build_response request_text code reason (env_tag env)),
      snd (record_failure cfg (env_now env) ip st))"

text \<open>From "authentication succeeded" to the end of the handler.\<close>

definition asked_expiry :: "string \<Rightarrow> nat may_panic" where
  "asked_expiry request_text =
     map_option (\<lambda>e. case e of Some n \<Rightarrow> n | None \<Rightarrow> 3600) (extract_expires request_text)"

definition finish_register ::
  "reg_env \<Rightarrow> string \<Rightarrow> string \<Rightarrow> string \<Rightarrow> socket_addr \<Rightarrow> transport \<Rightarrow> registrar
     \<Rightarrow> string may_panic \<times> registrar" where
  "finish_register env request_text extension ip from_addr tp st0 =
     (let st = clear_failures ip st0
      in case asked_expiry request_text of
           None \<Rightarrow> (None, st)
         | Some expires \<Rightarrow>
             if expires = 0 then
               (Some (build_response_with_headers request_text 200 ''OK'' [(''Expires'', ''0'')] (env_tag env)),
                unregister extension st)
             else
               (case extract_contact_uri request_text of
                  None \<Rightarrow> (None, st)
                | Some found \<Rightarrow>
                    (let contact = (case found of Some c \<Rightarrow> c
                           | None \<Rightarrow> ''sip:'' @ extension @ ''@'' @ show_addr from_addr);
                         reg = \<lparr>reg_extension = extension, reg_contact = contact,
                                reg_expires_at = env_now env + of_nat expires,
                                reg_addr = from_addr, reg_transport = tp\<rparr>;
                         contact_header = ''<'' @ contact @ ''>;expires='' @ show_nat expires
                     in (Some (build_response_with_headers request_text 200 ''OK''
                           [(''Contact'', contact_header), (''Expires'', show_nat expires)] (env_tag env)),
                         register reg st))))"

text \<open>The branch with an Authorization header.\<close>

definition register_with_auth ::
  "reg_config \<Rightarrow> reg_env \<Rightarrow> string \<Rightarrow> string \<Rightarrow> string \<Rightarrow> socket_addr \<Rightarrow> transport \<Rightarrow> string
     \<Rightarrow> registrar \<Rightarrow> string may_panic \<times> registrar" where
  "register_with_auth cfg env request_text extension ip from_addr tp auth_value st =
     (let challenge = (\<lambda>s. case digest_challenge cfg (env_now env) (env_nonce_bytes env) (env_tag env)
                              request_text ip s of (r, s') \<Rightarrow> (Some r, s'))
      in case parse_authorization auth_value of
           None \<Rightarrow> challenge st
         | Some params \<Rightarrow>
             if d_username params \<noteq> extension
               then reject cfg env request_text ip 403 ''Forbidden'' st
             else
               (case validate_nonce (env_now env) (d_nonce params) ip
                       (Option.bind (d_nc params) (parse_hex 64)) (d_qop params) st of
                  (False, st1) \<Rightarrow> challenge (snd (record_failure cfg (env_now env) ip st1))
                | (True, st1) \<Rightarrow>
                    if \<not> validate_digest (env_md5 env) (reg_password cfg extension) ''REGISTER'' params
                      then reject cfg env request_text ip 403 ''Forbidden'' st1
                    else finish_register env request_text extension ip from_addr tp st1))"

definition handle_register ::
  "reg_config \<Rightarrow> reg_env \<Rightarrow> string \<Rightarrow> socket_addr \<Rightarrow> transport \<Rightarrow> registrar
     \<Rightarrow> string may_panic \<times> registrar" where
  "handle_register cfg env request_text from_addr tp st =
     (let ip = ip_text from_addr in
      if is_blocked cfg ip st
        then (Some (build_response request_text 403 ''Forbidden'' (env_tag env)), st)
      else
        (case register_extension request_text of
           None \<Rightarrow> (None, st)
         | Some None \<Rightarrow> reject cfg env request_text ip 400 ''Bad Request'' st
         | Some (Some extension) \<Rightarrow>
             (case parse_uint 32 extension of
                None \<Rightarrow> reject cfg env request_text ip 403 ''Forbidden'' st
              | Some ext_num \<Rightarrow>
                  if ext_num < r_range_start cfg \<or> r_range_end cfg < ext_num
                    then reject cfg env request_text ip 403 ''Forbidden'' st
                  else if tp = Udp \<and> extension \<notin> set (r_insecure_extensions cfg)
                    then reject cfg env request_text ip 403 ''Forbidden'' st
                  else
                    (case extract_header_value request_text ''Authorization'' of
                       None \<Rightarrow>
                         (case digest_challenge cfg (env_now env) (env_nonce_bytes env)
                                 (env_tag env) request_text ip st of (r, s') \<Rightarrow> (Some r, s'))
                     | Some auth_value \<Rightarrow>
                         register_with_auth cfg env request_text extension ip from_addr tp
                           auth_value st))))"

section \<open>Histories\<close>

text \<open>
  Everything that changes the state: the handler, the cleanup task, and the failures that the
  router records for other methods.
\<close>

inductive reg_step :: "reg_config \<Rightarrow> registrar \<Rightarrow> registrar \<Rightarrow> bool" for cfg where
  handle: "reg_step cfg st (snd (handle_register cfg env request_text from_addr tp st))"
| cleanup: "reg_step cfg st (cleanup_expired now st)"
| failure: "reg_step cfg st (snd (record_failure cfg now ip st))"
| clear: "reg_step cfg st (clear_failures ip st)"
| sign_off: "reg_step cfg st (unregister extension st)"

inductive reg_reach :: "reg_config \<Rightarrow> registrar \<Rightarrow> bool" for cfg where
  start: "reg_reach cfg registrar_new"
| step: "reg_reach cfg st \<Longrightarrow> reg_step cfg st st' \<Longrightarrow> reg_reach cfg st'"

inductive_cases reg_stepE: "reg_step cfg st st'"

section \<open>What each operation leaves alone\<close>

lemma record_failure_frame [frame_simps]:
  "registrations (snd (record_failure cfg now ip st)) = registrations st"
  "issued_nonces (snd (record_failure cfg now ip st)) = issued_nonces st"
  by (simp_all add: record_failure_def Let_def)

lemma clear_failures_frame [frame_simps]:
  "registrations (clear_failures ip st) = registrations st"
  "issued_nonces (clear_failures ip st) = issued_nonces st"
  "blocked_ips (clear_failures ip st) = blocked_ips st"
  by (simp_all add: clear_failures_def)

lemma table_frame [frame_simps]:
  "failed_ips (register reg st) = failed_ips st" "blocked_ips (register reg st) = blocked_ips st"
  "issued_nonces (register reg st) = issued_nonces st"
  "failed_ips (unregister ext st) = failed_ips st" "blocked_ips (unregister ext st) = blocked_ips st"
  "issued_nonces (unregister ext st) = issued_nonces st"
  "failed_ips (cleanup_expired now st) = failed_ips st"
  "blocked_ips (cleanup_expired now st) = blocked_ips st"
  by (simp_all add: register_def unregister_def cleanup_expired_def)

lemma digest_challenge_frame [frame_simps]:
  "registrations (snd (digest_challenge cfg now rb tag req ip st)) = registrations st"
  "failed_ips (snd (digest_challenge cfg now rb tag req ip st)) = failed_ips st"
  "blocked_ips (snd (digest_challenge cfg now rb tag req ip st)) = blocked_ips st"
  by (simp_all add: digest_challenge_def Let_def)

lemma validate_nonce_frame [frame_simps]:
  "registrations (snd (validate_nonce now n ip nc qop st)) = registrations st"
  "failed_ips (snd (validate_nonce now n ip nc qop st)) = failed_ips st"
  "blocked_ips (snd (validate_nonce now n ip nc qop st)) = blocked_ips st"
  by (simp_all add: validate_nonce_def Let_def split: option.split)

lemma reject_frame [frame_simps]:
  "registrations (snd (reject cfg env req ip code reason st)) = registrations st"
  "issued_nonces (snd (reject cfg env req ip code reason st)) = issued_nonces st"
  by (simp_all add: reject_def frame_simps)

section \<open>Nonces\<close>

definition nonce_usable :: "u64 \<Rightarrow> string \<Rightarrow> string \<Rightarrow> nat option \<Rightarrow> string option \<Rightarrow> registrar \<Rightarrow> bool" where
  "nonce_usable now nonce ip nc qop st \<longleftrightarrow>
     (case hm_get (issued_nonces st) nonce of
        None \<Rightarrow> False
      | Some e \<Rightarrow> nonce_ip e = ip \<and> saturating_sub now (issued_at e) < NONCE_TTL_SECS \<and>
          (qop = Some ''auth'' \<longrightarrow> max_nc e < (case nc of Some x \<Rightarrow> x | None \<Rightarrow> 0)))"

lemma validate_nonce_iff: "fst (validate_nonce now nonce ip nc qop st) = nonce_usable now nonce ip nc qop st"
  by (auto simp: validate_nonce_def nonce_usable_def Let_def not_le split: option.split)

lemma validate_nonce_max:
  assumes "fst (validate_nonce now nonce ip nc (Some ''auth'') st)"
  shows "\<exists>e. hm_get (issued_nonces (snd (validate_nonce now nonce ip nc (Some ''auth'') st))) nonce = Some e
     \<and> max_nc e = (case nc of Some x \<Rightarrow> x | None \<Rightarrow> 0)"
  using assms by (auto simp: validate_nonce_def Let_def split: option.splits if_splits)

lemma validate_nonce_len:
  "hm_len (issued_nonces (snd (validate_nonce now nonce ip nc qop st))) \<le> hm_len (issued_nonces st)"
  by (auto simp: validate_nonce_def Let_def hm.len_insert hm.len_remove split: option.split)

section \<open>What a REGISTER must show\<close>

definition nc_value :: "digest_params \<Rightarrow> nat option" where
  "nc_value p = Option.bind (d_nc p) (parse_hex 64)"

definition credentials_ok ::
  "reg_config \<Rightarrow> reg_env \<Rightarrow> string \<Rightarrow> string \<Rightarrow> registrar \<Rightarrow> string \<Rightarrow> bool" where
  "credentials_ok cfg env request_text ip st extension \<longleftrightarrow>
     (case extract_header_value request_text ''Authorization'' of
        None \<Rightarrow> False
      | Some av \<Rightarrow>
          (case parse_authorization av of
             None \<Rightarrow> False
           | Some p \<Rightarrow> d_username p = extension \<and>
               nonce_usable (env_now env) (d_nonce p) ip (nc_value p) (d_qop p) st \<and>
               validate_digest (env_md5 env) (reg_password cfg extension) ''REGISTER'' p))"

definition extension_ok :: "reg_config \<Rightarrow> transport \<Rightarrow> string \<Rightarrow> bool" where
  "extension_ok cfg tp extension \<longleftrightarrow>
     (case parse_uint 32 extension of
        None \<Rightarrow> False
      | Some n \<Rightarrow> r_range_start cfg \<le> n \<and> n \<le> r_range_end cfg) \<and>
     (tp = Udp \<longrightarrow> extension \<in> set (r_insecure_extensions cfg))"

definition authorised ::
  "reg_config \<Rightarrow> reg_env \<Rightarrow> string \<Rightarrow> socket_addr \<Rightarrow> transport \<Rightarrow> registrar \<Rightarrow> string \<Rightarrow> bool" where
  "authorised cfg env request_text from_addr tp st extension \<longleftrightarrow>
     \<not> is_blocked cfg (ip_text from_addr) st \<and>
     register_extension request_text = Some (Some extension) \<and> extension_ok cfg tp extension \<and>
     credentials_ok cfg env request_text (ip_text from_addr) st extension"

lemma finish_register_frame [frame_simps]:
  "blocked_ips (snd (finish_register env req ext ip from tp st)) = blocked_ips st"
  "issued_nonces (snd (finish_register env req ext ip from tp st)) = issued_nonces st"
  "failed_ips (snd (finish_register env req ext ip from tp st)) = hm_remove ip (failed_ips st)"
  by (simp_all add: finish_register_def frame_simps Let_def clear_failures_def split: option.split)

lemma register_with_auth_cases:
  assumes "extract_header_value req ''Authorization'' = Some av"
  shows "(\<exists>nonce nc qop. credentials_ok cfg env req ip st ext \<and>
            register_with_auth cfg env req ext ip from tp av st =
              finish_register env req ext ip from tp
                (snd (validate_nonce (env_now env) nonce ip nc qop st))) \<or>
         \<not> credentials_ok cfg env req ip st ext \<and>
         registrations (snd (register_with_auth cfg env req ext ip from tp av st)) = registrations st"
proof (cases "parse_authorization av")
  case None
  then show ?thesis using assms
    by (simp add: register_with_auth_def credentials_ok_def case_prod_unfold frame_simps)
next
  case (Some p)
  show ?thesis
  proof (cases "d_username p = ext")
    case False
    then show ?thesis using assms Some
      by (simp add: register_with_auth_def credentials_ok_def frame_simps)
  next
    case True
    let ?v = "validate_nonce (env_now env) (d_nonce p) ip (nc_value p) (d_qop p) st"
    obtain ok st1 where v: "?v = (ok, st1)" by (cases ?v)
    have u: "ok = nonce_usable (env_now env) (d_nonce p) ip (nc_value p) (d_qop p) st"
      using validate_nonce_iff v by (metis fst_conv)
    have st1: "st1 = snd ?v" "registrations st1 = registrations st"
      using v validate_nonce_frame(1) by (metis snd_conv)+
    show ?thesis
    proof (cases "ok \<and> validate_digest (env_md5 env) (reg_password cfg ext) ''REGISTER'' p")
      case ok: True
      then have "register_with_auth cfg env req ext ip from tp av st =
          finish_register env req ext ip from tp (snd ?v)"
        using Some True v by (simp add: register_with_auth_def nc_value_def)
      moreover have "credentials_ok cfg env req ip st ext"
        using assms Some True ok u by (simp add: credentials_ok_def)
      ultimately show ?thesis by blast
    next
      case bad: False
      then have "\<not> credentials_ok cfg env req ip st ext"
        using assms Some True u by (auto simp: credentials_ok_def)
      moreover have "registrations (snd (register_with_auth cfg env req ext ip from tp av st)) = registrations st"
        using bad Some True v st1(2)
        by (cases ok) (simp_all add: register_with_auth_def nc_value_def case_prod_unfold frame_simps)
      ultimately show ?thesis by blast
    qed
  qed
qed

text \<open>The whole handler: an authorised request is finished, any other leaves the table alone.\<close>

lemma handle_register_cases:
  obtains (accepted) ext nonce nc qop where "authorised cfg env req from tp st ext"
      "handle_register cfg env req from tp st =
         finish_register env req ext (ip_text from) from tp
           (snd (validate_nonce (env_now env) nonce (ip_text from) nc qop st))"
    | (refused) "\<forall>ext. \<not> authorised cfg env req from tp st ext"
      "registrations (snd (handle_register cfg env req from tp st)) = registrations st"
proof (cases "is_blocked cfg (ip_text from) st")
  case True
  then show thesis by (intro refused) (auto simp: authorised_def handle_register_def Let_def)
next
  case nb: False
  show thesis
  proof (cases "\<exists>ext. register_extension req = Some (Some ext) \<and> extension_ok cfg tp ext")
    case False
    then show thesis using nb
      by (intro refused) (auto simp: authorised_def handle_register_def Let_def extension_ok_def
          frame_simps not_less split: option.splits)
  next
    case True
    then obtain ext where ext: "register_extension req = Some (Some ext)" "extension_ok cfg tp ext"
      by blast
    then obtain n where n: "parse_uint 32 ext = Some n" "\<not> (n < r_range_start cfg \<or> r_range_end cfg < n)"
      "\<not> (tp = Udp \<and> ext \<notin> set (r_insecure_extensions cfg))"
      by (auto simp: extension_ok_def split: option.splits)
    show thesis
    proof (cases "extract_header_value req ''Authorization''")
      case None
      then have "registrations (snd (handle_register cfg env req from tp st)) = registrations st"
        using nb ext n by (simp add: handle_register_def Let_def case_prod_unfold frame_simps)
      then show thesis using None ext(1)
        by (intro refused) (auto simp: authorised_def credentials_ok_def)
    next
      case (Some av)
      then have h: "handle_register cfg env req from tp st =
          register_with_auth cfg env req ext (ip_text from) from tp av st"
        using nb ext n by (auto simp: handle_register_def Let_def)
      from register_with_auth_cases [OF Some, of cfg env "ip_text from" st ext "from" tp] show thesis
        using h nb ext by (elim disjE exE conjE) (auto simp: authorised_def intro: accepted refused)
    qed
  qed
qed

section \<open>The invariant of the reachable states\<close>

definition registration_ok :: "reg_config \<Rightarrow> string \<Rightarrow> registration \<Rightarrow> bool" where
  "registration_ok cfg ext reg \<longleftrightarrow>
     reg_extension reg = ext \<and> extension_ok cfg (reg_transport reg) ext"

definition table_bounds :: "reg_config \<Rightarrow> registrar \<Rightarrow> bool" where
  "table_bounds cfg st \<longleftrightarrow>
     hm_len (issued_nonces st) \<le> MAX_ISSUED_NONCES \<and>
     hm_len (failed_ips st) \<le> pol_max_failed_ips (r_ip_block cfg) \<and>
     hm_len (blocked_ips st) \<le> pol_max_blocked_ips (r_ip_block cfg)"

definition reg_inv :: "reg_config \<Rightarrow> registrar \<Rightarrow> bool" where
  "reg_inv cfg st \<longleftrightarrow>
     (\<forall>ext reg. hm_get (registrations st) ext = Some reg \<longrightarrow> registration_ok cfg ext reg) \<and>
     table_bounds cfg st"

text \<open>A policy as \<open>load\<close> accepts it: an enabled one has room for a failing address.\<close>

definition policy_ok :: "ip_block_policy \<Rightarrow> bool" where
  "policy_ok pol \<longleftrightarrow> (pol_enabled pol \<longrightarrow> 0 < pol_max_failed_ips pol \<and> 0 < pol_max_failures pol)"

lemma guard_table_eq:
  "guard_table cap alive m = (if cap \<le> hm_len m
     then (if cap \<le> hm_len (hm_retain (\<lambda>_. alive) m) then hm_empty else hm_retain (\<lambda>_. alive) m)
     else m)"
  by (simp add: guard_table_def Let_def)

lemma guard_table_insert:
  "0 < cap \<Longrightarrow> hm_len (hm_insert k v (guard_table cap alive m)) \<le> cap"
  unfolding guard_table_eq by (rule hm.len_guarded_insert)

lemma guard_table_get: "hm_get (guard_table cap alive m) k = Some v \<Longrightarrow> hm_get m k = Some v"
  unfolding guard_table_eq by (rule hm.get_guarded)

lemma record_failure_bounds [inv_intros]:
  assumes "policy_ok (r_ip_block cfg)" "table_bounds cfg st"
  shows "table_bounds cfg (snd (record_failure cfg now ip st))"
proof (cases "pol_enabled (r_ip_block cfg)")
  case True
  let ?pol = "r_ip_block cfg"
  let ?f = "guard_table (pol_max_failed_ips ?pol)
       (\<lambda>e. saturating_sub now (window_start e) < pol_window_secs ?pol) (failed_ips st)"
  let ?e = "count_failure now (pol_window_secs ?pol) (hm_get ?f ip)"
  have ins: "hm_len (hm_insert ip ?e ?f) \<le> pol_max_failed_ips ?pol"
    using assms(1) True by (intro guard_table_insert) (simp add: policy_ok_def)
  have rem: "hm_len (hm_remove ip (hm_insert ip ?e ?f)) \<le> pol_max_failed_ips ?pol"
    using ins by (rule order_trans [OF hm.len_remove_le])
  have blk: "hm_len (hm_insert ip () (blocked_ips st)) \<le> pol_max_blocked_ips ?pol"
    if "hm_len (blocked_ips st) < pol_max_blocked_ips ?pol"
    using hm.len_insert_le [of ip "()" "blocked_ips st"] that by linarith
  have old: "hm_len (issued_nonces st) \<le> MAX_ISSUED_NONCES"
    "hm_len (blocked_ips st) \<le> pol_max_blocked_ips ?pol"
    using assms(2) by (simp_all add: table_bounds_def)
  consider (count) "fail_count ?e < pol_max_failures ?pol"
    | (full) "\<not> fail_count ?e < pol_max_failures ?pol" "pol_max_blocked_ips ?pol \<le> hm_len (blocked_ips st)"
    | (block) "\<not> fail_count ?e < pol_max_failures ?pol" "hm_len (blocked_ips st) < pol_max_blocked_ips ?pol"
    by linarith
  then show ?thesis
  proof cases
    case count
    then have "snd (record_failure cfg now ip st) = st\<lparr>failed_ips := hm_insert ip ?e ?f\<rparr>"
      using True by (simp add: record_failure_def Let_def)
    then show ?thesis using old ins by (simp add: table_bounds_def)
  next
    case full
    then have "snd (record_failure cfg now ip st) = st\<lparr>failed_ips := hm_remove ip (hm_insert ip ?e ?f)\<rparr>"
      using True by (simp add: record_failure_def Let_def)
    then show ?thesis using old rem by (simp add: table_bounds_def)
  next
    case block
    then have "snd (record_failure cfg now ip st) = st\<lparr>failed_ips := hm_remove ip (hm_insert ip ?e ?f),
        blocked_ips := hm_insert ip () (blocked_ips st)\<rparr>"
      using True by (simp add: record_failure_def Let_def)
    then show ?thesis using old rem blk block by (simp add: table_bounds_def)
  qed
qed (use assms in \<open>simp add: record_failure_def Let_def\<close>)

lemma digest_challenge_bounds [inv_intros]:
  "table_bounds cfg st \<Longrightarrow> table_bounds cfg (snd (digest_challenge cfg now rb tag req ip st))"
  using guard_table_insert [of MAX_ISSUED_NONCES "generate_nonce rb"
      "\<lparr>issued_at = now, nonce_ip = ip, max_nc = 0\<rparr>"
      "\<lambda>e. saturating_sub now (issued_at e) < NONCE_TTL_SECS" "issued_nonces st"]
  by (simp add: digest_challenge_def table_bounds_def Let_def MAX_ISSUED_NONCES_def)

lemma validate_nonce_bounds [inv_intros]:
  "table_bounds cfg st \<Longrightarrow> table_bounds cfg (snd (validate_nonce now n ip nc qop st))"
  using validate_nonce_len [of now n ip nc qop st] by (simp add: table_bounds_def frame_simps)

lemma clear_failures_bounds [inv_intros]:
  "table_bounds cfg st \<Longrightarrow> table_bounds cfg (clear_failures ip st)"
  using hm.len_remove_le [of ip "failed_ips st"] by (simp add: table_bounds_def clear_failures_def)

lemma finish_register_bounds [inv_intros]:
  "table_bounds cfg st \<Longrightarrow> table_bounds cfg (snd (finish_register env req ext ip from tp st))"
  using hm.len_remove_le [of ip "failed_ips st"] by (simp add: table_bounds_def frame_simps)

lemma reject_bounds [inv_intros]:
  "policy_ok (r_ip_block cfg) \<Longrightarrow> table_bounds cfg st \<Longrightarrow>
   table_bounds cfg (snd (reject cfg env req ip code reason st))"
  by (simp add: reject_def inv_intros)

lemma register_with_auth_bounds [inv_intros]:
  assumes "policy_ok (r_ip_block cfg)" "table_bounds cfg st"
  shows "table_bounds cfg (snd (register_with_auth cfg env req ext ip from tp av st))"
proof -
  have v: "table_bounds cfg st1" if "validate_nonce now n ip nc qop st = (ok, st1)" for now n nc qop ok st1
    using validate_nonce_bounds [OF assms(2), of now n ip nc qop] that by simp
  show ?thesis
    using assms by (auto simp: register_with_auth_def case_prod_unfold dest: v intro!: inv_intros
        split: option.split prod.split bool.split)
qed

lemma handle_register_bounds [inv_intros]:
  assumes "policy_ok (r_ip_block cfg)" "table_bounds cfg st"
  shows "table_bounds cfg (snd (handle_register cfg env req from tp st))"
  using assms by (auto simp: handle_register_def Let_def case_prod_unfold intro!: inv_intros
      split: option.split)

lemma cleanup_bounds [inv_intros]:
  "table_bounds cfg st \<Longrightarrow> table_bounds cfg (cleanup_expired now st)"
  using hm.len_retain [of "\<lambda>nonce entry. saturating_sub now (issued_at entry) < NONCE_TTL_SECS" "issued_nonces st"]
  by (simp add: table_bounds_def cleanup_expired_def)

lemma finish_register_table:
  "hm_get (registrations (snd (finish_register env req ext ip from tp st))) e = Some reg \<Longrightarrow>
   hm_get (registrations st) e = Some reg \<or> e = ext \<and> reg_extension reg = ext \<and> reg_transport reg = tp"
  by (auto simp: finish_register_def Let_def register_def unregister_def clear_failures_def
      split: option.splits if_splits)

lemma handle_register_inv [inv_intros]:
  assumes "policy_ok (r_ip_block cfg)" "reg_inv cfg st"
  shows "reg_inv cfg (snd (handle_register cfg env req from tp st))"
proof -
  have b: "table_bounds cfg (snd (handle_register cfg env req from tp st))"
    using assms by (intro inv_intros) (simp_all add: reg_inv_def)
  show ?thesis
  proof (cases rule: handle_register_cases [of cfg env req "from" tp st])
    case (accepted ext nonce nc qop)
    from accepted(1) have ok: "extension_ok cfg tp ext" by (simp add: authorised_def)
    let ?st1 = "snd (validate_nonce (env_now env) nonce (ip_text from) nc qop st)"
    have "registration_ok cfg e reg"
      if "hm_get (registrations (snd (finish_register env req ext (ip_text from) from tp ?st1))) e = Some reg"
      for e reg
      using finish_register_table [OF that] ok assms(2)
      by (auto simp: frame_simps reg_inv_def registration_ok_def)
    with b accepted(2) show ?thesis by (simp add: reg_inv_def)
  next
    case refused
    with b assms(2) show ?thesis by (simp add: reg_inv_def)
  qed
qed

lemma reg_step_inv:
  assumes "policy_ok (r_ip_block cfg)" "reg_inv cfg st" "reg_step cfg st st'"
  shows "reg_inv cfg st'"
  using assms(3)
proof cases
  case (handle env req src tp)
  with assms show ?thesis by (simp add: handle_register_inv)
next
  case (cleanup now)
  have "table_bounds cfg st'" using assms cleanup by (auto simp: reg_inv_def intro: inv_intros)
  moreover have "registration_ok cfg ext reg" if "hm_get (registrations st') ext = Some reg" for ext reg
    using that assms(2) cleanup by (auto simp: reg_inv_def cleanup_expired_def hm.get_retain_Some)
  ultimately show ?thesis by (simp add: reg_inv_def)
next
  case (failure now ip)
  with assms show ?thesis by (simp add: reg_inv_def frame_simps inv_intros)
next
  case (clear ip)
  with assms show ?thesis by (simp add: reg_inv_def frame_simps inv_intros)
next
  case (sign_off ext)
  with assms show ?thesis
    by (auto simp: reg_inv_def table_bounds_def frame_simps) (simp add: unregister_def split: if_splits)
qed

lemma reg_reach_inv: "reg_reach cfg st \<Longrightarrow> policy_ok (r_ip_block cfg) \<Longrightarrow> reg_inv cfg st"
proof (induction rule: reg_reach.induct)
  case start
  then show ?case by (simp add: reg_inv_def table_bounds_def registrar_new_def)
next
  case (step st st')
  then show ?case using reg_step_inv by blast
qed

section \<open>The registry interface\<close>

text \<open>
  What the router and the message service rely on: a lookup sees the last registration of the
  extension while it lasts, and the cleanup task is invisible.
\<close>

locale registry =
  fixes look :: "u64 \<Rightarrow> string \<Rightarrow> 's \<Rightarrow> registration option"
    and enrol :: "registration \<Rightarrow> 's \<Rightarrow> 's"
    and withdraw :: "string \<Rightarrow> 's \<Rightarrow> 's"
    and purge :: "u64 \<Rightarrow> 's \<Rightarrow> 's"
  assumes look_enrol: "look now e (enrol reg s) =
        (if e = reg_extension reg then (if now < reg_expires_at reg then Some reg else None)
         else look now e s)"
    and look_withdraw: "look now e (withdraw x s) = (if e = x then None else look now e s)"
    and look_purge: "t \<le> now \<Longrightarrow> look now e (purge t s) = look now e s"
    and look_earlier: "now \<le> now' \<Longrightarrow> look now' e s = Some reg \<Longrightarrow> look now e s = Some reg"
begin

lemma look_enrol_purge:
  "t \<le> now \<Longrightarrow> look now e (enrol reg (purge t s)) = look now e (enrol reg s)"
  by (simp add: look_enrol look_purge)

lemma look_lost: "now \<le> now' \<Longrightarrow> look now e s = None \<Longrightarrow> look now' e s = None"
  using look_earlier by (cases "look now' e s") fastforce+

lemma look_purges: "list_all (\<lambda>t. t \<le> now) ts \<Longrightarrow> look now e (fold purge ts s) = look now e s"
  by (induction ts arbitrary: s) (simp_all add: look_purge)

end

interpretation reg: registry lookup register unregister cleanup_expired
proof unfold_locales
  fix now now' t :: u64 and e x :: string and r :: registration and s :: registrar
  show "lookup now e (register r s) =
      (if e = reg_extension r then (if now < reg_expires_at r then Some r else None) else lookup now e s)"
    by (simp add: lookup_def register_def)
  show "lookup now e (unregister x s) = (if e = x then None else lookup now e s)"
    by (simp add: lookup_def unregister_def)
  show "lookup now e (cleanup_expired t s) = lookup now e s" if "t \<le> now"
    using that by (auto simp: lookup_def cleanup_expired_def hm.get_retain not_le split: option.split)
  show "lookup now e s = Some r" if "now \<le> now'" "lookup now' e s = Some r"
    using that by (auto simp: lookup_def split: option.splits if_splits)
qed

lemma lookup_registrations: "registrations s = registrations s' \<Longrightarrow> lookup now e s = lookup now e s'"
  by (simp add: lookup_def)

section \<open>Blocks stay\<close>

definition in_block_table :: "string \<Rightarrow> registrar \<Rightarrow> bool" where
  "in_block_table k st \<longleftrightarrow> hm_get (blocked_ips st) k \<noteq> None"

named_theorems block_intros \<open>operations keep an address in the block table\<close>

lemma record_failure_keeps [block_intros]:
  "in_block_table k st \<Longrightarrow> in_block_table k (snd (record_failure cfg now ip st))"
  by (simp add: in_block_table_def record_failure_def Let_def)

lemma others_keep [block_intros]:
  "in_block_table k st \<Longrightarrow> in_block_table k (snd (digest_challenge cfg now rb tag req ip st))"
  "in_block_table k st \<Longrightarrow> in_block_table k (snd (finish_register env req ext ip src tp st))"
  "in_block_table k st \<Longrightarrow> in_block_table k (clear_failures ip st)"
  "in_block_table k st \<Longrightarrow> in_block_table k (unregister ext st)"
  "in_block_table k st \<Longrightarrow> in_block_table k (cleanup_expired now st)"
  "in_block_table k st \<Longrightarrow> in_block_table k (snd (validate_nonce now n ip nc qop st))"
  by (simp_all add: in_block_table_def frame_simps)

lemma reject_keeps [block_intros]:
  "in_block_table k st \<Longrightarrow> in_block_table k (snd (reject cfg env req ip code reason st))"
  by (simp add: reject_def block_intros)

lemma register_with_auth_keeps [block_intros]:
  assumes "in_block_table k st"
  shows "in_block_table k (snd (register_with_auth cfg env req ext ip src tp av st))"
proof -
  have v: "in_block_table k st1" if "validate_nonce now n ip nc qop st = (ok, st1)" for now n nc qop ok st1
    using others_keep(6) [OF assms, of now n ip nc qop] that by simp
  show ?thesis
    using assms by (auto simp: register_with_auth_def case_prod_unfold dest: v intro!: block_intros
        split: option.split prod.split bool.split)
qed

lemma handle_register_keeps [block_intros]:
  "in_block_table k st \<Longrightarrow> in_block_table k (snd (handle_register cfg env req src tp st))"
  by (auto simp: handle_register_def Let_def case_prod_unfold intro!: block_intros split: option.split)

lemma reg_steps_keep: "(reg_step cfg)\<^sup>*\<^sup>* st st' \<Longrightarrow> in_block_table k st \<Longrightarrow> in_block_table k st'"
proof (induction rule: rtranclp_induct)
  case (step y z)
  then show ?case by (auto elim!: reg_stepE intro: block_intros)
qed

lemma is_blocked_table: "is_blocked cfg ip st \<longleftrightarrow> pol_enabled (r_ip_block cfg) \<and> in_block_table ip st"
  by (simp add: is_blocked_def in_block_table_def)

section \<open>Counting failures\<close>

definition in_window :: "reg_config \<Rightarrow> u64 \<Rightarrow> u64 \<Rightarrow> bool" where
  "in_window cfg t0 t \<longleftrightarrow> saturating_sub t t0 < pol_window_secs (r_ip_block cfg)"

text \<open>\<open>k\<close> failures of \<open>ip\<close> have been counted in the window that began at \<open>t0\<close>.\<close>

definition counted :: "reg_config \<Rightarrow> u64 \<Rightarrow> string \<Rightarrow> nat \<Rightarrow> registrar \<Rightarrow> bool" where
  "counted cfg t0 ip k st \<longleftrightarrow>
     hm_get (failed_ips st) ip = (if k = 0 then None else Some \<lparr>fail_count = k, window_start = t0\<rparr>) \<and>
     hm_len (failed_ips st) + (if k = 0 then 1 else 0) < pol_max_failed_ips (r_ip_block cfg) \<and>
     hm_len (blocked_ips st) < pol_max_blocked_ips (r_ip_block cfg) \<and>
     hm_get (blocked_ips st) ip = None"

lemma count_failure_next:
  assumes "counted cfg t0 ip k st" "k + 1 < 2 ^ 32" "in_window cfg t0 t" "k = 0 \<Longrightarrow> t = t0"
  shows "count_failure t (pol_window_secs (r_ip_block cfg)) (hm_get (failed_ips st) ip) =
     \<lparr>fail_count = k + 1, window_start = t0\<rparr>"
  using assms by (auto simp: count_failure_def counted_def in_window_def Let_def)

lemma record_failure_below:
  assumes "pol_enabled (r_ip_block cfg)" "pol_max_failures (r_ip_block cfg) < 2 ^ 32"
    and "counted cfg t0 ip k st" "in_window cfg t0 t" "k = 0 \<Longrightarrow> t = t0"
    and "k + 1 < pol_max_failures (r_ip_block cfg)"
  shows "counted cfg t0 ip (k + 1) (snd (record_failure cfg t ip st))"
    and "fst (record_failure cfg t ip st) = False"
proof -
  let ?pol = "r_ip_block cfg"
  have g: "guard_table (pol_max_failed_ips ?pol) P (failed_ips st) = failed_ips st" for P
    using assms(3) by (auto simp: guard_table_eq counted_def)
  have e: "count_failure t (pol_window_secs ?pol) (hm_get (failed_ips st) ip) =
      \<lparr>fail_count = k + 1, window_start = t0\<rparr>"
    using assms by (intro count_failure_next) simp_all
  have r: "record_failure cfg t ip st = (False, st\<lparr>failed_ips :=
      hm_insert ip \<lparr>fail_count = k + 1, window_start = t0\<rparr> (failed_ips st)\<rparr>)"
    using assms(1,6) e by (simp add: record_failure_def Let_def g)
  show "fst (record_failure cfg t ip st) = False" by (simp add: r)
  show "counted cfg t0 ip (k + 1) (snd (record_failure cfg t ip st))"
    using assms(3) by (auto simp: r counted_def hm.len_insert split: if_splits)
qed

lemma record_failure_at_limit:
  assumes "pol_enabled (r_ip_block cfg)" "pol_max_failures (r_ip_block cfg) < 2 ^ 32"
    and "counted cfg t0 ip k st" "in_window cfg t0 t" "k = 0 \<Longrightarrow> t = t0"
    and "k + 1 = pol_max_failures (r_ip_block cfg)"
  shows "fst (record_failure cfg t ip st)" "is_blocked cfg ip (snd (record_failure cfg t ip st))"
proof -
  let ?pol = "r_ip_block cfg"
  have g: "guard_table (pol_max_failed_ips ?pol) P (failed_ips st) = failed_ips st" for P
    using assms(3) by (auto simp: guard_table_eq counted_def)
  have e: "count_failure t (pol_window_secs ?pol) (hm_get (failed_ips st) ip) =
      \<lparr>fail_count = k + 1, window_start = t0\<rparr>"
    using assms by (intro count_failure_next) simp_all
  have b: "\<not> pol_max_blocked_ips ?pol \<le> hm_len (blocked_ips st)"
    using assms(3) by (simp add: counted_def)
  have r: "record_failure cfg t ip st = (True, st\<lparr>failed_ips := hm_remove ip (hm_insert ip
      \<lparr>fail_count = k + 1, window_start = t0\<rparr> (failed_ips st)),
      blocked_ips := hm_insert ip () (blocked_ips st)\<rparr>)"
    using assms(1,6) b by (simp add: record_failure_def Let_def g e [unfolded assms(6)])
  show "fst (record_failure cfg t ip st)" "is_blocked cfg ip (snd (record_failure cfg t ip st))"
    using assms(1) by (simp_all add: r is_blocked_def)
qed

definition record_failures :: "reg_config \<Rightarrow> string \<Rightarrow> u64 list \<Rightarrow> registrar \<Rightarrow> registrar" where
  "record_failures cfg ip ts st = fold (\<lambda>t s. snd (record_failure cfg t ip s)) ts st"

lemma record_failures_below:
  assumes "pol_enabled (r_ip_block cfg)" "pol_max_failures (r_ip_block cfg) < 2 ^ 32"
  shows "counted cfg t0 ip k st \<Longrightarrow> list_all (in_window cfg t0) ts \<Longrightarrow>
     (k = 0 \<Longrightarrow> ts \<noteq> [] \<Longrightarrow> hd ts = t0) \<Longrightarrow> k + length ts < pol_max_failures (r_ip_block cfg) \<Longrightarrow>
     counted cfg t0 ip (k + length ts) (record_failures cfg ip ts st)"
proof (induction ts arbitrary: k st)
  case Nil
  then show ?case by (simp add: record_failures_def)
next
  case (Cons t ts)
  have "counted cfg t0 ip (k + 1) (snd (record_failure cfg t ip st))"
    using Cons.prems by (intro record_failure_below [OF assms Cons.prems(1)]) simp_all
  from Cons.IH [OF this] Cons.prems show ?case by (simp add: record_failures_def)
qed

section \<open>Reading back an Authorization header\<close>

text \<open>The header text a client sends, with quoted values.\<close>

definition quoted :: "string \<Rightarrow> string \<Rightarrow> string" where
  "quoted key v = key @ ''='' @ [DQ] @ v @ [DQ]"

definition authorization_params :: "digest_params \<Rightarrow> string list" where
  "authorization_params p =
     [quoted ''username'' (d_username p), quoted ''realm'' (d_realm p), quoted ''nonce'' (d_nonce p),
      quoted ''uri'' (d_uri p), quoted ''response'' (d_response p)]
     @ (case d_qop p of Some q \<Rightarrow> [quoted ''qop'' q] | None \<Rightarrow> [])
     @ (case d_nc p of Some n \<Rightarrow> [quoted ''nc'' n] | None \<Rightarrow> [])
     @ (case d_cnonce p of Some c \<Rightarrow> [quoted ''cnonce'' c] | None \<Rightarrow> [])"

definition authorization_value :: "digest_params \<Rightarrow> string" where
  "authorization_value p = ''Digest '' @ join '', '' (authorization_params p)"

definition quotable :: "string \<Rightarrow> bool" where
  "quotable v \<longleftrightarrow> DQ \<notin> set v"

lemma split_params_quoted:
  "DQ \<notin> set v \<Longrightarrow> split_params_loop cur True (v @ DQ # t) = split_params_loop (cur @ v @ [DQ]) False t"
  by (induction v arbitrary: cur) auto

lemma split_params_plain:
  "DQ \<notin> set v \<Longrightarrow> CHR '','' \<notin> set v \<Longrightarrow>
   split_params_loop cur False (v @ t) = split_params_loop (cur @ v) False t"
  by (induction v arbitrary: cur) auto

definition plain_key :: "string \<Rightarrow> bool" where
  "plain_key k \<longleftrightarrow> k \<noteq> [] \<and> list_all (\<lambda>c. c \<noteq> DQ \<and> c \<noteq> CHR '','' \<and> c \<noteq> CHR ''='' \<and> \<not> is_ws c) k"

lemma split_params_one:
  assumes "plain_key k" "quotable v"
  shows "split_params_loop cur False (quoted k v @ t) = split_params_loop (cur @ quoted k v) False t"
proof -
  have "DQ \<noteq> CHR ''=''" "CHR '','' \<noteq> CHR ''=''" "DQ \<noteq> CHR '',''" by (simp_all add: DQ_def)
  then have "split_params_loop cur False ((k @ ''='') @ DQ # v @ DQ # t) =
      split_params_loop (cur @ k @ ''='') False (DQ # v @ DQ # t)"
    using assms by (intro split_params_plain) (auto simp: plain_key_def list_all_iff)
  then show ?thesis using assms by (simp add: quoted_def split_params_quoted quotable_def)
qed

lemma quoted_not_blank: "plain_key k \<Longrightarrow> trim (cur @ quoted k v) \<noteq> []"
proof
  assume "plain_key k" and t: "trim (cur @ quoted k v) = []"
  have "DQ \<in> set (cur @ quoted k v)" by (simp add: quoted_def)
  moreover have "\<not> is_ws DQ" by (simp add: is_ws_def DQ_def)
  ultimately show False using trim_Nil_ws [OF t] by blast
qed

lemma split_params_join:
  assumes "ps \<noteq> []" "list_all (\<lambda>(k, v). plain_key k \<and> quotable v) ps"
  shows "split_params_loop cur False (join '', '' (map (\<lambda>(k, v). quoted k v) ps)) =
     (case map (\<lambda>(k, v). quoted k v) ps of w # ws \<Rightarrow> (cur @ w) # map (\<lambda>x. '' '' @ x) ws | [] \<Rightarrow> [])"
  using assms
proof (induction ps arbitrary: cur)
  case (Cons p ps)
  obtain k v where p: "p = (k, v)" by (cases p)
  with Cons.prems have kv: "plain_key k" "quotable v" by simp_all
  have sp: "DQ \<noteq> CHR '' ''" "CHR '','' \<noteq> DQ" by (simp_all add: DQ_def)
  show ?case
  proof (cases ps)
    case Nil
    then show ?thesis using split_params_one [OF kv, of cur "[]"] quoted_not_blank [OF kv(1), of cur v] p by simp
  next
    case (Cons q qs)
    obtain k' v' where q: "q = (k', v')" by (cases q)
    let ?r = "join '', '' (map (\<lambda>(k, v). quoted k v) ps)"
    have j: "join '', '' (map (\<lambda>(k, v). quoted k v) (p # ps)) = quoted k v @ CHR '','' # CHR '' '' # ?r"
      using p Cons by simp
    have "split_params_loop cur False (quoted k v @ CHR '','' # CHR '' '' # ?r) =
        (cur @ quoted k v) # split_params_loop '' '' False ?r"
      using split_params_one [OF kv, of cur] quoted_not_blank [OF kv(1), of cur v] sp by simp
    also have "split_params_loop '' '' False ?r =
        ('' '' @ quoted k' v') # map (\<lambda>x. '' '' @ x) (map (\<lambda>(k, v). quoted k v) qs)"
      using Cons.IH [of "'' ''"] Cons.prems(2) \<open>ps = q # qs\<close> q by simp
    finally show ?thesis using j p q \<open>ps = q # qs\<close> by simp
  qed
qed simp

lemma trim_quoted:
  assumes "plain_key k"
  shows "trim (quoted k v) = quoted k v" "trim (CHR '' '' # quoted k v) = quoted k v"
proof -
  obtain c cs where k: "k = c # cs" "\<not> is_ws c" using assms by (cases k) (auto simp: plain_key_def)
  have l: "last (quoted k v) = DQ" by (simp add: quoted_def)
  then have "\<not> is_ws (last (quoted k v))" by (simp add: is_ws_def DQ_def)
  moreover have "quoted k v \<noteq> []" "\<not> is_ws (hd (quoted k v))" using k by (simp_all add: quoted_def)
  ultimately show t: "trim (quoted k v) = quoted k v" by (intro trim_id)
  have "trim_start (CHR '' '' # quoted k v) = trim_start (quoted k v)"
    by (simp add: trim_start_def is_ws_def)
  with t show "trim (CHR '' '' # quoted k v) = quoted k v" by (simp add: trim_def)
qed

lemma unquote: "quotable v \<Longrightarrow> trim_matches DQ (trim (DQ # v @ [DQ])) = v"
proof -
  assume q: "quotable v"
  have "\<not> is_ws DQ" by (simp add: is_ws_def DQ_def)
  then have "trim (DQ # v @ [DQ]) = DQ # v @ [DQ]" by (intro trim_id) simp_all
  moreover have "dropWhile (\<lambda>c. c = DQ) (rev v) = rev v" "dropWhile (\<lambda>c. c = DQ) v = v"
    using q by (cases "rev v", auto simp: quotable_def, cases v, auto)
  moreover have "dropWhile (\<lambda>c. c = DQ) (v @ [DQ]) = (if v = [] then [] else v @ [DQ])"
    using q by (cases v) (auto simp: quotable_def)
  ultimately show ?thesis by (simp add: trim_matches_def trim_end_matches_def)
qed

lemma set_param_quoted:
  assumes "plain_key k" "quotable v" "param \<in> {quoted k v, CHR '' '' # quoted k v}"
  shows "split_once (CHR ''='') (trim param) = Some (k, DQ # v @ [DQ])" "trim k = k"
    "trim_matches DQ (trim (DQ # v @ [DQ])) = v"
proof -
  have t: "trim param = quoted k v" using assms trim_quoted by auto
  have "CHR ''='' \<notin> set k" using assms(1) by (auto simp: plain_key_def list_all_iff)
  then have "find_char (CHR ''='') (k @ CHR ''='' # DQ # v @ [DQ]) = Some (length k)" by simp
  then show "split_once (CHR ''='') (trim param) = Some (k, DQ # v @ [DQ])"
    by (simp add: t split_once_def quoted_def)
  show "trim k = k"
    using assms(1) by (intro trim_id) (auto simp: plain_key_def list_all_iff)
  show "trim_matches DQ (trim (DQ # v @ [DQ])) = v" using assms(2) by (rule unquote)
qed

lemma digest_keys:
  "\<forall>k \<in> {''username'', ''realm'', ''nonce'', ''uri'', ''response'', ''qop'', ''nc'', ''cnonce''}.
     plain_key k \<and> to_lower k = k"
  by code_simp

lemma set_param_field:
  assumes "plain_key k" "quotable v" "to_lower k = k" "param \<in> {quoted k v, CHR '' '' # quoted k v}"
  shows "set_param param p =
     (if k = ''username'' then p\<lparr>d_username := v\<rparr> else if k = ''realm'' then p\<lparr>d_realm := v\<rparr>
      else if k = ''nonce'' then p\<lparr>d_nonce := v\<rparr> else if k = ''uri'' then p\<lparr>d_uri := v\<rparr>
      else if k = ''response'' then p\<lparr>d_response := v\<rparr> else if k = ''qop'' then p\<lparr>d_qop := Some v\<rparr>
      else if k = ''nc'' then p\<lparr>d_nc := Some v\<rparr> else if k = ''cnonce'' then p\<lparr>d_cnonce := Some v\<rparr>
      else p)"
  using set_param_quoted [OF assms(1,2,4)] assms(3) by (simp add: set_param_def Let_def)

definition param_pairs :: "digest_params \<Rightarrow> (string \<times> string) list" where
  "param_pairs p =
     [(''username'', d_username p), (''realm'', d_realm p), (''nonce'', d_nonce p),
      (''uri'', d_uri p), (''response'', d_response p)]
     @ (case d_qop p of Some q \<Rightarrow> [(''qop'', q)] | None \<Rightarrow> [])
     @ (case d_nc p of Some n \<Rightarrow> [(''nc'', n)] | None \<Rightarrow> [])
     @ (case d_cnonce p of Some c \<Rightarrow> [(''cnonce'', c)] | None \<Rightarrow> [])"

lemma authorization_params_pairs: "authorization_params p = map (\<lambda>(k, v). quoted k v) (param_pairs p)"
  by (simp add: authorization_params_def param_pairs_def split: option.split)

definition params_quotable :: "digest_params \<Rightarrow> bool" where
  "params_quotable p \<longleftrightarrow> list_all (\<lambda>(k, v). quotable v) (param_pairs p)"

lemma param_pairs_ok:
  "params_quotable p \<Longrightarrow> list_all (\<lambda>(k, v). plain_key k \<and> quotable v \<and> to_lower k = k) (param_pairs p)"
  using digest_keys by (simp add: params_quotable_def param_pairs_def split: option.splits)

text \<open>Setting the fields one after the other, whether or not a space precedes each.\<close>

definition put_pair :: "string \<times> string \<Rightarrow> digest_params \<Rightarrow> digest_params" where
  "put_pair kv p = (case kv of (k, v) \<Rightarrow>
      (if k = ''username'' then p\<lparr>d_username := v\<rparr> else if k = ''realm'' then p\<lparr>d_realm := v\<rparr>
      else if k = ''nonce'' then p\<lparr>d_nonce := v\<rparr> else if k = ''uri'' then p\<lparr>d_uri := v\<rparr>
      else if k = ''response'' then p\<lparr>d_response := v\<rparr> else if k = ''qop'' then p\<lparr>d_qop := Some v\<rparr>
      else if k = ''nc'' then p\<lparr>d_nc := Some v\<rparr> else if k = ''cnonce'' then p\<lparr>d_cnonce := Some v\<rparr>
      else p))"

lemma fold_set_param:
  assumes "list_all (\<lambda>(k, v). plain_key k \<and> quotable v \<and> to_lower k = k) ps"
    and "list_all2 (\<lambda>(k, v) s. s \<in> {quoted k v, CHR '' '' # quoted k v}) ps ss"
  shows "fold set_param ss q = fold put_pair ps q"
  using assms(2,1)
proof (induction ps ss arbitrary: q rule: list_all2_induct)
  case (Cons kv ps s ss)
  obtain k v where kv: "kv = (k, v)" by (cases kv)
  have "set_param s q = put_pair kv q"
    using set_param_field [of k v s q] Cons kv by (simp add: put_pair_def)
  with Cons show ?case by simp
qed simp

lemma fold_put_pairs: "fold put_pair (param_pairs p) no_params = p"
  by (cases p) (simp add: param_pairs_def put_pair_def no_params_def split: option.split)

lemma join_last:
  "ws \<noteq> [] \<Longrightarrow> last ws \<noteq> [] \<Longrightarrow> join sep ws \<noteq> [] \<and> last (join sep ws) = last (last ws)"
  by (induction sep ws rule: join.induct) auto

lemma join_hd: "w \<noteq> [] \<Longrightarrow> hd (join sep (w # ws)) = hd w"
  by (cases ws) simp_all

lemma authorization_join:
  "trim (join '', '' (authorization_params p)) = join '', '' (authorization_params p)"
  "trim (authorization_value p) = authorization_value p"
  "trim (CHR '' '' # join '', '' (authorization_params p)) = join '', '' (authorization_params p)"
proof -
  let ?ps = "authorization_params p" and ?j = "join '', '' (authorization_params p)"
  have q: "last (quoted k v) = DQ" "quoted k v \<noteq> []" for k v by (simp_all add: quoted_def)
  have "last (last ?ps) = DQ" "last ?ps \<noteq> []"
    by (auto simp: authorization_params_def q split: option.split)
  then have l: "?j \<noteq> []" "last ?j = DQ"
    using join_last [of ?ps "'', ''"] by (simp_all add: authorization_params_def)
  have "hd ?j = CHR ''u''"
    using join_hd [of "quoted ''username'' (d_username p)" "'', ''"]
    by (simp add: authorization_params_def) (simp add: quoted_def)
  then have ws: "\<not> is_ws (hd ?j)" "\<not> is_ws (last ?j)" using l by (simp_all add: is_ws_def DQ_def)
  show t: "trim ?j = ?j" by (rule trim_id [OF l(1) ws])
  show "trim (authorization_value p) = authorization_value p"
    using l ws by (intro trim_id) (simp_all add: authorization_value_def, simp add: is_ws_def)
  have "trim_start (CHR '' '' # ?j) = trim_start ?j" by (simp add: trim_start_def is_ws_def)
  with t show "trim (CHR '' '' # ?j) = ?j" by (simp add: trim_def)
qed

lemma parse_authorization_value:
  assumes "params_quotable p" "d_username p \<noteq> []" "d_nonce p \<noteq> []" "d_response p \<noteq> []"
  shows "parse_authorization (authorization_value p) = Some p"
proof -
  let ?j = "join '', '' (authorization_params p)" and ?ps = "param_pairs p"
  let ?ws = "map (\<lambda>(k, v). quoted k v) ?ps"
  have ok: "list_all (\<lambda>(k, v). plain_key k \<and> quotable v \<and> to_lower k = k) ?ps"
    by (rule param_pairs_ok [OF assms(1)])
  then have "list_all (\<lambda>(k, v). plain_key k \<and> quotable v) ?ps" "?ps \<noteq> []"
    by (auto simp: list_all_iff param_pairs_def)
  then have sp: "split_digest_params ?j = (case ?ws of w # ws \<Rightarrow> w # map (\<lambda>x. '' '' @ x) ws | [] \<Rightarrow> [])"
    using split_params_join [of ?ps "[]"]
    by (simp add: split_digest_params_def authorization_params_pairs split: list.split)
  obtain kv kvs where ps: "?ps = kv # kvs" by (simp add: param_pairs_def)
  have "list_all2 (\<lambda>(k, v) s. s \<in> {quoted k v, CHR '' '' # quoted k v}) ?ps (split_digest_params ?j)"
    unfolding sp ps by (auto simp: case_prod_unfold list_all2_conv_all_nth nth_Cons split: nat.split)
  from fold_set_param [OF ok this] have f: "fold set_param (split_digest_params ?j) no_params = p"
    by (simp add: fold_put_pairs)
  have "strip_prefix (authorization_value p) ''Digest'' = Some (CHR '' '' # ?j)"
    by (simp add: authorization_value_def strip_prefix_def)
  with f assms authorization_join show ?thesis by (simp add: parse_authorization_def)
qed

section \<open>A concrete run\<close>

definition ex_reg_cfg :: reg_config where
  "ex_reg_cfg = \<lparr>r_domain = ''pbx'', r_default_password = ''pw'', r_passwords = hm_empty,
     r_range_start = 1000, r_range_end = 2000, r_ip_block = policy_default,
     r_insecure_extensions = [''1001'']\<rparr>"

definition ex_peer :: socket_addr where
  "ex_peer = \<lparr>ip_text = ''10.0.0.7'', is_v6 = False, port = 5060\<rparr>"

definition ex_env :: reg_env where
  "ex_env = \<lparr>env_now = 1000, env_nonce_bytes = ''ab'', env_tag = ''t'', env_md5 = (\<lambda>s. take 2 s)\<rparr>"

definition ex_register :: "string \<Rightarrow> string" where
  "ex_register auth = unlines
     ([''REGISTER sip:pbx SIP/2.0'', ''Via: SIP/2.0/UDP 10.0.0.7;branch=z9hG4bK1'',
       ''From: <sip:1001@pbx>;tag=1'', ''To: <sip:1001@pbx>'', ''Call-ID: r1'', ''CSeq: 1 REGISTER'',
       ''Contact: <sip:1001@10.0.0.7:5060>'', ''Expires: 600''] @ (if auth = [] then [] else [auth])) @ CRLF"

definition ex_auth :: string where
  "ex_auth = ''Authorization: Digest username='' @ [DQ] @ ''1001'' @ [DQ] @ '', realm='' @ [DQ] @ ''pbx'' @ [DQ]
     @ '', nonce='' @ [DQ] @ ''6162'' @ [DQ] @ '', uri='' @ [DQ] @ ''sip:pbx'' @ [DQ] @ '', response='' @ [DQ] @ ''3331'' @ [DQ]
     @ '', qop=auth, nc=00000001, cnonce='' @ [DQ] @ ''c'' @ [DQ]"

text \<open>The state after the challenge, in which the second request of the client arrives.\<close>

definition ex_challenged :: registrar where
  "ex_challenged = snd (handle_register ex_reg_cfg ex_env (ex_register []) ex_peer Udp registrar_new)"

lemma ex_authorised:
  "authorised ex_reg_cfg ex_env (ex_register ex_auth) ex_peer Udp ex_challenged ''1001''"
  by code_simp

lemma ex_challenged_reach: "reg_reach ex_reg_cfg ex_challenged"
  unfolding ex_challenged_def by (rule reg_reach.step [OF reg_reach.start reg_step.handle])

lemma ex_policy_ok: "policy_ok (r_ip_block ex_reg_cfg)"
  by (simp add: policy_ok_def ex_reg_cfg_def policy_default_def DEFAULT_MAX_FAILED_IPS_def)

lemma authorised_unique:
  "authorised cfg env req src tp st ext \<Longrightarrow> authorised cfg env req src tp st ext' \<Longrightarrow> ext' = ext"
  by (simp add: authorised_def)

lemma built_status:
  "LF \<notin> set reason \<Longrightarrow> code < 2 ^ 16 \<Longrightarrow>
   extract_status_code (build_response_with_headers req code reason extra tag) = Some code"
  using extract_status_code_unlines [of reason code] response_lines_hd [of req code reason tag]
  unfolding build_response_unlines by (metis append_Cons append_assoc)

lemma built_status_plain:
  "LF \<notin> set reason \<Longrightarrow> code < 2 ^ 16 \<Longrightarrow>
   extract_status_code (build_response req code reason tag) = Some code"
  unfolding build_response_no_extra by (rule built_status)

lemma finish_register_binds:
  assumes "asked_expiry req = Some expires" "expires \<noteq> 0" "extract_contact_uri req = Some (Some contact)"
  shows "\<exists>resp. finish_register env req ext ip src tp st = (Some resp, register
      \<lparr>reg_extension = ext, reg_contact = contact,
       reg_expires_at = env_now env + of_nat expires, reg_addr = src, reg_transport = tp\<rparr>
      (clear_failures ip st)) \<and>
     extract_status_code resp = Some 200"
proof -
  have "LF \<notin> set ''OK''" by (simp add: LF_def)
  note ok = built_status [OF this, of 200]
  show ?thesis using assms ok by (simp add: finish_register_def Let_def)
qed

section \<open>Properties\<close>

text \<open>C1: a REGISTER changes the registration table only when it is authorised: the address is
  not blocked, the extension is in range (and white-listed on UDP), the credentials name that
  extension, carry a nonce issued to that address that is neither expired nor replayed, and
  the digest over the extension's password matches. Then only that extension's entry changes.\<close>

theorem registrations_change_only_authorised:
  assumes "registrations (snd (handle_register cfg env req src tp st)) \<noteq> registrations st"
  shows "\<exists>ext. authorised cfg env req src tp st ext \<and>
     (\<forall>e. e \<noteq> ext \<longrightarrow> hm_get (registrations (snd (handle_register cfg env req src tp st))) e =
        hm_get (registrations st) e)"
proof (cases rule: handle_register_cases [of cfg env req src tp st])
  case (accepted ext nonce nc qop)
  have "hm_get (registrations (snd (handle_register cfg env req src tp st))) e = hm_get (registrations st) e"
    if "e \<noteq> ext" for e
    using that by (simp add: accepted(2) finish_register_def register_def unregister_def frame_simps
        Let_def split: option.split)
  with accepted(1) show ?thesis by blast
qed (use assms in simp)

theorem registrations_change_only_authorised_witness:
  "\<exists>ext. authorised ex_reg_cfg ex_env (ex_register ex_auth) ex_peer Udp ex_challenged ext"
proof -
  have "hm_get (registrations (snd (handle_register ex_reg_cfg ex_env (ex_register ex_auth) ex_peer Udp
      ex_challenged))) ''1001'' \<noteq> hm_get (registrations ex_challenged) ''1001''"
    by code_simp
  then have "registrations (snd (handle_register ex_reg_cfg ex_env (ex_register ex_auth) ex_peer Udp
      ex_challenged)) \<noteq> registrations ex_challenged" by metis
  from registrations_change_only_authorised [OF this] show ?thesis by blast
qed



text \<open>A blocked address is refused with 403 and changes nothing, whatever it sends; and a
  block is never lifted by any sequence of operations.\<close>

theorem blocked_forever:
  assumes "is_blocked cfg (ip_text src) st" "(reg_step cfg)\<^sup>*\<^sup>* st st'"
  shows "snd (handle_register cfg env req src tp st') = st' \<and>
     (\<exists>resp. fst (handle_register cfg env req src tp st') = Some resp \<and> extract_status_code resp = Some 403)"
proof -
  have "is_blocked cfg (ip_text src) st'"
    using assms(1) reg_steps_keep [OF assms(2)] by (simp add: is_blocked_table)
  moreover have "LF \<notin> set ''Forbidden''" by (simp add: LF_def)
  note built_status_plain [OF this, of 403]
  ultimately show ?thesis by (simp add: handle_register_def Let_def)
qed

theorem blocked_forever_witness:
  "let st = record_failures ex_reg_cfg ''10.0.0.7'' [5, 6, 7] registrar_new
   in snd (handle_register ex_reg_cfg ex_env (ex_register ex_auth) ex_peer Udp st) = st"
proof -
  have "is_blocked ex_reg_cfg (ip_text ex_peer) (record_failures ex_reg_cfg ''10.0.0.7'' [5, 6, 7] registrar_new)"
    by code_simp
  from blocked_forever [OF this rtranclp.rtrancl_refl] show ?thesis by (simp add: Let_def)
qed





text \<open>The nonce of a challenge is good for the challenged address only, for 300 seconds, and
  with \<open>qop=auth\<close> for counters from 1 on.\<close>

theorem challenge_nonce_usable_iff:
  "fst (validate_nonce now' (generate_nonce rb) ip' nc qop (snd (digest_challenge cfg now rb tag req ip st)))
   \<longleftrightarrow> ip = ip' \<and> unat now' - unat now < 300 \<and>
       (qop = Some ''auth'' \<longrightarrow> 0 < (case nc of Some x \<Rightarrow> x | None \<Rightarrow> 0))"
proof -
  have "saturating_sub now' now < NONCE_TTL_SECS \<longleftrightarrow> unat now' - unat now < 300"
    by (simp add: word_less_nat_alt unat_saturating_sub NONCE_TTL_SECS_def)
  then show ?thesis
    by (simp add: validate_nonce_iff nonce_usable_def digest_challenge_def Let_def)
qed

theorem challenge_nonce_usable_iff_witness:
  "fst (validate_nonce 1299 (generate_nonce ''ab'') ''10.0.0.7'' (Some 1) (Some ''auth'')
     (snd (digest_challenge ex_reg_cfg 1000 ''ab'' ''t'' (ex_register []) ''10.0.0.7'' registrar_new)))"
  by (subst challenge_nonce_usable_iff) simp

text \<open>In every reachable state the tables are within their capacities, and every entry is
  filed under its own extension, which is in range and, on UDP, white-listed.\<close>

theorem reachable_registrar:
  assumes "reg_reach cfg st" "policy_ok (r_ip_block cfg)"
  shows "table_bounds cfg st \<and>
     (\<forall>now ext reg. lookup now ext st = Some reg \<longrightarrow> registration_ok cfg ext reg)"
  using reg_reach_inv [OF assms] by (auto simp: reg_inv_def lookup_def split: option.splits if_splits)

theorem reachable_registrar_witness: "table_bounds ex_reg_cfg ex_challenged"
  using reachable_registrar [OF ex_challenged_reach ex_policy_ok] by blast

text \<open>The cleanup task is invisible: at its time or later, however often it ran, lookups and
  nonce checks answer what they would have answered without it.\<close>

theorem cleanup_invisible:
  assumes "list_all (\<lambda>t. t \<le> now) ts"
  shows "lookup now ext (fold cleanup_expired ts st) = lookup now ext st \<and>
     fst (validate_nonce now nonce ip nc qop (fold cleanup_expired ts st)) =
     fst (validate_nonce now nonce ip nc qop st)"
proof -
  have one: "nonce_usable now nonce ip nc qop (cleanup_expired t s) = nonce_usable now nonce ip nc qop s"
    if "t \<le> now" for t s
  proof -
    have "saturating_sub t i < NONCE_TTL_SECS" if "saturating_sub now i < NONCE_TTL_SECS" for i
      using that \<open>t \<le> now\<close> by (simp add: word_less_nat_alt word_le_nat_alt unat_saturating_sub)
    then show ?thesis
      by (auto simp: nonce_usable_def cleanup_expired_def hm.get_retain split: option.split)
  qed
  have "nonce_usable now nonce ip nc qop (fold cleanup_expired ts s) = nonce_usable now nonce ip nc qop s" for s
    using assms one by (induction ts arbitrary: s) simp_all
  then show ?thesis using reg.look_purges [OF assms] by (simp add: validate_nonce_iff)
qed

theorem cleanup_invisible_witness:
  "lookup 1600 ''1001'' (fold cleanup_expired [10, 1200] ex_challenged) = lookup 1600 ''1001'' ex_challenged"
proof -
  have "list_all (\<lambda>t. t \<le> (1600 :: u64)) [10, 1200]" by simp
  from cleanup_invisible [OF this] show ?thesis by blast
qed

text \<open>\<open>parse_authorization\<close> reads back every header a client writes with quoted values,
  commas, equals signs and spaces inside the quotes included.\<close>

theorem authorization_roundtrip:
  assumes "params_quotable p" "d_username p \<noteq> []" "d_nonce p \<noteq> []" "d_response p \<noteq> []"
  shows "parse_authorization (authorization_value p) = Some p"
  using assms by (rule parse_authorization_value)

definition ex_params :: digest_params where
  "ex_params = \<lparr>d_username = ''1001'', d_realm = ''a, b'', d_nonce = ''6162'', d_uri = ''sip:pbx;x=1,2'',
     d_response = ''3331'', d_qop = Some ''auth'', d_nc = Some ''00000001'', d_cnonce = None\<rparr>"

theorem authorization_roundtrip_witness:
  "parse_authorization (authorization_value ex_params) = Some ex_params"
  by (rule authorization_roundtrip) code_simp+

text \<open>\<open>now + expires\<close> is not checked. An expiry that wraps the clock is answered 200, and
  the extension is not registered.\<close>

theorem wrapped_expiry_not_registered:
  assumes "authorised cfg env req src tp st ext" "extract_contact_uri req = Some (Some contact)"
    and "asked_expiry req = Some expires" "expires \<noteq> 0" "env_now env + of_nat expires \<le> env_now env"
  shows "\<exists>resp. fst (handle_register cfg env req src tp st) = Some resp \<and>
     extract_status_code resp = Some 200 \<and>
     lookup (env_now env) ext (snd (handle_register cfg env req src tp st)) = None"
proof (cases rule: handle_register_cases [of cfg env req src tp st])
  case (accepted ext' nonce nc qop)
  then have e: "ext' = ext" using authorised_unique [OF assms(1)] by blast
  let ?reg = "\<lparr>reg_extension = ext, reg_contact = contact,
      reg_expires_at = env_now env + of_nat expires, reg_addr = src, reg_transport = tp\<rparr>"
  obtain resp st1 where "handle_register cfg env req src tp st = (Some resp, register ?reg st1)"
    "extract_status_code resp = Some 200"
    using finish_register_binds [OF assms(3,4,2), of env ext "ip_text src" src tp] accepted(2) e by metis
  then show ?thesis using assms(5) by (simp add: reg.look_enrol)
qed (use assms in blast)

definition ex_wrap_register :: string where
  "ex_wrap_register = unlines
     [''REGISTER sip:pbx SIP/2.0'', ''Via: SIP/2.0/UDP 10.0.0.7;branch=z9hG4bK1'',
      ''From: <sip:1001@pbx>;tag=1'', ''To: <sip:1001@pbx>'', ''Call-ID: r1'', ''CSeq: 1 REGISTER'',
      ''Contact: <sip:1001@10.0.0.7:5060>'', ''Expires: 18446744073709551615'', ex_auth] @ CRLF"

theorem wrapped_expiry_not_registered_witness:
  "lookup 1000 ''1001'' (snd (handle_register ex_reg_cfg ex_env ex_wrap_register ex_peer Udp ex_challenged)) = None"
proof -
  have "authorised ex_reg_cfg ex_env ex_wrap_register ex_peer Udp ex_challenged ''1001''"
    "extract_contact_uri ex_wrap_register = Some (Some ''sip:1001@10.0.0.7:5060'')"
    "asked_expiry ex_wrap_register = Some 18446744073709551615" "(18446744073709551615 :: nat) \<noteq> 0"
    "env_now ex_env + of_nat 18446744073709551615 \<le> env_now ex_env"
    by code_simp+
  from wrapped_expiry_not_registered [OF this] show ?thesis by (auto simp: ex_env_def)
qed

end
