(* ===== verification/Location.thy ===== *)
theory Location
  imports Registrar
begin

text \<open>
  The registrar (\<open>src/sip/registrar.rs\<close>) as a location service. Its users only ask where an extension
  is; the abstract service answers that from the history alone: from the last authorised
  REGISTER of the extension or its sign-off. The registrar with its tables, nonces, failures
  and cleanup is shown to give the same answers after every history.
\<close>

section \<open>Histories of the registrar\<close>

datatype registrar_op =
  Handle reg_env string socket_addr transport
| Cleanup u64
| Fail u64 string
| Clear string
| Sign_Off string

fun do_op :: "reg_config \<Rightarrow> registrar_op \<Rightarrow> registrar \<Rightarrow> registrar" where
  "do_op cfg (Handle env request_text from_addr tp) st = snd (handle_register cfg env request_text from_addr tp st)"
| "do_op cfg (Cleanup now) st = cleanup_expired now st"
| "do_op cfg (Fail now ip) st = snd (record_failure cfg now ip st)"
| "do_op cfg (Clear ip) st = clear_failures ip st"
| "do_op cfg (Sign_Off extension) st = unregister extension st"

fun run_ops :: "reg_config \<Rightarrow> registrar_op list \<Rightarrow> registrar \<Rightarrow> registrar" where
  "run_ops cfg [] st = st"
| "run_ops cfg (op # ops) st = run_ops cfg ops (do_op cfg op st)"

lemma do_op_step: "reg_step cfg st (do_op cfg op st)"
  by (cases op) (simp_all add: reg_step.intros)

lemma step_is_op: "reg_step cfg st st' \<Longrightarrow> \<exists>op. st' = do_op cfg op st"
  by (erule reg_stepE) (metis do_op.simps)+

text \<open>These are all the histories.\<close>

lemma reach_is_run: "reg_reach cfg st \<longleftrightarrow> (\<exists>ops. st = run_ops cfg ops registrar_new)"
proof
  have snoc: "run_ops cfg (ops @ [op]) s = do_op cfg op (run_ops cfg ops s)" for ops op s
    by (induction ops arbitrary: s) simp_all
  show "\<exists>ops. st = run_ops cfg ops registrar_new" if "reg_reach cfg st"
    using that
  proof (induction rule: reg_reach.induct)
    case start
    show ?case by (rule exI [of _ "[]"]) simp
  next
    case (step st st')
    then show ?case using step_is_op [of cfg st st'] snoc by metis
  qed
  have "reg_reach cfg (run_ops cfg ops s)" if "reg_reach cfg s" for ops s
    using that by (induction ops arbitrary: s) (auto intro: reg_reach.step do_op_step)
  then show "reg_reach cfg st" if "\<exists>ops. st = run_ops cfg ops registrar_new"
    using that reg_reach.start by blast
qed

section \<open>The abstract service\<close>

datatype location_event = Bind registration | Unbind string | Silent

text \<open>What a REGISTER means for it: only an authorised one counts; an expiry of 0 signs off.\<close>

definition register_event ::
  "reg_config \<Rightarrow> reg_env \<Rightarrow> string \<Rightarrow> socket_addr \<Rightarrow> transport \<Rightarrow> registrar \<Rightarrow> location_event" where
  "register_event cfg env request_text from_addr tp st =
     (case register_extension request_text of
        Some (Some ext) \<Rightarrow>
          if \<not> authorised cfg env request_text from_addr tp st ext then Silent
          else
            (case (asked_expiry request_text, extract_contact_uri request_text) of
               (None, _) \<Rightarrow> Silent
             | (Some 0, _) \<Rightarrow> Unbind ext
             | (Some expires, None) \<Rightarrow> Silent
             | (Some expires, Some found) \<Rightarrow>
                 Bind \<lparr>reg_extension = ext,
                       reg_contact = (case found of Some c \<Rightarrow> c
                         | None \<Rightarrow> ''sip:'' @ ext @ ''@'' @ show_addr from_addr),
                       reg_expires_at = env_now env + of_nat expires,
                       reg_addr = from_addr, reg_transport = tp\<rparr>)
      | _ \<Rightarrow> Silent)"

fun op_event :: "reg_config \<Rightarrow> registrar_op \<Rightarrow> registrar \<Rightarrow> location_event" where
  "op_event cfg (Handle env request_text from_addr tp) st = register_event cfg env request_text from_addr tp st"
| "op_event cfg (Sign_Off extension) st = Unbind extension"
| "op_event cfg op st = Silent"

fun location_events :: "reg_config \<Rightarrow> registrar_op list \<Rightarrow> registrar \<Rightarrow> location_event list" where
  "location_events cfg [] st = []"
| "location_events cfg (op # ops) st = op_event cfg op st # location_events cfg ops (do_op cfg op st)"

fun located :: "string \<Rightarrow> registration option \<Rightarrow> location_event list \<Rightarrow> registration option" where
  "located ext b [] = b"
| "located ext b (Bind r # evs) = located ext (if reg_extension r = ext then Some r else b) evs"
| "located ext b (Unbind e # evs) = located ext (if e = ext then None else b) evs"
| "located ext b (Silent # evs) = located ext b evs"

definition live :: "u64 \<Rightarrow> registration option \<Rightarrow> registration option" where
  "live now b = (case b of Some r \<Rightarrow> if now < reg_expires_at r then Some r else None | None \<Rightarrow> None)"

section \<open>One operation\<close>

lemma finish_register_lookup:
  "lookup now e (snd (finish_register env req ext ip src tp st)) =
     (case (asked_expiry req, extract_contact_uri req) of
        (None, _) \<Rightarrow> lookup now e st
      | (Some 0, _) \<Rightarrow> if e = ext then None else lookup now e st
      | (Some expires, None) \<Rightarrow> lookup now e st
      | (Some expires, Some found) \<Rightarrow>
          (if e = ext then live now (Some \<lparr>reg_extension = ext,
             reg_contact = (case found of Some c \<Rightarrow> c | None \<Rightarrow> ''sip:'' @ ext @ ''@'' @ show_addr src),
             reg_expires_at = env_now env + of_nat expires, reg_addr = src, reg_transport = tp\<rparr>)
           else lookup now e st))"
proof -
  have c: "lookup now x (clear_failures ip st) = lookup now x st" for x
    by (rule lookup_registrations) (simp add: frame_simps)
  show ?thesis
    by (auto simp: finish_register_def Let_def reg.look_enrol reg.look_withdraw c live_def
        split: option.split nat.split)
qed

lemma handle_lookup:
  "lookup now e (snd (handle_register cfg env req src tp st)) =
     (case register_event cfg env req src tp st of
        Bind r \<Rightarrow> if reg_extension r = e then live now (Some r) else lookup now e st
      | Unbind x \<Rightarrow> if x = e then None else lookup now e st
      | Silent \<Rightarrow> lookup now e st)"
proof (cases rule: handle_register_cases [of cfg env req src tp st])
  case (accepted ext nonce nc qop)
  have v: "lookup now e (snd (validate_nonce n m i k q st)) = lookup now e st" for n m i k q
    by (rule lookup_registrations) (simp add: frame_simps)
  have x: "register_extension req = Some (Some ext)" using accepted(1) by (simp add: authorised_def)
  show ?thesis unfolding accepted(2) finish_register_lookup v
    using accepted(1) x by (auto simp: register_event_def split: option.split nat.split)
next
  case refused
  then have "register_event cfg env req src tp st = Silent"
    by (auto simp: register_event_def split: option.split)
  with lookup_registrations [OF refused(2)] show ?thesis by simp
qed

text \<open>Times of the cleanups: the clock does not go backwards.\<close>

fun op_before :: "u64 \<Rightarrow> registrar_op \<Rightarrow> bool" where
  "op_before now (Cleanup t) \<longleftrightarrow> t \<le> now"
| "op_before now op \<longleftrightarrow> True"

lemma do_op_lookup:
  assumes "op_before now op"
  shows "lookup now e (do_op cfg op st) =
     (case op_event cfg op st of
        Bind r \<Rightarrow> if reg_extension r = e then live now (Some r) else lookup now e st
      | Unbind x \<Rightarrow> if x = e then None else lookup now e st
      | Silent \<Rightarrow> lookup now e st)"
proof (cases op)
  case (Handle env req src tp)
  then show ?thesis by (simp add: handle_lookup)
next
  case (Fail t ip)
  then show ?thesis using lookup_registrations [of "snd (record_failure cfg t ip st)" st] by (simp add: frame_simps)
next
  case (Clear ip)
  then show ?thesis using lookup_registrations [of "clear_failures ip st" st] by (simp add: frame_simps)
qed (use assms in \<open>simp_all add: reg.look_purge reg.look_withdraw\<close>)

lemma run_ops_lookup:
  assumes "list_all (op_before now) ops" "lookup now e st = live now b"
  shows "lookup now e (run_ops cfg ops st) = live now (located e b (location_events cfg ops st))"
  using assms
proof (induction ops arbitrary: st b)
  case (Cons op ops)
  have none: "live now None = None" by (simp add: live_def)
  note d = do_op_lookup [of now op e cfg st]
  show ?case
  proof (cases "op_event cfg op st")
    case (Bind r)
    with d Cons.prems have "lookup now e (do_op cfg op st) = live now (if reg_extension r = e then Some r else b)"
      by simp
    from Cons.IH [OF _ this] Cons.prems(1) Bind show ?thesis by simp
  next
    case (Unbind x)
    with d Cons.prems none have "lookup now e (do_op cfg op st) = live now (if x = e then None else b)" by simp
    from Cons.IH [OF _ this] Cons.prems(1) Unbind show ?thesis by simp
  next
    case Silent
    with d Cons.prems have "lookup now e (do_op cfg op st) = live now b" by simp
    from Cons.IH [OF _ this] Cons.prems(1) Silent show ?thesis by simp
  qed
qed simp

section \<open>The refinement\<close>

text \<open>C3: the registrar is a location service. After every history, a lookup finds exactly the binding
  that the last authorised REGISTER of the extension made, if it was not a sign-off and its time
  is not over: no refused request, failure, nonce or cleanup changes an answer.\<close>

theorem lookup_is_last_registration:
  assumes "list_all (op_before now) ops"
  shows "lookup now ext (run_ops cfg ops registrar_new) =
     live now (located ext None (location_events cfg ops registrar_new))"
proof -
  have "lookup now ext registrar_new = live now None" by (simp add: lookup_def registrar_new_def live_def)
  from run_ops_lookup [OF assms this] show ?thesis .
qed

definition ex_ops :: "registrar_op list" where
  "ex_ops = [Handle ex_env (ex_register []) ex_peer Udp, Handle ex_env (ex_register ex_auth) ex_peer Udp,
     Cleanup 1100, Fail 1200 ''10.0.0.9'']"

lemma ex_events:
  "\<exists>r. location_events ex_reg_cfg ex_ops registrar_new = [Silent, Bind r, Silent, Silent] \<and>
     reg_extension r = ''1001'' \<and> reg_contact r = ''sip:1001@10.0.0.7:5060'' \<and> reg_expires_at r = 1600"
proof -
  have "extract_header_value (ex_register []) ''Authorization'' = None" by code_simp
  then have "register_event ex_reg_cfg ex_env (ex_register []) ex_peer Udp registrar_new = Silent"
    by (auto simp: register_event_def authorised_def credentials_ok_def split: option.split)
  moreover have "extract_contact_uri (ex_register ex_auth) = Some (Some ''sip:1001@10.0.0.7:5060'')"
    "asked_expiry (ex_register ex_auth) = Some 600" by code_simp+
  moreover have "register_extension (ex_register ex_auth) = Some (Some ''1001'')"
    using ex_authorised by (simp add: authorised_def)
  ultimately show ?thesis
    using ex_authorised by (simp add: ex_ops_def register_event_def ex_challenged_def ex_env_def)
qed

theorem lookup_is_last_registration_witness:
  "map_option reg_contact (lookup 1599 ''1001'' (run_ops ex_reg_cfg ex_ops registrar_new)) =
       Some ''sip:1001@10.0.0.7:5060'' \<and>
   lookup 1600 ''1001'' (run_ops ex_reg_cfg ex_ops registrar_new) = None"
proof -
  have "list_all (op_before 1599) ex_ops" "list_all (op_before 1600) ex_ops" by (simp_all add: ex_ops_def)
  note last = this [THEN lookup_is_last_registration, of "''1001''" ex_reg_cfg]
  with ex_events show ?thesis by (auto simp: live_def)
qed

end
