(* ===== verification/Outbound.thy ===== *)
theory Outbound
  imports Registrar
begin

text \<open>
  The message rewriting helpers of \<open>src/sip/router.rs\<close>: the request the server sends to the
  other leg (\<open>build_outbound_request_with_from\<close>), the INVITE response it sends back
  (\<open>build_forwarded_invite_response\<close>), and the small helpers both the router and the message
  service use. The lemmas show what of the incoming message reaches the other leg.
\<close>

section \<open>Addresses\<close>

definition server_contact_uri :: "string \<Rightarrow> string \<Rightarrow> transport \<Rightarrow> string" where
  "server_contact_uri extension domain tp =
     ''sip:'' @ extension @ ''@'' @ domain @ '';transport='' @ uri_param tp"

definition registered_contact_uri :: "u64 \<Rightarrow> string \<Rightarrow> string \<Rightarrow> registrar \<Rightarrow> string" where
  "registered_contact_uri now extension domain st =
     (case lookup now extension st of
        Some reg \<Rightarrow> reg_contact reg
      | None \<Rightarrow> server_contact_uri extension domain Tls)"

definition extract_called_extension :: "string \<Rightarrow> string option may_panic" where
  "extract_called_extension request =
     (let from_to = (case extract_uri_from_header request ''To'' of
                       None \<Rightarrow> None
                     | Some None \<Rightarrow> Some None
                     | Some (Some uri) \<Rightarrow> extract_extension uri)
      in case extract_request_uri request of
           None \<Rightarrow> from_to
         | Some uri \<Rightarrow>
             (case extract_extension uri of
                None \<Rightarrow> None
              | Some None \<Rightarrow> from_to
              | Some (Some ext) \<Rightarrow> Some (Some ext)))"

section \<open>Header lines\<close>

definition strip_unsupported_negotiation_header :: "string \<Rightarrow> string option" where
  "strip_unsupported_negotiation_header line =
     (case split_once (CHR '':'') line of
        None \<Rightarrow> Some line
      | Some (n, v) \<Rightarrow>
          (let name = trim n; name_lower = to_lower name in
           if name_lower \<in> {''session-expires'', ''x'', ''min-se''} then None
           else if name_lower \<in> {''supported'', ''k'', ''require'', ''proxy-require''} then
             (let option_tags = filter (\<lambda>tag. tag \<noteq> [] \<and> \<not> eq_ignore_ascii_case tag ''timer'' \<and>
                    \<not> eq_ignore_ascii_case tag ''100rel'') (map trim (split_char (CHR '','') v))
              in if option_tags = [] then None else Some (name @ '': '' @ join '', '' option_tags))
           else Some line))"

definition header_lines :: "string \<Rightarrow> string \<Rightarrow> string option \<Rightarrow> string list" where
  "header_lines msg name compact =
     filter (\<lambda>line. starts_with (to_lower line) (to_lower name @ '':'') \<or>
               (case compact of Some c \<Rightarrow> starts_with (to_lower line) (to_lower c @ '':'') | None \<Rightarrow> False))
       (takeWhile (\<lambda>line. line \<noteq> []) (map trim (lines msg)))"

definition first_header_line :: "string \<Rightarrow> string \<Rightarrow> string option \<Rightarrow> string option" where
  "first_header_line msg name compact =
     (case header_lines msg name compact of [] \<Rightarrow> None | l # _ \<Rightarrow> Some l)"

definition reason_phrase :: "string \<Rightarrow> string" where
  "reason_phrase response =
     (case lines response of
        [] \<Rightarrow> ''Unknown''
      | line # _ \<Rightarrow>
          (case splitn 3 (CHR '' '') line of
             _ # _ # r # _ \<Rightarrow> if trim r \<noteq> [] then trim r else ''Unknown''
           | _ \<Rightarrow> ''Unknown''))"

section \<open>The request for the other leg\<close>

text \<open>\<open>trimmed.split(';').skip(1).find_map(...)\<close>: the first trimmed piece with the tag.\<close>

definition tag_piece :: "string \<Rightarrow> string option" where
  "tag_piece trimmed =
     find (\<lambda>p. starts_with p ''tag='') (map trim (tl (split_char (CHR '';'') trimmed)))"

text \<open>The body of the header loop: the lines pushed, and whether a Contact was written.\<close>

definition outbound_line :: "string \<Rightarrow> string \<Rightarrow> string \<Rightarrow> string list \<times> bool" where
  "outbound_line contact_uri authenticated_from line =
     (let trimmed = trim line; lower = to_lower trimmed in
      if starts_with lower ''via:'' \<or> starts_with lower ''v:'' then ([], False)
      else if starts_with lower ''route:'' then ([], False)
      else if starts_with lower ''record-route:'' then ([], False)
      else if starts_with lower ''contact:'' \<or> starts_with lower ''m:'' then
        (if contact_uri \<noteq> [] then ([''Contact: <'' @ contact_uri @ ''>''], True) else ([], False))
      else if starts_with lower ''from:'' \<or> starts_with lower ''f:'' then
        (if authenticated_from \<noteq> [] then
           (case tag_piece trimmed of
              Some t \<Rightarrow> ([''From: <'' @ authenticated_from @ ''>;'' @ t], False)
            | None \<Rightarrow> ([''From: <'' @ authenticated_from @ ''>''], False))
         else ([line], False))
      else (case strip_unsupported_negotiation_header trimmed of
              Some l \<Rightarrow> ([l], False)
            | None \<Rightarrow> ([], False)))"

fun outbound_headers :: "string \<Rightarrow> string \<Rightarrow> string list \<Rightarrow> string list \<times> bool" where
  "outbound_headers contact_uri authenticated_from [] = ([], False)"
| "outbound_headers contact_uri authenticated_from (line # ls) =
     (if trim line = [] then ([], False)
      else (case (outbound_line contact_uri authenticated_from line,
                  outbound_headers contact_uri authenticated_from ls) of
              ((out, saw), (outs, saws)) \<Rightarrow> (out @ outs, saw \<or> saws)))"

definition build_outbound_request_with_from ::
  "string \<Rightarrow> string \<Rightarrow> string \<Rightarrow> string \<Rightarrow> string \<Rightarrow> transport \<Rightarrow> string \<Rightarrow> string" where
  "build_outbound_request_with_from request target_uri domain contact_uri authenticated_from tp branch =
     (case lines request of
        [] \<Rightarrow> request
      | first # rest \<Rightarrow>
          (let parts = split_whitespace first in
           if length parts \<noteq> 3 \<or> starts_with (parts ! 0) ''SIP/2.0'' then request
           else
             (let out = outbound_headers contact_uri authenticated_from rest;
                  rewritten =
                    [parts ! 0 @ '' '' @ target_uri @ '' '' @ parts ! 2,
                     ''Via: SIP/2.0/'' @ via_token tp @ '' '' @ domain @ '';branch='' @ branch]
                    @ fst out
                    @ (if contact_uri \<noteq> [] \<and> \<not> snd out then [''Contact: <'' @ contact_uri @ ''>''] else []);
                  body = (case extract_body request of Some b \<Rightarrow> b | None \<Rightarrow> [])
              in join CRLF rewritten @ CRLF @ CRLF @ body)))"

definition build_outbound_request ::
  "string \<Rightarrow> string \<Rightarrow> string \<Rightarrow> string \<Rightarrow> transport \<Rightarrow> string \<Rightarrow> string" where
  "build_outbound_request request target_uri domain contact_uri tp branch =
     build_outbound_request_with_from request target_uri domain contact_uri [] tp branch"

section \<open>The INVITE response for the caller\<close>

definition opt_line :: "string option \<Rightarrow> string" where
  "opt_line l = (case l of Some s \<Rightarrow> s @ CRLF | None \<Rightarrow> [])"

definition build_forwarded_invite_response ::
  "string \<Rightarrow> string \<Rightarrow> nat \<Rightarrow> string \<Rightarrow> string \<Rightarrow> string \<Rightarrow> string" where
  "build_forwarded_invite_response original_invite callee_response status_code reason contact_uri body =
     ''SIP/2.0 '' @ show_nat status_code @ '' '' @ reason @ CRLF
     @ concat (map (\<lambda>via. via @ CRLF) (header_lines original_invite ''Via'' (Some ''v'')))
     @ opt_line (first_header_line original_invite ''From'' (Some ''f''))
     @ (case first_header_line callee_response ''To'' (Some ''t'') of
          Some t \<Rightarrow> t
        | None \<Rightarrow> (case first_header_line original_invite ''To'' (Some ''t'') of
                     Some t \<Rightarrow> t
                   | None \<Rightarrow> ''To: <'' @ contact_uri @ ''>'')) @ CRLF
     @ opt_line (first_header_line original_invite ''Call-ID'' (Some ''i''))
     @ opt_line (first_header_line original_invite ''CSeq'' None)
     @ (if 200 \<le> status_code \<and> status_code < 300 then ''Contact: <'' @ contact_uri @ ''>'' @ CRLF else [])
     @ (if body \<noteq> [] then ''Content-Type: application/sdp'' @ CRLF else [])
     @ ''Content-Length: '' @ show_nat (length body) @ CRLF @ CRLF
     @ (if body \<noteq> [] then body else [])"

section \<open>The lines of the outbound request\<close>

definition outbound_lines ::
  "string \<Rightarrow> string \<Rightarrow> string \<Rightarrow> string \<Rightarrow> string \<Rightarrow> transport \<Rightarrow> string \<Rightarrow> string list" where
  "outbound_lines request target_uri domain contact_uri authenticated_from tp branch =
     (let parts = split_whitespace (hd (lines request));
          out = outbound_headers contact_uri authenticated_from (tl (lines request))
      in [parts ! 0 @ '' '' @ target_uri @ '' '' @ parts ! 2,
          ''Via: SIP/2.0/'' @ via_token tp @ '' '' @ domain @ '';branch='' @ branch]
         @ fst out
         @ (if contact_uri \<noteq> [] \<and> \<not> snd out then [''Contact: <'' @ contact_uri @ ''>''] else []))"

definition forwardable :: "string \<Rightarrow> bool" where
  "forwardable request \<longleftrightarrow> lines request \<noteq> [] \<and> length (split_whitespace (hd (lines request))) = 3 \<and>
     \<not> starts_with (split_whitespace (hd (lines request)) ! 0) ''SIP/2.0''"

lemma outbound_unlines:
  assumes "forwardable request"
  shows "build_outbound_request_with_from request target domain contact auth tp branch =
     unlines (outbound_lines request target domain contact auth tp branch) @ CRLF
       @ (case extract_body request of Some b \<Rightarrow> b | None \<Rightarrow> [])"
proof -
  obtain l ls where l: "lines request = l # ls" using assms by (cases "lines request") (auto simp: forwardable_def)
  have "join CRLF w @ CRLF = unlines w" if "w \<noteq> []" for w
    using that by (induction CRLF w rule: join.induct) simp_all
  note j = this [of "outbound_lines request target domain contact auth tp branch"]
  have "outbound_lines request target domain contact auth tp branch \<noteq> []"
    by (simp add: outbound_lines_def Let_def)
  with j have "unlines (outbound_lines request target domain contact auth tp branch) @ CRLF =
      join CRLF (outbound_lines request target domain contact auth tp branch) @ CRLF @ CRLF"
    by simp
  then show ?thesis using assms l
    by (simp add: build_outbound_request_with_from_def outbound_lines_def forwardable_def Let_def)
qed

lemma outbound_headers_split:
  "fst (outbound_headers contact auth ls) =
     concat (map (\<lambda>l. fst (outbound_line contact auth l)) (takeWhile (\<lambda>l. trim l \<noteq> []) ls))"
  "snd (outbound_headers contact auth ls) =
     (\<exists>l \<in> set (takeWhile (\<lambda>l. trim l \<noteq> []) ls). snd (outbound_line contact auth l))"
  by (induction ls) (auto split: prod.split)

section \<open>What passes the filter\<close>

definition has_prefix :: "string \<Rightarrow> string \<Rightarrow> bool" where
  "has_prefix p l = starts_with (to_lower (trim l)) p"

lemma to_lower_char_colon: "to_lower_char c = CHR '':'' \<longleftrightarrow> c = CHR '':''"
proof -
  let ?n = "of_char c :: nat"
  have "(of_char (CHR '':'') :: nat) = 58" by simp
  moreover have "char_of (?n + 32) \<noteq> (CHR '':'')" if "65 \<le> ?n" "?n \<le> 90"
  proof
    assume "char_of (?n + 32) = (CHR '':'')"
    then have "(of_char (char_of (?n + 32) :: char) :: nat) = of_char (CHR '':'')" by simp
    with that show False by simp
  qed
  ultimately show ?thesis by (auto simp: to_lower_char.simps Let_def)
qed

lemma split_header:
  assumes "starts_with (to_lower s) (p @ '':'')" "CHR '':'' \<notin> set p"
  shows "\<exists>n v. split_once (CHR '':'') s = Some (n, v) \<and> to_lower n = p"
proof -
  let ?k = "length p"
  from assms(1) obtain t where t: "to_lower s = p @ CHR '':'' # t" by (auto simp: starts_with_iff)
  then have "length (to_lower s) = ?k + Suc (length t)" by simp
  then have len: "?k < length s" by simp
  have tk: "to_lower (take ?k s) = p" using t by (metis append_eq_conv_conj take_map to_lower_def)
  have "to_lower_char (s ! ?k) = CHR '':''"
    using t len by (metis nth_append_length nth_map to_lower_def)
  then have c: "s ! ?k = CHR '':''" by (simp add: to_lower_char_colon)
  have "CHR '':'' \<notin> set (take ?k s)"
  proof
    assume "CHR '':'' \<in> set (take ?k s)"
    then have "to_lower_char (CHR '':'') \<in> set (to_lower (take ?k s))" by (auto simp: to_lower_def)
    with tk assms(2) to_lower_char_colon [of "CHR '':''"] show False by simp
  qed
  then have "find_char (CHR '':'') (take ?k s @ CHR '':'' # drop (Suc ?k) s) = Some (length (take ?k s))"
    by (rule find_char_here)
  moreover have "take ?k s @ CHR '':'' # drop (Suc ?k) s = s"
    using c len by (metis id_take_nth_drop)
  ultimately have "split_once (CHR '':'') s = Some (take ?k s, drop (Suc ?k) s)"
    using len by (simp add: split_once_def)
  with tk show ?thesis by blast
qed

lemma starts_with_trim:
  assumes "starts_with l q" "q \<noteq> []" "\<not> is_ws (hd q)" "\<not> is_ws (last q)"
  shows "starts_with (trim l) q"
proof -
  from assms(1) obtain r where l: "l = q @ r" by (auto simp: starts_with_iff)
  have ts: "trim_start l = l" using assms(2,3) l by (cases q) (auto simp: trim_start_def)
  show ?thesis
  proof (cases "\<exists>c \<in> set r. \<not> is_ws c")
    case True
    then obtain c where "c \<in> set r" "\<not> is_ws c" by blast
    then have "trim_end (q @ r) = q @ trim_end r" by (rule trim_end_append_nonws)
    with ts show ?thesis by (simp add: trim_def l)
  next
    case False
    then have "dropWhile is_ws (rev r @ rev q) = dropWhile is_ws (rev q)"
      by (intro dropWhile_append2) auto
    also have "\<dots> = rev q"
      using assms(2,4) by (cases "rev q") (auto simp: hd_rev [symmetric])
    finally have "trim_end (q @ r) = q" by (simp add: trim_end_def)
    with ts show ?thesis using starts_with_append [of q "[]"] by (simp add: trim_def l)
  qed
qed

lemma has_prefix_of:
  assumes "starts_with l q" "q \<noteq> []" "\<not> is_ws (hd q)" "\<not> is_ws (last q)"
  shows "has_prefix (to_lower q) l"
  using starts_with_trim [OF assms] by (auto simp: has_prefix_def starts_with_iff to_lower_append)

lemma has_prefix_trim [simp]: "has_prefix p (trim l) = has_prefix p l"
  by (simp add: has_prefix_def)

lemma has_prefix_both: "has_prefix p l \<Longrightarrow> has_prefix q l \<Longrightarrow> starts_with p q \<or> starts_with q p"
  unfolding has_prefix_def by (rule starts_with_both)

lemma is_ws_code: "is_ws c \<Longrightarrow> (of_char c :: nat) \<in> {9, 10, 11, 12, 13, 32}"
  by (auto simp: is_ws_def)

lemma is_ws_lower: "is_ws (to_lower_char c) = is_ws c"
proof -
  let ?n = "of_char c :: nat"
  have "\<not> is_ws (char_of (?n + 32))" if "65 \<le> ?n" "?n \<le> 90"
  proof
    assume "is_ws (char_of (?n + 32))"
    from is_ws_code [OF this] that show False by simp
  qed
  moreover have "\<not> is_ws c" if "65 \<le> ?n"
    using that is_ws_code [of c] by auto
  ultimately show ?thesis by (auto simp: to_lower_char.simps Let_def)
qed

lemma no_ws_trim: "\<forall>c \<in> set n. \<not> is_ws c \<Longrightarrow> trim n = n"
  by (cases "n = []") (simp_all add: trim_id)

lemma lower_no_ws:
  assumes "to_lower n = p" "\<forall>c \<in> set p. \<not> is_ws c"
  shows "trim n = n"
proof (rule no_ws_trim)
  show "\<forall>c \<in> set n. \<not> is_ws c"
  proof
    fix c assume "c \<in> set n"
    then have "to_lower_char c \<in> set p" using assms(1) by (auto simp: to_lower_def)
    with assms(2) show "\<not> is_ws c" using is_ws_lower by blast
  qed
qed

definition negotiation_names :: "string set" where
  "negotiation_names = {''supported'', ''k'', ''require'', ''proxy-require''}"

definition dropped_names :: "string set" where
  "dropped_names = {''session-expires'', ''x'', ''min-se''}"

lemma strip_keeps:
  assumes "starts_with (to_lower s) (p @ '':'')" "\<forall>c \<in> set p. \<not> is_ws c \<and> c \<noteq> CHR '':''"
    and "p \<notin> negotiation_names \<union> dropped_names"
  shows "strip_unsupported_negotiation_header s = Some s"
proof -
  from assms(2) have "CHR '':'' \<notin> set p" by blast
  from split_header [OF assms(1) this] obtain n v where n: "split_once (CHR '':'') s = Some (n, v)" "to_lower n = p"
    by blast
  have "trim n = n" using lower_no_ws [OF n(2)] assms(2) by blast
  with n assms(3) show ?thesis
    unfolding strip_unsupported_negotiation_header_def negotiation_names_def dropped_names_def Let_def
    by (simp only: option.case prod.case Un_iff) simp
qed

lemma strip_cases:
  assumes "strip_unsupported_negotiation_header s = Some l"
  shows "l = s \<or> (\<exists>name \<in> negotiation_names. has_prefix (name @ '':'') l)"
proof (cases "split_once (CHR '':'') s")
  case None
  then show ?thesis using assms by (simp add: strip_unsupported_negotiation_header_def)
next
  case (Some nv)
  obtain n v where nv: "nv = (n, v)" by (cases nv)
  let ?nm = "trim n"
  show ?thesis
  proof (cases "to_lower ?nm \<in> negotiation_names")
    case False
    then show ?thesis using assms Some nv
      by (simp add: strip_unsupported_negotiation_header_def negotiation_names_def Let_def
          split: if_splits)
  next
    case True
    then have ne: "?nm \<noteq> []" by (auto simp: negotiation_names_def)
    have "l = s \<or> (\<exists>r. l = (?nm @ '':'') @ r)"
      using assms Some nv
      by (auto simp: strip_unsupported_negotiation_header_def Let_def split: if_splits)
    then have "l = s \<or> starts_with l (?nm @ '':'')" using starts_with_append by blast
    then show ?thesis
    proof
      assume "starts_with l (?nm @ '':'')"
      then have "has_prefix (to_lower (?nm @ '':'')) l"
        using ne trim_hd_last(1) [OF ne] by (intro has_prefix_of) (simp_all, simp add: is_ws_def)
      moreover have "to_lower (?nm @ '':'') = to_lower ?nm @ '':''"
        by (simp add: to_lower_append) (simp add: to_lower_def to_lower_char_colon)
      ultimately show ?thesis using True by auto
    qed simp
  qed
qed

section \<open>What the other leg sees\<close>

definition hop_line :: "string \<Rightarrow> bool" where
  "hop_line l \<longleftrightarrow> via_line l \<or> has_prefix ''route:'' l \<or> has_prefix ''record-route:'' l"

definition contact_line :: "string \<Rightarrow> bool" where
  "contact_line l \<longleftrightarrow> has_prefix ''contact:'' l \<or> has_prefix ''m:'' l"

lemmas prefix_kinds = hop_line_def contact_line_def via_line_def from_line_def
  call_id_line_def cseq_line_def has_prefix_def [symmetric]

lemma prefix_exclusive:
  "has_prefix p l \<Longrightarrow> \<not> starts_with p q \<Longrightarrow> \<not> starts_with q p \<Longrightarrow> \<not> has_prefix q l"
  using has_prefix_both by blast

lemma written_contact: "has_prefix ''contact:'' (''Contact: <'' @ c @ ''>'')"
proof -
  have "has_prefix (to_lower ''Contact:'') (''Contact: <'' @ c @ ''>'')"
    by (rule has_prefix_of) (simp_all add: is_ws_def)
  moreover have "to_lower ''Contact:'' = ''contact:''" by code_simp
  ultimately show ?thesis by simp
qed

lemma written_from: "has_prefix ''from:'' (''From: <'' @ r)"
proof -
  have "has_prefix (to_lower ''From:'') (''From: <'' @ r)"
    by (rule has_prefix_of) (simp_all add: is_ws_def)
  moreover have "to_lower ''From:'' = ''from:''" by code_simp
  ultimately show ?thesis by simp
qed

lemma negotiation_exclusive:
  "name \<in> negotiation_names \<Longrightarrow> has_prefix (name @ '':'') l \<Longrightarrow>
   \<not> hop_line l \<and> \<not> contact_line l \<and> \<not> from_line l \<and> \<not> call_id_line l \<and> \<not> cseq_line l"
  unfolding prefix_kinds negotiation_names_def
  by (auto dest: has_prefix_both)

definition outbound_ok :: "string \<Rightarrow> string \<Rightarrow> string \<Rightarrow> bool" where
  "outbound_ok contact auth l \<longleftrightarrow>
     \<not> hop_line l \<and>
     (contact_line l \<longrightarrow> l = ''Contact: <'' @ contact @ ''>'') \<and>
     (auth \<noteq> [] \<and> from_line l \<longrightarrow> starts_with l (''From: <'' @ auth @ ''>''))"

lemma written_exclusive:
  "has_prefix ''contact:'' l \<Longrightarrow> \<not> hop_line l \<and> \<not> from_line l \<and> \<not> call_id_line l \<and> \<not> cseq_line l"
  "has_prefix ''from:'' l \<Longrightarrow> \<not> hop_line l \<and> \<not> contact_line l \<and> \<not> call_id_line l \<and> \<not> cseq_line l"
  unfolding prefix_kinds by (auto dest: has_prefix_both)

lemma contact_ok: "outbound_ok contact auth (''Contact: <'' @ contact @ ''>'')"
  unfolding outbound_ok_def using written_exclusive(1) [OF written_contact] by blast

lemma from_ok: "outbound_ok contact auth (''From: <'' @ auth @ ''>'' @ r)"
  unfolding outbound_ok_def using written_exclusive(2) [OF written_from [of "auth @ ''>'' @ r"]]
    starts_with_append [of "''From: <'' @ auth @ ''>''" r]
  by (simp only: append_assoc) blast

lemma outbound_line_ok:
  assumes "l \<in> set (fst (outbound_line contact auth line))"
  shows "outbound_ok contact auth l"
proof -
  let ?low = "to_lower (trim line)"
  have px: "starts_with ?low p = has_prefix p line" for p by (simp add: has_prefix_def)
  consider (hop) "hop_line line" | (con) "\<not> hop_line line" "contact_line line"
    | (frm) "\<not> hop_line line" "\<not> contact_line line" "from_line line"
    | (rest) "\<not> hop_line line" "\<not> contact_line line" "\<not> from_line line" by blast
  then show ?thesis
  proof cases
    case hop
    then show ?thesis using assms
      by (auto simp: outbound_line_def Let_def prefix_kinds px split: if_splits)
  next
    case con
    then show ?thesis using assms contact_ok
      by (auto simp: outbound_line_def Let_def prefix_kinds px split: if_splits)
  next
    case frm
    show ?thesis
    proof (cases "auth = []")
      case True
      then have "l = line" using frm assms
        by (auto simp: outbound_line_def Let_def prefix_kinds px split: if_splits)
      with True frm show ?thesis by (simp add: outbound_ok_def)
    next
      case False
      then have "l = ''From: <'' @ auth @ ''>'' \<or> (\<exists>t. l = ''From: <'' @ auth @ ''>;'' @ t)"
        using frm assms by (auto simp: outbound_line_def Let_def prefix_kinds px split: if_splits option.splits)
      then show ?thesis
        using from_ok [of contact auth "[]"] from_ok [of contact auth "CHR '';'' # t" for t]
        by (elim disjE exE) simp_all
    qed
  next
    case rest
    then have "strip_unsupported_negotiation_header (trim line) = Some l"
      using assms by (auto simp: outbound_line_def Let_def prefix_kinds px split: if_splits option.splits)
    from strip_cases [OF this] show ?thesis
    proof
      assume "l = trim line"
      then have "\<not> hop_line l" "\<not> contact_line l" "\<not> from_line l"
        using rest by (simp_all add: hop_line_def contact_line_def)
      then show ?thesis by (simp add: outbound_ok_def)
    next
      assume "\<exists>name \<in> negotiation_names. has_prefix (name @ '':'') l"
      then show ?thesis using negotiation_exclusive by (auto simp: outbound_ok_def)
    qed
  qed
qed

section \<open>Its text\<close>

definition one_line :: "string \<Rightarrow> bool" where
  "one_line s \<longleftrightarrow> LF \<notin> set s"

lemma one_line_simps [simp]:
  "one_line (s @ t) \<longleftrightarrow> one_line s \<and> one_line t" "one_line []"
  "one_line (c # s) \<longleftrightarrow> c \<noteq> LF \<and> one_line s"
  by (auto simp: one_line_def)

lemma one_line_subset: "set t \<subseteq> set s \<Longrightarrow> one_line s \<Longrightarrow> one_line t"
  by (auto simp: one_line_def)

lemma one_line_trim [simp]: "one_line s \<Longrightarrow> one_line (trim s)"
  by (rule one_line_subset [OF set_trim])

lemma one_line_piece: "w \<in> set (split_char x s) \<Longrightarrow> one_line s \<Longrightarrow> one_line w"
  using split_on_pieces by (auto simp: one_line_def split_char_def)

lemma LF_consts: "LF \<notin> {CHR '':'', CHR '' '', CHR '','', CHR '';'', CHR ''<'', CHR ''>''}"
  by (simp add: LF_def)

lemma one_line_join: "one_line sep \<Longrightarrow> \<forall>w \<in> set ws. one_line w \<Longrightarrow> one_line (join sep ws)"
  unfolding one_line_def by (rule join_no_LF)

lemma strip_one_line:
  assumes "strip_unsupported_negotiation_header s = Some l" "one_line s"
  shows "one_line l"
proof (cases "split_once (CHR '':'') s")
  case None
  then show ?thesis using assms by (simp add: strip_unsupported_negotiation_header_def)
next
  case (Some nv)
  obtain n v where nv: "nv = (n, v)" by (cases nv)
  have n: "one_line n" "one_line v"
    using Some nv assms(2) set_take_subset set_drop_subset
    by (auto simp: split_once_def one_line_def dest: in_set_takeD in_set_dropD)
  let ?tags = "filter (\<lambda>tag. tag \<noteq> [] \<and> \<not> eq_ignore_ascii_case tag ''timer'' \<and>
       \<not> eq_ignore_ascii_case tag ''100rel'') (map trim (split_char (CHR '','') v))"
  have "one_line (join '', '' ?tags)"
    using n(2) one_line_piece by (intro one_line_join) (auto simp: LF_def)
  moreover have "l = s \<or> l = trim n @ '': '' @ join '', '' ?tags"
    using assms(1) Some nv
    by (auto simp: strip_unsupported_negotiation_header_def Let_def split: if_splits)
  ultimately show ?thesis using assms(2) n by (auto simp: LF_def)
qed

lemma tag_piece_one_line:
  assumes "tag_piece s = Some t" "one_line s"
  shows "one_line t"
proof -
  have "t \<in> set (map trim (tl (split_char (CHR '';'') s)))"
    using assms(1) by (auto simp: tag_piece_def find_Some_iff)
  then obtain w where "w \<in> set (split_char (CHR '';'') s)" "t = trim w"
    by (auto dest: list.set_sel(2) [rotated] simp: split_char_def)
  then show ?thesis using one_line_piece assms(2) by simp
qed

lemma has_prefix_nonblank: "has_prefix p l \<Longrightarrow> p \<noteq> [] \<Longrightarrow> trim l \<noteq> []"
  by (auto simp: has_prefix_def dest: starts_with_length)

lemma outbound_line_text:
  assumes "l \<in> set (fst (outbound_line contact auth line))" "trim line \<noteq> []"
    and "one_line line" "one_line contact" "one_line auth"
  shows "trim l \<noteq> [] \<and> one_line l"
proof -
  have "l = ''Contact: <'' @ contact @ ''>'' \<or> l = ''From: <'' @ auth @ ''>'' \<or>
      (\<exists>t. tag_piece (trim line) = Some t \<and> l = ''From: <'' @ auth @ ''>;'' @ t) \<or> l = line \<or>
      strip_unsupported_negotiation_header (trim line) = Some l"
    using assms(1) by (auto simp: outbound_line_def Let_def split: if_splits option.splits)
  then show ?thesis
  proof (elim disjE exE conjE)
    assume l: "l = ''Contact: <'' @ contact @ ''>''"
    have "trim l \<noteq> []" unfolding l by (rule has_prefix_nonblank [OF written_contact]) simp
    then show ?thesis using l assms(4) by (simp add: LF_def)
  next
    assume l: "l = ''From: <'' @ auth @ ''>''"
    have "trim l \<noteq> []" unfolding l by (rule has_prefix_nonblank [OF written_from]) simp
    then show ?thesis using l assms(5) by (simp add: LF_def)
  next
    fix t assume t: "tag_piece (trim line) = Some t" and l: "l = ''From: <'' @ auth @ ''>;'' @ t"
    have "trim l \<noteq> []" unfolding l by (rule has_prefix_nonblank [OF written_from]) simp
    moreover have "one_line t" using tag_piece_one_line [OF t] assms(3) by simp
    ultimately show ?thesis using l assms(5) by (simp add: LF_def)
  next
    assume st: "strip_unsupported_negotiation_header (trim line) = Some l"
    have "trim l \<noteq> []"
      using strip_cases [OF st] assms(2) has_prefix_nonblank by (auto simp: negotiation_names_def)
    with strip_one_line [OF st] assms(3) show ?thesis by simp
  qed (use assms in simp)
qed

section \<open>Identity of the forwarded request\<close>

lemma hd_split_on: "hd (split_on P s) = takeWhile (\<lambda>c. \<not> P c) s"
  by (induction s) (auto split: list.splits)

lemma split_whitespace_hd:
  assumes "s \<noteq> []" "\<not> is_ws (hd s)"
  shows "\<exists>ws. split_whitespace s = takeWhile (\<lambda>c. \<not> is_ws c) s # ws"
proof -
  obtain w ws where w: "split_on is_ws s = w # ws" by (cases "split_on is_ws s") auto
  then have "w = takeWhile (\<lambda>c. \<not> is_ws c) s" using hd_split_on [of is_ws s] by simp
  moreover have "w \<noteq> []" using assms calculation by (cases s) auto
  ultimately show ?thesis using w by (simp add: split_whitespace_def)
qed

lemma starts_with_word:
  "\<forall>c \<in> set q. \<not> is_ws c \<Longrightarrow> starts_with (takeWhile (\<lambda>c. \<not> is_ws c) u) q = starts_with u q"
  by (induction u q rule: starts_with.induct) auto

lemma first_word:
  assumes "split_whitespace s = w # ws"
  shows "w = takeWhile (\<lambda>c. \<not> is_ws c) (trim s)" "trim s \<noteq> []"
proof -
  show ne: "trim s \<noteq> []"
    using assms split_whitespace_trim [of s] by (auto simp: split_whitespace_def)
  show "w = takeWhile (\<lambda>c. \<not> is_ws c) (trim s)"
    using split_whitespace_hd [OF ne] trim_hd_last(1) [OF ne] assms split_whitespace_trim [of s] by auto
qed

lemma first_word_prefix:
  assumes "split_whitespace s = w # ws" "\<forall>c \<in> set q. \<not> is_ws c"
  shows "starts_with (trim s) q = starts_with w q"
  using starts_with_word [OF assms(2), of "trim s"] first_word(1) [OF assms(1)] by simp

lemma first_word_has_prefix:
  assumes "split_whitespace s = w # ws" "\<forall>c \<in> set q. \<not> is_ws c"
  shows "has_prefix q s = starts_with (to_lower w) q"
proof -
  have "to_lower w = takeWhile (\<lambda>c. \<not> is_ws c) (to_lower (trim s))"
    using first_word(1) [OF assms(1)] by (simp add: to_lower_def takeWhile_map comp_def is_ws_lower)
  with starts_with_word [OF assms(2), of "to_lower (trim s)"] show ?thesis
    by (simp add: has_prefix_def)
qed

lemma head_lines_unlines:
  assumes "\<forall>l \<in> set ls. trim l \<noteq> [] \<and> one_line l"
  shows "head_lines (unlines ls @ CRLF @ body) = ls"
proof -
  have "lines (unlines ls @ CRLF @ body) = ls @ [] # lines body"
    using assms by (intro lines_response) (simp add: one_line_def)
  then show ?thesis using assms by (simp add: head_lines_def)
qed

text \<open>The parts the server adds are one line each, and the target is one word.\<close>

definition outbound_params :: "string \<Rightarrow> string \<Rightarrow> string \<Rightarrow> string \<Rightarrow> string \<Rightarrow> bool" where
  "outbound_params target domain contact auth branch \<longleftrightarrow>
     target \<noteq> [] \<and> list_all (\<lambda>c. \<not> is_ws c) target \<and> one_line domain \<and> one_line contact \<and>
     one_line auth \<and> one_line branch"

lemma split_whitespace_words:
  assumes "\<forall>w \<in> set ws. w \<noteq> [] \<and> (\<forall>c \<in> set w. \<not> is_ws c)"
  shows "split_whitespace (join '' '' ws) = ws"
  using assms
proof (induction "'' ''" ws rule: join.induct)
  case 1
  then show ?case by (simp add: split_whitespace_def)
next
  case (2 w)
  then show ?case using split_on_none [of w is_ws] by (simp add: split_whitespace_def)
next
  case (3 w v ws)
  then have "split_on is_ws (w @ CHR '' '' # join '' '' (v # ws)) = w # split_on is_ws (join '' '' (v # ws))"
    by (intro split_on_append) (simp_all add: is_ws_def)
  with 3 show ?case by (simp add: split_whitespace_def)
qed

lemma split_whitespace_parts: "w \<in> set (split_whitespace s) \<Longrightarrow> w \<noteq> [] \<and> (\<forall>c \<in> set w. \<not> is_ws c)"
  using split_on_pieces by (auto simp: split_whitespace_def)

definition request_line :: "string \<Rightarrow> string \<Rightarrow> string" where
  "request_line request target =
     join '' '' [split_whitespace (hd (lines request)) ! 0, target, split_whitespace (hd (lines request)) ! 2]"

lemma request_word:
  assumes "forwardable request" "k < 3"
  shows "split_whitespace (hd (lines request)) ! k \<noteq> []"
    "\<forall>c \<in> set (split_whitespace (hd (lines request)) ! k). \<not> is_ws c"
    "one_line (split_whitespace (hd (lines request)) ! k)"
proof -
  have "split_whitespace (hd (lines request)) ! k \<in> set (split_whitespace (hd (lines request)))"
    using assms by (simp add: forwardable_def)
  then show "split_whitespace (hd (lines request)) ! k \<noteq> []"
    "\<forall>c \<in> set (split_whitespace (hd (lines request)) ! k). \<not> is_ws c"
    "one_line (split_whitespace (hd (lines request)) ! k)"
    using split_whitespace_parts split_whitespace_no_LF by (auto simp: one_line_def)
qed

lemma split_request_line:
  assumes "forwardable request" "target \<noteq> []" "list_all (\<lambda>c. \<not> is_ws c) target"
  shows "split_whitespace (request_line request target) =
     [split_whitespace (hd (lines request)) ! 0, target, split_whitespace (hd (lines request)) ! 2]"
  unfolding request_line_def
  using assms(2,3) request_word [OF assms(1), of 0] request_word [OF assms(1), of 2]
  by (intro split_whitespace_words) (simp add: list_all_iff)

definition server_via :: "transport \<Rightarrow> string \<Rightarrow> string \<Rightarrow> string" where
  "server_via tp domain branch = ''Via: SIP/2.0/'' @ via_token tp @ '' '' @ domain @ '';branch='' @ branch"

lemma outbound_lines_eq:
  "outbound_lines request target domain contact auth tp branch =
     request_line request target # server_via tp domain branch
       # fst (outbound_headers contact auth (tl (lines request)))
       @ (if contact \<noteq> [] \<and> \<not> snd (outbound_headers contact auth (tl (lines request)))
          then [''Contact: <'' @ contact @ ''>''] else [])"
  by (simp add: outbound_lines_def request_line_def server_via_def Let_def)

lemma outbound_rest_cases:
  assumes "l \<in> set (fst (outbound_headers contact auth ls))"
  shows "\<exists>line \<in> set ls. trim line \<noteq> [] \<and> l \<in> set (fst (outbound_line contact auth line))"
  using assms by (auto simp: outbound_headers_split dest: set_takeWhileD)

lemma outbound_lines_text:
  assumes "forwardable request" "outbound_params target domain contact auth branch"
  shows "\<forall>l \<in> set (outbound_lines request target domain contact auth tp branch). trim l \<noteq> [] \<and> one_line l"
proof -
  have p: "target \<noteq> []" "list_all (\<lambda>c. \<not> is_ws c) target" "one_line domain" "one_line contact"
    "one_line auth" "one_line branch"
    using assms(2) by (simp_all add: outbound_params_def)
  note sp = split_request_line [OF assms(1) p(1,2)]
  have r1: "trim (request_line request target) \<noteq> []" using first_word(2) [OF sp] .
  have "is_ws LF" by (simp add: is_ws_def LF_def)
  then have "one_line target" using p(2) by (auto simp: one_line_def list_all_iff)
  then have r2: "one_line (request_line request target)"
    using request_word(3) [OF assms(1), of 0] request_word(3) [OF assms(1), of 2]
    by (simp add: request_line_def) (simp add: LF_def)
  have v1: "trim (server_via tp domain branch) \<noteq> []"
    by (rule trim_hd) (simp_all add: server_via_def is_ws_def)
  have v2: "one_line (server_via tp domain branch)"
    using p by (cases tp) (simp_all add: server_via_def LF_def)
  have c: "trim (''Contact: <'' @ contact @ ''>'') \<noteq> []" "one_line (''Contact: <'' @ contact @ ''>'')"
    using has_prefix_nonblank [OF written_contact, of contact] p by (simp_all add: LF_def)
  have h: "trim l \<noteq> [] \<and> one_line l"
    if l: "l \<in> set (fst (outbound_headers contact auth (tl (lines request))))" for l
  proof -
    obtain line where line: "line \<in> set (tl (lines request))" "trim line \<noteq> []"
      "l \<in> set (fst (outbound_line contact auth line))"
      using outbound_rest_cases [OF l] by blast
    then have "one_line line"
      using lines_no_LF [of line request] by (cases "lines request") (auto simp: one_line_def)
    with outbound_line_text [OF line(3,2)] p show ?thesis by blast
  qed
  show ?thesis unfolding outbound_lines_eq using r1 r2 v1 v2 c h by (auto simp del: append_Cons)
qed

lemma forwarded_head:
  assumes "forwardable request" "outbound_params target domain contact auth branch"
  shows "head_lines (build_outbound_request_with_from request target domain contact auth tp branch) =
     outbound_lines request target domain contact auth tp branch"
  unfolding outbound_unlines [OF assms(1)]
  by (rule head_lines_unlines) (rule outbound_lines_text [OF assms])

lemma filter_concat_map:
  "filter P (concat (map f xs)) = concat (map (\<lambda>x. filter P (f x)) xs)"
  by (induction xs) simp_all

lemma outbound_line_kinds:
  assumes "K = call_id_line \<or> K = cseq_line"
  shows "filter K (fst (outbound_line contact auth line)) = (if K line then [trim line] else [])"
proof -
  have px: "starts_with (to_lower (trim line)) p = has_prefix p line" for p by (simp add: has_prefix_def)
  note ex = written_exclusive(1) [OF written_contact] written_exclusive(2) [OF written_from]
  have kt: "K (trim l) = K l" for l using assms by auto
  show ?thesis
  proof (cases "K line")
    case True
    have n: "\<not> hop_line line" "\<not> contact_line line" "\<not> from_line line"
      using True assms unfolding prefix_kinds by (auto dest: has_prefix_both)
    have "strip_unsupported_negotiation_header (trim line) = Some (trim line)"
    proof -
      have k: "strip_unsupported_negotiation_header (trim line) = Some (trim line)"
        if "starts_with (to_lower (trim line)) (p @ '':'')" "p \<in> {''call-id'', ''i'', ''cseq''}" for p
        using that by (intro strip_keeps [of _ p]) (auto simp: negotiation_names_def dropped_names_def is_ws_def)
      show ?thesis
        using True assms k [of "''call-id''"] k [of "''i''"] k [of "''cseq''"]
        by (auto simp: call_id_line_def cseq_line_def)
    qed
    then show ?thesis using True n kt
      by (auto simp: outbound_line_def Let_def px prefix_kinds)
  next
    case False
    have "\<not> K l" if "l \<in> set (fst (outbound_line contact auth line))" for l
    proof -
      have "l = ''Contact: <'' @ contact @ ''>'' \<or> (\<exists>r. l = ''From: <'' @ r) \<or> l = line \<or>
          strip_unsupported_negotiation_header (trim line) = Some l"
        using that by (auto simp: outbound_line_def Let_def split: if_splits option.splits)
      then show ?thesis
      proof (elim disjE exE)
        assume "strip_unsupported_negotiation_header (trim line) = Some l"
        from strip_cases [OF this] show ?thesis
          using False kt negotiation_exclusive assms by auto
      qed (use False ex assms in auto)
    qed
    then show ?thesis using False by (simp add: filter_empty_conv)
  qed
qed

lemma outbound_headers_kinds:
  assumes "K = call_id_line \<or> K = cseq_line"
  shows "filter K (fst (outbound_headers contact auth ls)) =
     map trim (filter K (takeWhile (\<lambda>l. trim l \<noteq> []) ls))"
proof -
  have "concat (map (\<lambda>l. if K l then [trim l] else []) xs) = map trim (filter K xs)" for xs
    by (induction xs) simp_all
  then show ?thesis
    by (simp add: outbound_headers_split filter_concat_map outbound_line_kinds [OF assms])
qed

lemma request_line_kind:
  assumes "forwardable request" "target \<noteq> []" "list_all (\<lambda>c. \<not> is_ws c) target"
    and "\<forall>c \<in> set q. \<not> is_ws c"
  shows "has_prefix q (request_line request target) = has_prefix q (hd (lines request))"
proof -
  obtain w ws where "split_whitespace (hd (lines request)) = w # ws"
    using assms(1) by (cases "split_whitespace (hd (lines request))") (auto simp: forwardable_def)
  with split_request_line [OF assms(1-3)] show ?thesis
    using first_word_has_prefix [OF _ assms(4)] by fastforce
qed

text \<open>A request that has its Call-ID and CSeq among its header lines.\<close>

definition identified_request :: "string \<Rightarrow> bool" where
  "identified_request request \<longleftrightarrow> forwardable request \<and>
     \<not> call_id_line (hd (lines request)) \<and> \<not> cseq_line (hd (lines request)) \<and>
     list_ex call_id_line (takeWhile (\<lambda>l. trim l \<noteq> []) (tl (lines request))) \<and>
     list_ex cseq_line (takeWhile (\<lambda>l. trim l \<noteq> []) (tl (lines request)))"

lemma forwarded_filter:
  assumes "identified_request request" "outbound_params target domain contact auth branch"
    and "K = call_id_line \<or> K = cseq_line"
  shows "\<exists>l t t'. filter K (lines request) = l # t \<and>
     filter K (lines (build_outbound_request_with_from request target domain contact auth tp branch)) = trim l # t'"
proof -
  have fw: "forwardable request" using assms(1) by (simp add: identified_request_def)
  have p: "target \<noteq> []" "list_all (\<lambda>c. \<not> is_ws c) target"
    using assms(2) by (simp_all add: outbound_params_def)
  obtain first rest where ls: "lines request = first # rest" using fw by (cases "lines request") (auto simp: forwardable_def)
  let ?hd = "takeWhile (\<lambda>l. trim l \<noteq> []) rest"
  obtain l t where lt: "filter K ?hd = l # t"
    using assms(1,3) ls by (cases "filter K ?hd") (auto simp: identified_request_def filter_empty_conv list_ex_iff)
  have "rest = ?hd @ dropWhile (\<lambda>l. trim l \<noteq> []) rest" by simp
  then have "filter K rest = l # t @ filter K (dropWhile (\<lambda>l. trim l \<noteq> []) rest)"
    using lt by (metis append_Cons filter_append)
  moreover have nf: "\<not> K first" using assms(1,3) ls by (auto simp: identified_request_def)
  ultimately have req: "filter K (lines request) = l # t @ filter K (dropWhile (\<lambda>l. trim l \<noteq> []) rest)"
    using ls by simp
  have "\<not> K (request_line request target)"
    using nf assms(3) request_line_kind [OF fw p] ls unfolding prefix_kinds by (auto simp: is_ws_def)
  moreover have "\<not> K (server_via tp domain branch)"
  proof -
    have "has_prefix (to_lower ''Via:'') (server_via tp domain branch)"
      by (rule has_prefix_of) (simp_all add: server_via_def is_ws_def)
    moreover have "to_lower ''Via:'' = ''via:''" by code_simp
    ultimately show ?thesis using assms(3) unfolding prefix_kinds by (auto dest: has_prefix_both)
  qed
  ultimately have "\<exists>t'. filter K (outbound_lines request target domain contact auth tp branch) = trim l # t'"
    using outbound_headers_kinds [OF assms(3), of contact auth rest] ls lt
    by (simp add: outbound_lines_eq)
  moreover have "lines (build_outbound_request_with_from request target domain contact auth tp branch) =
      outbound_lines request target domain contact auth tp branch
      @ [] # lines (case extract_body request of Some b \<Rightarrow> b | None \<Rightarrow> [])"
    unfolding outbound_unlines [OF fw]
    using outbound_lines_text [OF fw assms(2), of tp] by (intro lines_response) (simp add: one_line_def)
  ultimately show ?thesis using req by (metis append_Cons filter_append)
qed

lemma extract_body_unlines:
  assumes "ls \<noteq> []" "\<forall>l \<in> set ls. trim l \<noteq> [] \<and> one_line l"
  shows "extract_body (unlines ls @ CRLF @ body) = (if body \<noteq> [] then Some body else None)"
proof -
  obtain hs l where ls: "ls = hs @ [l]" using assms(1) by (cases ls rule: rev_cases) auto
  have h: "header_line x" if "x \<in> set ls" for x
    using assms(2) that by (auto simp: header_line_def one_line_def)
  have "find_str (CRLF @ CRLF) (unlines (hs @ [l]) @ CRLF @ body) = Some (length (unlines hs @ l))"
    using h ls by (intro find_header_end) auto
  then show ?thesis by (simp add: extract_body_def ls Let_def)
qed

section \<open>Properties\<close>

definition ex_forwarded :: string where
  "ex_forwarded = unlines
     [''MESSAGE sip:1002@pbx SIP/2.0'', ''Via: SIP/2.0/UDP 10.0.0.7:5060;branch=z9hG4bKa1'',
      ''Route: <sip:evil>'', ''From: <sip:boss@pbx>;tag=77'', ''To: <sip:1002@pbx>'', ''Call-ID: c-1'',
      ''CSeq: 1 MESSAGE'', ''Supported: timer, path'', ''Content-Length: 2''] @ CRLF @ ''hi''"



text \<open>What the other leg can rely on. The forwarded request carries the body and the Call-ID of
  the original, and its request URI is the target.\<close>

theorem forwarded_same_message:
  assumes "identified_request request" "outbound_params target domain contact auth branch"
  shows "let fwd = build_outbound_request_with_from request target domain contact auth tp branch in
     extract_body fwd = extract_body request \<and> extract_request_uri fwd = Some target \<and>
     extract_call_id fwd = extract_call_id request"
proof -
  let ?fwd = "build_outbound_request_with_from request target domain contact auth tp branch"
  let ?ls = "outbound_lines request target domain contact auth tp branch"
  have fw: "forwardable request" using assms(1) by (simp add: identified_request_def)
  have p: "target \<noteq> []" "list_all (\<lambda>c. \<not> is_ws c) target" using assms(2) by (simp_all add: outbound_params_def)
  note wf = outbound_lines_text [OF fw assms(2), of tp]
  have b: "extract_body ?fwd = extract_body request"
    unfolding outbound_unlines [OF fw]
    using extract_body_unlines [OF _ wf, of "case extract_body request of Some b \<Rightarrow> b | None \<Rightarrow> []"]
    by (auto simp: outbound_lines_eq extract_body_def Let_def split: option.splits if_splits)
  have f: "first_line ?fwd = Some (trim (request_line request target))"
    unfolding outbound_unlines [OF fw] using wf
    by (simp add: outbound_lines_eq first_line_def lines_line one_line_def)
  note sp = split_request_line [OF fw p]
  have "\<not> starts_with (trim (request_line request target)) ''SIP/2.0''"
    using first_word_prefix [OF sp, of "''SIP/2.0''"] fw by (simp add: forwardable_def is_ws_def)
  then have u: "extract_request_uri ?fwd = Some target"
    using f sp by (simp add: extract_request_uri_def split_whitespace_trim)
  obtain l t t' where "filter call_id_line (lines request) = l # t" "filter call_id_line (lines ?fwd) = trim l # t'"
    using forwarded_filter [OF assms, of call_id_line tp] by blast
  moreover have "call_id_lines (trim l # t') = call_id_lines (l # t)" if "call_id_line l" for l t t'
    using that by (auto simp: call_id_line_def Let_def)
  moreover have "call_id_line l" using calculation(1) by (auto dest: filter_eq_ConsD)
  ultimately have "extract_call_id ?fwd = extract_call_id request"
    unfolding extract_call_id_def by (metis call_id_lines_filter)
  with b u show ?thesis by simp
qed

theorem forwarded_same_message_witness:
  "extract_body (build_outbound_request_with_from ex_forwarded ''sip:1002@10.0.0.9'' ''pbx''
     ''sip:1001@pbx'' ''sip:1001@pbx'' Udp ''z9'') = Some ''hi''"
proof -
  have "identified_request ex_forwarded"
    "outbound_params ''sip:1002@10.0.0.9'' ''pbx'' ''sip:1001@pbx'' ''sip:1001@pbx'' ''z9''"
    unfolding outbound_params_def one_line_def by code_simp+
  from forwarded_same_message [OF this, of Udp] have
    "extract_body (build_outbound_request_with_from ex_forwarded ''sip:1002@10.0.0.9'' ''pbx''
       ''sip:1001@pbx'' ''sip:1001@pbx'' Udp ''z9'') = extract_body ex_forwarded" by (simp add: Let_def)
  also have "\<dots> = Some ''hi''" by code_simp
  finally show ?thesis .
qed

text \<open>The rewriting of From looks for \<open>from:\<close> and \<open>f:\<close> only. A header with white space
  before the colon, which RFC 3261 allows, is neither recognised nor dropped: the identity the
  sender wrote is forwarded as it is.\<close>

theorem spaced_from_forwarded:
  "outbound_line contact auth (''From : '' @ v) = ([trim (''From : '' @ v)], False)"
proof -
  let ?s = "trim (''From : '' @ v)"
  have st: "starts_with ?s ''From :''" by (rule starts_with_trim) (simp_all add: is_ws_def)
  have "has_prefix (to_lower ''From :'') (''From : '' @ v)"
    by (rule has_prefix_of) (simp_all add: is_ws_def)
  moreover have "to_lower ''From :'' = ''from :''" by code_simp
  ultimately have p: "has_prefix ''from :'' (''From : '' @ v)" by simp
  from st obtain r where r: "?s = ''From '' @ CHR '':'' # r" by (auto simp: starts_with_iff)
  have "find_char (CHR '':'') (''From '' @ CHR '':'' # r) = Some (length ''From '')"
    by (rule find_char_here) simp
  then have "split_once (CHR '':'') ?s = Some (''From '', r)" unfolding r by (simp add: split_once_def)
  moreover have "trim ''From '' = ''From''" "to_lower ''From'' = ''from''" by code_simp+
  ultimately have "strip_unsupported_negotiation_header ?s = Some ?s"
    by (simp add: strip_unsupported_negotiation_header_def)
  moreover have "\<not> starts_with (to_lower ?s) q"
    if "\<not> starts_with ''from :'' q" "\<not> starts_with q ''from :''" for q
    using has_prefix_both [OF p] that unfolding has_prefix_def by blast
  ultimately show ?thesis by (simp add: outbound_line_def Let_def)
qed

end
