(* ===== verification/Message_Service.thy ===== *)
theory Message_Service
  imports Outbound
begin

text \<open>
  \<open>src/sip/message.rs\<close>: instant messages between extensions. A message for an extension that
  is reachable is forwarded, any other is kept in memory and delivered after the next
  registration. The map of connections and the registrar belong to the router and are
  arguments; so are the clock, the random branch and tag, and what each send returns. The
  delivery task gives up the lock while it sends, so it is modelled in two phases with the
  messages stored in between as an argument.
\<close>

section \<open>State\<close>

definition MAX_MESSAGE_BODY_LEN :: nat where "MAX_MESSAGE_BODY_LEN = 4096"
definition MAX_MESSAGE_REQUEST_LEN :: nat where "MAX_MESSAGE_REQUEST_LEN = 8192"
definition MAX_OFFLINE_MESSAGES :: nat where "MAX_OFFLINE_MESSAGES = 100"
definition MAX_TOTAL_OFFLINE_MESSAGES :: nat where "MAX_TOTAL_OFFLINE_MESSAGES = 10000"
definition OFFLINE_MSG_TTL_SECS :: u64 where "OFFLINE_MSG_TTL_SECS = 24 * 60 * 60"
definition SENDER_RATE_WINDOW_SECS :: u64 where "SENDER_RATE_WINDOW_SECS = 60"
definition SENDER_RATE_LIMIT :: nat where "SENDER_RATE_LIMIT = 120"
definition SENDER_OFFLINE_QUOTA :: nat where "SENDER_OFFLINE_QUOTA = 500"

record offline_message =
  from_ext :: string
  original_request :: string
  received_at :: u64

record sender_rate_window =
  rate_start :: u64
  rate_count :: nat

datatype store_outcome = Stored | RateLimited | QuotaExceeded | CapacityFull

type_synonym offline_table = "(string, offline_message list) hashmap"

record message_state =
  offline_messages :: offline_table
  sender_rates :: "(string, sender_rate_window) hashmap"

record message_config =
  m_domain :: string
  m_udp_socket :: bool
  m_range_start :: nat
  m_range_end :: nat

definition message_new :: message_state where
  "message_new = \<lparr>offline_messages = hm_empty, sender_rates = hm_empty\<rparr>"

section \<open>Queues\<close>

definition still_valid :: "u64 \<Rightarrow> offline_message \<Rightarrow> bool" where
  "still_valid now m \<longleftrightarrow> now < saturating_add (received_at m) OFFLINE_MSG_TTL_SECS"

definition total_messages :: "offline_table \<Rightarrow> nat" where
  "total_messages tbl = hm_sum length tbl"

definition sender_messages :: "string \<Rightarrow> offline_table \<Rightarrow> nat" where
  "sender_messages sender tbl = hm_sum (\<lambda>q. length (filter (\<lambda>m. from_ext m = sender) q)) tbl"

definition prune_expired :: "u64 \<Rightarrow> offline_table \<Rightarrow> offline_table" where
  "prune_expired now tbl =
     hm_retain (\<lambda>_ queue. queue \<noteq> []) (hm_map (\<lambda>_ queue. filter (still_valid now) queue) tbl)"

fun trim_front :: "offline_message list \<Rightarrow> offline_message list" where
  "trim_front [] = []"
| "trim_front (m # ms) =
     (if MAX_OFFLINE_MESSAGES < length (m # ms) then trim_front ms else m # ms)"

definition merge_back :: "offline_message list \<Rightarrow> offline_message list \<Rightarrow> offline_message list" where
  "merge_back queue pending = trim_front (pending @ queue)"

section \<open>Storing\<close>

text \<open>The rate limit: whether one more message may be stored, and the window afterwards.\<close>

definition check_rate :: "u64 \<Rightarrow> string \<Rightarrow> message_state \<Rightarrow> bool \<times> message_state" where
  "check_rate now sender st =
     (let win = (case hm_get (sender_rates st) sender of
                   Some w \<Rightarrow> w | None \<Rightarrow> \<lparr>rate_start = now, rate_count = 0\<rparr>);
          win1 = (if rate_start win + SENDER_RATE_WINDOW_SECS \<le> now
                  then \<lparr>rate_start = now, rate_count = 0\<rparr> else win)
      in if SENDER_RATE_LIMIT \<le> rate_count win1
         then (False, st\<lparr>sender_rates := hm_insert sender win1 (sender_rates st)\<rparr>)
         else (True, st\<lparr>sender_rates :=
                       hm_insert sender (win1\<lparr>rate_count := rate_count win1 + 1\<rparr>) (sender_rates st)\<rparr>))"

definition push_message :: "string \<Rightarrow> offline_message \<Rightarrow> offline_table \<Rightarrow> offline_table" where
  "push_message callee m tbl =
     (let queue = (case hm_get tbl callee of Some q \<Rightarrow> q | None \<Rightarrow> []);
          queue1 = (if MAX_OFFLINE_MESSAGES \<le> length queue then tl queue else queue)
      in hm_insert callee (queue1 @ [m]) tbl)"

definition store_offline_message ::
  "u64 \<Rightarrow> string \<Rightarrow> string \<Rightarrow> string \<Rightarrow> message_state \<Rightarrow> store_outcome \<times> message_state" where
  "store_offline_message now callee sender request_text st =
     (case check_rate now sender st of
        (False, st1) \<Rightarrow> (RateLimited, st1)
      | (True, st1) \<Rightarrow>
          (let tbl = prune_expired now (offline_messages st1);
               st2 = st1\<lparr>offline_messages := tbl\<rparr>
           in if SENDER_OFFLINE_QUOTA \<le> sender_messages sender tbl then (QuotaExceeded, st2)
              else if MAX_TOTAL_OFFLINE_MESSAGES \<le> total_messages tbl then (CapacityFull, st2)
              else (Stored, st2\<lparr>offline_messages := push_message callee
                      \<lparr>from_ext = sender, original_request = request_text, received_at = now\<rparr> tbl\<rparr>)))"

section \<open>Handling a MESSAGE\<close>

definition get_outbound ::
  "message_config \<Rightarrow> u64 \<Rightarrow> (string, connection_sink) hashmap \<Rightarrow> registrar \<Rightarrow> string
     \<Rightarrow> connection_sink option" where
  "get_outbound cfg now writers reg extension =
     (case hm_get writers extension of
        Some sink \<Rightarrow> Some sink
      | None \<Rightarrow>
          if m_udp_socket cfg then
            (case lookup now extension reg of
               Some r \<Rightarrow> if reg_transport r = Udp then Some (Udp_Sink (reg_addr r)) else None
             | None \<Rightarrow> None)
          else None)"

definition m_valid_extension :: "message_config \<Rightarrow> string \<Rightarrow> bool" where
  "m_valid_extension cfg extension =
     (case parse_uint 32 extension of
        Some num \<Rightarrow> m_range_start cfg \<le> num \<and> num \<le> m_range_end cfg
      | None \<Rightarrow> False)"

text \<open>The inputs of one call: clock, branch and tag, the shared tables, and the send.\<close>

record message_env =
  me_now :: u64
  me_branch :: string
  me_tag :: string
  me_writers :: "(string, connection_sink) hashmap"
  me_registrar :: registrar
  me_send :: "connection_sink \<Rightarrow> string \<Rightarrow> bool"

definition forwarded_message ::
  "message_config \<Rightarrow> message_env \<Rightarrow> string \<Rightarrow> string \<Rightarrow> string \<Rightarrow> transport \<Rightarrow> string" where
  "forwarded_message cfg env request_text sender callee tp =
     build_outbound_request_with_from request_text
       (registered_contact_uri (me_now env) callee (m_domain cfg) (me_registrar env))
       (m_domain cfg) (server_contact_uri sender (m_domain cfg) tp)
       (server_contact_uri sender (m_domain cfg) tp) tp (me_branch env)"

text \<open>
  The result of \<open>handle_message\<close>: the response, the sends made (outlet and text), and the new
  state. A panic is \<open>None\<close>.
\<close>

definition store_and_answer ::
  "message_env \<Rightarrow> string \<Rightarrow> string \<Rightarrow> string \<Rightarrow> message_state \<Rightarrow> string \<times> message_state" where
  "store_and_answer env request_text callee sender st =
     (case store_offline_message (me_now env) callee sender request_text st of
        (Stored, st') \<Rightarrow> (build_response request_text 200 ''OK'' (me_tag env), st')
      | (_, st') \<Rightarrow> (build_response request_text 503 ''Service Unavailable'' (me_tag env), st'))"

definition handle_message ::
  "message_config \<Rightarrow> message_env \<Rightarrow> string \<Rightarrow> string \<Rightarrow> message_state
     \<Rightarrow> (string \<times> (connection_sink \<times> string) list \<times> message_state) may_panic" where
  "handle_message cfg env request_text sender st =
     (let answer = (\<lambda>code reason. Some (build_response request_text code reason (me_tag env), [], st)) in
      if sender = [] then answer 403 ''Forbidden''
      else if MAX_MESSAGE_REQUEST_LEN < length request_text then answer 413 ''Message Too Large''
      else
        (case extract_called_extension request_text of
           None \<Rightarrow> None
         | Some called \<Rightarrow>
             (let callee = (case called of Some c \<Rightarrow> c | None \<Rightarrow> []);
                  body = (case extract_body request_text of Some b \<Rightarrow> b | None \<Rightarrow> [])
              in if callee = [] \<or> callee = sender then answer 400 ''Bad Request''
                 else if \<not> m_valid_extension cfg callee then answer 404 ''Not Found''
                 else if trim body = [] then answer 400 ''Bad Request''
                 else if MAX_MESSAGE_BODY_LEN < length body then answer 413 ''Message Too Large''
                 else
                   (case get_outbound cfg (me_now env) (me_writers env) (me_registrar env) callee of
                      Some sink \<Rightarrow>
                        (let forwarded = forwarded_message cfg env request_text sender callee
                               (sink_transport sink)
                         in if me_send env sink forwarded
                            then Some (build_response request_text 200 ''OK'' (me_tag env),
                                       [(sink, forwarded)], st)
                            else (case store_and_answer env request_text callee sender st of
                                    (r, st') \<Rightarrow> Some (r, [(sink, forwarded)], st')))
                    | None \<Rightarrow>
                        (case store_and_answer env request_text callee sender st of
                           (r, st') \<Rightarrow> Some (r, [], st'))))))"

section \<open>Delivery after a registration\<close>

text \<open>First phase, under the lock: the queue is taken out and its expired messages dropped.\<close>

definition take_messages ::
  "u64 \<Rightarrow> string \<Rightarrow> message_state \<Rightarrow> offline_message list \<times> message_state" where
  "take_messages now extension st =
     (filter (still_valid now)
        (case hm_get (offline_messages st) extension of Some q \<Rightarrow> q | None \<Rightarrow> []),
      st\<lparr>offline_messages := hm_remove extension (offline_messages st)\<rparr>)"

text \<open>
  The sending loop: \<open>oks\<close> tells which sends succeed, in order (those beyond the list do). The
  messages delivered, and what is left when a send fails.
\<close>

fun send_pending :: "bool list \<Rightarrow> offline_message list \<Rightarrow> offline_message list \<times> offline_message list" where
  "send_pending oks [] = ([], [])"
| "send_pending [] (m # ms) = (case send_pending [] ms of (d, p) \<Rightarrow> (m # d, p))"
| "send_pending (ok # oks) (m # ms) =
     (if ok then (case send_pending oks ms of (d, p) \<Rightarrow> (m # d, p)) else ([], m # ms))"

text \<open>Last phase, under the lock again: what was not delivered goes back before the new arrivals.\<close>

definition put_back :: "string \<Rightarrow> offline_message list \<Rightarrow> message_state \<Rightarrow> message_state" where
  "put_back extension pending st =
     (let queue = (case hm_get (offline_messages st) extension of Some q \<Rightarrow> q | None \<Rightarrow> [])
      in st\<lparr>offline_messages :=
              hm_insert extension (merge_back queue pending) (offline_messages st)\<rparr>)"

text \<open>
  The whole task. \<open>meanwhile\<close> is what other tasks do to the state while no lock is held;
  \<open>reachable\<close> is whether the extension has an outlet.
\<close>

definition deliver_offline_messages ::
  "u64 \<Rightarrow> string \<Rightarrow> bool \<Rightarrow> bool list \<Rightarrow> (message_state \<Rightarrow> message_state) \<Rightarrow> message_state
     \<Rightarrow> offline_message list \<times> message_state" where
  "deliver_offline_messages now extension reachable oks meanwhile st =
     (case take_messages now extension st of
        (messages, st1) \<Rightarrow>
          if messages = [] then ([], meanwhile st1)
          else if \<not> reachable then ([], put_back extension messages (meanwhile st1))
          else (case send_pending oks messages of
                  (delivered, pending) \<Rightarrow>
                    (delivered,
                     if pending = [] then meanwhile st1
                     else put_back extension pending (meanwhile st1))))"

section \<open>Facts about the queues\<close>

lemma trim_front_drop: "trim_front ms = drop (length ms - MAX_OFFLINE_MESSAGES) ms"
proof (induction ms)
  case (Cons m ms)
  show ?case
  proof (cases "MAX_OFFLINE_MESSAGES < length (m # ms)")
    case True
    then have "length (m # ms) - MAX_OFFLINE_MESSAGES = Suc (length ms - MAX_OFFLINE_MESSAGES)" by simp
    with True Cons show ?thesis by simp
  qed simp
qed simp

lemma length_merge_back: "length (merge_back queue pending) \<le> MAX_OFFLINE_MESSAGES"
  by (simp add: merge_back_def trim_front_drop)

lemma prune_get:
  "hm_get (prune_expired now tbl) k =
     (case hm_get tbl k of
        None \<Rightarrow> None
      | Some q \<Rightarrow> if filter (still_valid now) q = [] then None else Some (filter (still_valid now) q))"
  by (simp add: prune_expired_def hm.get_retain split: option.split)

lemma prune_total: "total_messages (prune_expired now tbl) \<le> total_messages tbl"
proof -
  have "total_messages (prune_expired now tbl) \<le>
      total_messages (hm_map (\<lambda>_ queue. filter (still_valid now) queue) tbl)"
    unfolding total_messages_def prune_expired_def by (rule hm_sum_retain)
  also have "\<dots> \<le> total_messages tbl"
    unfolding total_messages_def by (rule hm_sum_map) simp
  finally show ?thesis .
qed

lemma prune_sender: "sender_messages s (prune_expired now tbl) \<le> sender_messages s tbl"
proof -
  have f: "length (filter P (filter Q q)) \<le> length (filter P q)" for P Q and q :: "offline_message list"
    by (induction q) auto
  have "sender_messages s (prune_expired now tbl) \<le>
      sender_messages s (hm_map (\<lambda>_ queue. filter (still_valid now) queue) tbl)"
    unfolding sender_messages_def prune_expired_def by (rule hm_sum_retain)
  also have "\<dots> \<le> sender_messages s tbl"
    unfolding sender_messages_def by (rule hm_sum_map) (rule f)
  finally show ?thesis .
qed

lemma push_total: "total_messages (push_message callee m tbl) \<le> Suc (total_messages tbl)"
  using hm_sum_insert [of length callee "(if MAX_OFFLINE_MESSAGES \<le> length (case hm_get tbl callee of Some q \<Rightarrow> q | None \<Rightarrow> [])
      then tl (case hm_get tbl callee of Some q \<Rightarrow> q | None \<Rightarrow> [])
      else (case hm_get tbl callee of Some q \<Rightarrow> q | None \<Rightarrow> [])) @ [m]" tbl]
  by (auto simp: total_messages_def push_message_def Let_def split: option.splits if_splits)

lemma push_sender:
  "sender_messages s (push_message callee m tbl) \<le>
     sender_messages s tbl + (if from_ext m = s then 1 else 0)"
proof -
  let ?f = "\<lambda>q. length (filter (\<lambda>m. from_ext m = s) q)"
  let ?q = "case hm_get tbl callee of Some q \<Rightarrow> q | None \<Rightarrow> []"
  let ?q1 = "if MAX_OFFLINE_MESSAGES \<le> length ?q then tl ?q else ?q"
  have "?f (tl q) \<le> ?f q" for q by (cases q) auto
  then have "?f (?q1 @ [m]) \<le> ?f ?q + (if from_ext m = s then 1 else 0)" by auto
  moreover have "(case hm_get tbl callee of Some u \<Rightarrow> ?f u | None \<Rightarrow> 0) = ?f ?q"
    by (simp split: option.split)
  ultimately show ?thesis
    using hm_sum_insert [of ?f callee "?q1 @ [m]" tbl]
    unfolding sender_messages_def push_message_def Let_def by linarith
qed

definition queues_bounded :: "message_state \<Rightarrow> bool" where
  "queues_bounded st \<longleftrightarrow>
     (\<forall>k q. hm_get (offline_messages st) k = Some q \<longrightarrow> length q \<le> MAX_OFFLINE_MESSAGES)"

lemma check_rate_frame [frame_simps]:
  "offline_messages (snd (check_rate now s st)) = offline_messages st"
  by (simp add: check_rate_def Let_def)

lemma hm_insert_all:
  assumes "\<forall>k q. hm_get tbl k = Some q \<longrightarrow> P q" "P v"
  shows "\<forall>k q. hm_get (hm_insert c v tbl) k = Some q \<longrightarrow> P q"
  using assms by simp

lemma push_bounded:
  assumes "\<forall>k q. hm_get tbl k = Some q \<longrightarrow> length q \<le> MAX_OFFLINE_MESSAGES"
  shows "\<forall>k q. hm_get (push_message callee m tbl) k = Some q \<longrightarrow> length q \<le> MAX_OFFLINE_MESSAGES"
proof -
  let ?q = "case hm_get tbl callee of Some q \<Rightarrow> q | None \<Rightarrow> []"
  let ?q1 = "if MAX_OFFLINE_MESSAGES \<le> length ?q then tl ?q else ?q"
  have "length ?q \<le> MAX_OFFLINE_MESSAGES" using assms by (simp split: option.split)
  then have "length (?q1 @ [m]) \<le> MAX_OFFLINE_MESSAGES"
    by (simp add: MAX_OFFLINE_MESSAGES_def)
  from hm_insert_all [where P = "\<lambda>q. length q \<le> MAX_OFFLINE_MESSAGES", OF assms this]
  show ?thesis unfolding push_message_def Let_def .
qed

lemma prune_bounded:
  assumes "\<forall>k q. hm_get tbl k = Some q \<longrightarrow> length q \<le> MAX_OFFLINE_MESSAGES"
  shows "\<forall>k q. hm_get (prune_expired now tbl) k = Some q \<longrightarrow> length q \<le> MAX_OFFLINE_MESSAGES"
proof (intro allI impI)
  fix k q assume "hm_get (prune_expired now tbl) k = Some q"
  then obtain q' where "hm_get tbl k = Some q'" "q = filter (still_valid now) q'"
    by (auto simp: prune_get split: option.splits if_splits)
  with assms length_filter_le [of "still_valid now" q'] show "length q \<le> MAX_OFFLINE_MESSAGES"
    using order_trans by blast
qed

lemma store_cases:
  obtains (limited) "store_offline_message now callee s req st = (RateLimited, snd (check_rate now s st))"
      "\<not> fst (check_rate now s st)"
    | (refused) out where "store_offline_message now callee s req st =
        (out, (snd (check_rate now s st))\<lparr>offline_messages := prune_expired now (offline_messages st)\<rparr>)"
      "out \<in> {QuotaExceeded, CapacityFull}" "fst (check_rate now s st)"
    | (stored) "store_offline_message now callee s req st =
        (Stored, (snd (check_rate now s st))\<lparr>offline_messages := push_message callee
           \<lparr>from_ext = s, original_request = req, received_at = now\<rparr> (prune_expired now (offline_messages st))\<rparr>)"
      "fst (check_rate now s st)"
      "sender_messages s (prune_expired now (offline_messages st)) < SENDER_OFFLINE_QUOTA"
      "total_messages (prune_expired now (offline_messages st)) < MAX_TOTAL_OFFLINE_MESSAGES"
proof -
  obtain ok st1 where c: "check_rate now s st = (ok, st1)" by (cases "check_rate now s st")
  then have o: "offline_messages st1 = offline_messages st" using check_rate_frame by (metis snd_conv)
  show thesis
  proof (cases ok)
    case False
    then show thesis using c limited by (simp add: store_offline_message_def)
  next
    case True
    show thesis
    proof (cases "SENDER_OFFLINE_QUOTA \<le> sender_messages s (prune_expired now (offline_messages st)) \<or>
        MAX_TOTAL_OFFLINE_MESSAGES \<le> total_messages (prune_expired now (offline_messages st))")
      case refuse: True
      let ?out = "if SENDER_OFFLINE_QUOTA \<le> sender_messages s (prune_expired now (offline_messages st))
        then QuotaExceeded else CapacityFull"
      have "store_offline_message now callee s req st =
          (?out, st1\<lparr>offline_messages := prune_expired now (offline_messages st)\<rparr>)"
        using c o True refuse by (auto simp: store_offline_message_def Let_def)
      moreover have "?out \<in> {QuotaExceeded, CapacityFull}" by simp
      ultimately show thesis using c True refused [of ?out] by simp
    next
      case False
      then show thesis using c o True stored by (simp add: store_offline_message_def Let_def)
    qed
  qed
qed

lemma store_bounded [inv_intros]:
  assumes "queues_bounded st"
  shows "queues_bounded (snd (store_offline_message now callee s req st))"
proof -
  have b: "\<forall>k q. hm_get (offline_messages st) k = Some q \<longrightarrow> length q \<le> MAX_OFFLINE_MESSAGES"
    using assms by (simp add: queues_bounded_def)
  show ?thesis
    using b prune_bounded [OF b, of now] push_bounded [OF prune_bounded [OF b, of now]]
    by (cases rule: store_cases [of now callee s req st])
       (simp_all add: queues_bounded_def frame_simps)
qed

lemma take_bounded [inv_intros]:
  "queues_bounded st \<Longrightarrow> queues_bounded (snd (take_messages now ext st))"
  by (auto simp: queues_bounded_def take_messages_def split: if_splits)

lemma put_back_bounded [inv_intros]: "queues_bounded st \<Longrightarrow> queues_bounded (put_back ext pending st)"
  using length_merge_back by (auto simp: queues_bounded_def put_back_def Let_def)

section \<open>Histories\<close>

inductive msg_step :: "message_state \<Rightarrow> message_state \<Rightarrow> bool" where
  store: "msg_step st (snd (store_offline_message now callee s req st))"
| taking: "msg_step st (snd (take_messages now ext st))"
| putting: "msg_step st (put_back ext pending st)"

inductive msg_reach :: "message_state \<Rightarrow> bool" where
  start: "msg_reach message_new"
| step: "msg_reach st \<Longrightarrow> msg_step st st' \<Longrightarrow> msg_reach st'"

inductive_cases msg_stepE: "msg_step st st'"

lemma msg_reach_bounded: "msg_reach st \<Longrightarrow> queues_bounded st"
proof (induction rule: msg_reach.induct)
  case start
  then show ?case by (simp add: queues_bounded_def message_new_def)
next
  case (step st st')
  then show ?case by (auto elim!: msg_stepE intro: inv_intros)
qed

section \<open>Sending in order\<close>

lemma send_pending_parts:
  "send_pending oks ms = (d, p) \<Longrightarrow> d @ p = ms"
  by (induction oks ms arbitrary: d p rule: send_pending.induct) (auto split: prod.splits if_splits)

lemma send_pending_failed:
  "send_pending oks ms = (d, p) \<Longrightarrow> p \<noteq> [] \<Longrightarrow> length d < length oks \<and> \<not> oks ! length d"
proof (induction oks ms arbitrary: d p rule: send_pending.induct)
  case (2 m ms)
  obtain d' p' where "send_pending [] ms = (d', p')" by (cases "send_pending [] ms")
  with 2 show ?case by auto
next
  case (3 ok oks m ms)
  obtain d' p' where "send_pending oks ms = (d', p')" by (cases "send_pending oks ms")
  with 3 show ?case by (cases ok) auto
qed simp

lemma send_pending_sent:
  "send_pending oks ms = (d, p) \<Longrightarrow> i < length d \<Longrightarrow> i < length oks \<Longrightarrow> oks ! i"
proof (induction oks ms arbitrary: d p i rule: send_pending.induct)
  case (3 ok oks m ms)
  obtain d' p' where "send_pending oks ms = (d', p')" by (cases "send_pending oks ms")
  with 3 show ?case by (cases ok; cases i) auto
qed simp_all

section \<open>The rate limit\<close>

definition rate_decisions :: "string \<Rightarrow> u64 list \<Rightarrow> message_state \<Rightarrow> bool list \<times> message_state" where
  "rate_decisions s ts st =
     foldl (\<lambda>(oks, st) t. case check_rate t s st of (ok, st') \<Rightarrow> (oks @ [ok], st')) ([], st) ts"

definition rate_at :: "string \<Rightarrow> u64 \<Rightarrow> nat \<Rightarrow> message_state \<Rightarrow> bool" where
  "rate_at s t0 k st \<longleftrightarrow>
     (case hm_get (sender_rates st) s of
        None \<Rightarrow> k = 0
      | Some w \<Rightarrow> rate_start w = t0 \<and> rate_count w = k)"

lemma check_rate_in_window:
  assumes "rate_at s t0 k st" "k = 0 \<Longrightarrow> hm_get (sender_rates st) s = None \<Longrightarrow> t = t0"
    and "t < t0 + SENDER_RATE_WINDOW_SECS" "t0 < t0 + SENDER_RATE_WINDOW_SECS"
  shows "fst (check_rate t s st) \<longleftrightarrow> k < SENDER_RATE_LIMIT"
    and "rate_at s t0 (min (Suc k) SENDER_RATE_LIMIT) (snd (check_rate t s st)) \<or> SENDER_RATE_LIMIT < k"
    and "hm_get (sender_rates (snd (check_rate t s st))) s \<noteq> None"
  using assms by (auto simp: check_rate_def rate_at_def Let_def SENDER_RATE_LIMIT_def not_le split: option.splits)

lemma rate_run:
  assumes "rate_at s t0 k st" "k \<le> SENDER_RATE_LIMIT" "hm_get (sender_rates st) s \<noteq> None"
    and "list_all (\<lambda>t. t < t0 + SENDER_RATE_WINDOW_SECS) ts" "t0 < t0 + SENDER_RATE_WINDOW_SECS"
  shows "count_list (fst (foldl (\<lambda>(oks, st) t. case check_rate t s st of (ok, st') \<Rightarrow> (oks @ [ok], st')) (acc, st) ts)) True
     = count_list acc True + min (length ts) (SENDER_RATE_LIMIT - k)"
  using assms(1-4)
proof (induction ts arbitrary: k st acc)
  case (Cons t ts)
  obtain ok st' where c: "check_rate t s st = (ok, st')" by (cases "check_rate t s st")
  have t: "t < t0 + SENDER_RATE_WINDOW_SECS" using Cons.prems(4) by simp
  note w = check_rate_in_window [OF Cons.prems(1) _ t assms(5)]
  have ok: "ok = (k < SENDER_RATE_LIMIT)" using w(1) Cons.prems(3) c by simp
  have st': "rate_at s t0 (min (Suc k) SENDER_RATE_LIMIT) st'" "hm_get (sender_rates st') s \<noteq> None"
    using w(2,3) Cons.prems(2,3) c by auto
  have "count_list (fst (foldl (\<lambda>(oks, st) t. case check_rate t s st of (ok, st') \<Rightarrow> (oks @ [ok], st')) (acc @ [ok], st') ts)) True
     = count_list (acc @ [ok]) True + min (length ts) (SENDER_RATE_LIMIT - min (Suc k) SENDER_RATE_LIMIT)"
    using Cons.prems(4) by (intro Cons.IH st') simp_all
  then show ?case using c ok Cons.prems(2) by (auto simp: min_def)
qed simp

section \<open>Properties\<close>

text \<open>No queue ever holds more than 100 messages, whatever stores, deliveries and failed
  deliveries happened.\<close>

theorem offline_queues_bounded:
  assumes "msg_reach st" "hm_get (offline_messages st) ext = Some q"
  shows "length q \<le> MAX_OFFLINE_MESSAGES"
  using msg_reach_bounded [OF assms(1)] assms(2) by (simp add: queues_bounded_def)

definition ex_message :: "nat \<Rightarrow> offline_message" where
  "ex_message n = \<lparr>from_ext = ''1001'', original_request = show_nat n, received_at = 50\<rparr>"

definition ex_stored :: message_state where
  "ex_stored = snd (store_offline_message 50 ''1002'' ''1001'' ''2''
     (snd (store_offline_message 50 ''1002'' ''1001'' ''1'' message_new)))"

lemma ex_stored_reach: "msg_reach ex_stored"
  unfolding ex_stored_def
  by (rule msg_reach.step [OF msg_reach.step [OF msg_reach.start msg_step.store] msg_step.store])

lemma ex_stored_queue:
  "hm_get (offline_messages ex_stored) ''1002'' = Some [ex_message 1, ex_message 2]"
  by code_simp

theorem offline_queues_bounded_witness: "length [ex_message 1, ex_message 2] \<le> MAX_OFFLINE_MESSAGES"
  by (rule offline_queues_bounded [OF ex_stored_reach ex_stored_queue])

text \<open>C31: storing a message keeps the global limit of 10000 messages and every sender's quota of
  500, so neither a flood of messages nor a single sender exhausts the memory.\<close>

theorem store_keeps_limits:
  assumes "total_messages (offline_messages st) \<le> MAX_TOTAL_OFFLINE_MESSAGES"
    and "sender_messages sender (offline_messages st) \<le> SENDER_OFFLINE_QUOTA"
  shows "total_messages (offline_messages (snd (store_offline_message now callee s req st))) \<le> MAX_TOTAL_OFFLINE_MESSAGES \<and>
     sender_messages sender (offline_messages (snd (store_offline_message now callee s req st))) \<le> SENDER_OFFLINE_QUOTA"
proof (cases rule: store_cases [of now callee s req st])
  case limited
  then show ?thesis using assms by (simp add: frame_simps)
next
  case (refused out)
  have "total_messages (prune_expired now (offline_messages st)) \<le> MAX_TOTAL_OFFLINE_MESSAGES"
    "sender_messages sender (prune_expired now (offline_messages st)) \<le> SENDER_OFFLINE_QUOTA"
    using prune_total [of now] prune_sender [of sender now] assms order_trans by blast+
  then show ?thesis by (simp add: refused(1))
next
  case stored
  let ?p = "prune_expired now (offline_messages st)"
  let ?m = "\<lparr>from_ext = s, original_request = req, received_at = now\<rparr>"
  have "total_messages (push_message callee ?m ?p) \<le> MAX_TOTAL_OFFLINE_MESSAGES"
    using push_total [of callee ?m ?p] stored(4) by linarith
  moreover have "sender_messages sender (push_message callee ?m ?p) \<le> SENDER_OFFLINE_QUOTA"
    using push_sender [of sender callee ?m ?p] prune_sender [of sender now "offline_messages st"] assms(2) stored(3)
    by (cases "s = sender") auto
  ultimately show ?thesis by (simp add: stored(1))
qed

theorem store_keeps_limits_witness:
  "total_messages (offline_messages (snd (store_offline_message 60 ''1002'' ''1001'' ''3'' ex_stored))) \<le> MAX_TOTAL_OFFLINE_MESSAGES"
proof -
  have "total_messages (offline_messages ex_stored) \<le> MAX_TOTAL_OFFLINE_MESSAGES"
    "sender_messages ''1001'' (offline_messages ex_stored) \<le> SENDER_OFFLINE_QUOTA"
    by code_simp+
  from store_keeps_limits [OF this] show ?thesis by blast
qed

text \<open>Of the messages one sender stores within a window, exactly the first 120 pass the rate
  limit, whatever their times in the window.\<close>

theorem rate_limit_exact:
  assumes "hm_get (sender_rates st) s = None" "list_all (\<lambda>t. t < t0 + SENDER_RATE_WINDOW_SECS) ts"
    and "t0 < t0 + SENDER_RATE_WINDOW_SECS"
  shows "count_list (fst (rate_decisions s (t0 # ts) st)) True = min (length (t0 # ts)) SENDER_RATE_LIMIT"
proof -
  obtain ok st' where c: "check_rate t0 s st = (ok, st')" by (cases "check_rate t0 s st")
  have "rate_at s t0 0 st" using assms(1) by (simp add: rate_at_def)
  note w = check_rate_in_window [OF this _ assms(3,3)]
  have "ok" "rate_at s t0 1 st'" "hm_get (sender_rates st') s \<noteq> None"
    using w c by (auto simp: SENDER_RATE_LIMIT_def)
  with rate_run [of s t0 1 st' ts "[True]"] assms(2,3) c show ?thesis
    by (simp add: rate_decisions_def SENDER_RATE_LIMIT_def min_def)
qed

theorem rate_limit_exact_witness:
  "count_list (fst (rate_decisions ''1001'' (10 # replicate 150 20) message_new)) True = SENDER_RATE_LIMIT"
proof -
  have "hm_get (sender_rates message_new) ''1001'' = None" by (simp add: message_new_def)
  moreover have "list_all (\<lambda>t. t < 10 + SENDER_RATE_WINDOW_SECS) (replicate 150 (20 :: u64))"
    "(10 :: u64) < 10 + SENDER_RATE_WINDOW_SECS"
    by (simp_all add: SENDER_RATE_WINDOW_SECS_def list_all_iff)
  ultimately show ?thesis using rate_limit_exact [of message_new "''1001''" 10 "replicate 150 20"]
    by (simp add: SENDER_RATE_LIMIT_def)
qed

definition queue_of :: "message_state \<Rightarrow> string \<Rightarrow> offline_message list" where
  "queue_of st ext = (case hm_get (offline_messages st) ext of Some q \<Rightarrow> q | None \<Rightarrow> [])"



lemma message_statuses:
  "extract_status_code (build_response req 403 ''Forbidden'' tag) = Some 403"
  "extract_status_code (build_response req 413 ''Message Too Large'' tag) = Some 413"
  "extract_status_code (build_response req 400 ''Bad Request'' tag) = Some 400"
  "extract_status_code (build_response req 404 ''Not Found'' tag) = Some 404"
  "extract_status_code (build_response req 503 ''Service Unavailable'' tag) = Some 503"
  by (rule built_status_plain; simp add: LF_def)+

lemma store_and_answer_200:
  assumes "store_and_answer env req callee sender st = (resp, st')" "extract_status_code resp = Some 200"
  shows "store_offline_message (me_now env) callee sender req st = (Stored, st')"
  using assms message_statuses(5) [of req "me_tag env"]
  by (auto simp: store_and_answer_def split: prod.splits store_outcome.splits)


definition ex_message_cfg :: message_config where
  "ex_message_cfg = \<lparr>m_domain = ''pbx'', m_udp_socket = True, m_range_start = 1000, m_range_end = 2000\<rparr>"

definition ex_message_env :: message_env where
  "ex_message_env = \<lparr>me_now = 50, me_branch = ''z9'', me_tag = ''t'', me_writers = hm_empty,
     me_registrar = registrar_new, me_send = (\<lambda>sink text. True)\<rparr>"


end
