(* ===== verification/Srtp.thy ===== *)
theory Srtp
  imports Rust_Map Rust_Str
begin

unbundle bit_operations_syntax

text \<open>
  \<open>src/media/srtp.rs\<close>: SRTP with SDES keys. The ciphers and encoders come from other crates
  (\<open>aes\<close>, \<open>hmac\<close>, \<open>aes_gcm\<close>, \<open>base64\<close>); they are the fields of \<open>crypto_lib\<close>, and what the
  code relies on is \<open>crypto_laws\<close>. What this file computes itself is modelled byte by byte: the key
  derivation, the counter mode, the nonces, the tags, the header parser and the estimate of
  the rollover counter. The random key of a new context is an argument; the texts of the
  error values are left out.
\<close>

section \<open>Suites, errors, state\<close>

type_synonym bytes = "u8 list"

datatype srtp_suite = AesCm128HmacSha180 | AeadAes128Gcm

datatype srtp_error =
  InvalidSdesKey | InvalidRtpPacket | AuthenticationFailed | EncryptionFailed
| Base64DecodeError | CryptoAttributeParseError

definition AUTH_TAG_LEN :: nat where "AUTH_TAG_LEN = 10"
definition GCM_AUTH_TAG_LEN :: nat where "GCM_AUTH_TAG_LEN = 16"
definition MASTER_KEY_LEN :: nat where "MASTER_KEY_LEN = 16"
definition MASTER_SALT_LEN :: nat where "MASTER_SALT_LEN = 14"
definition GCM_SALT_LEN :: nat where "GCM_SALT_LEN = 12"
definition SESSION_KEY_LEN :: nat where "SESSION_KEY_LEN = 16"
definition SESSION_SALT_LEN :: nat where "SESSION_SALT_LEN = 14"
definition SESSION_AUTH_KEY_LEN :: nat where "SESSION_AUTH_KEY_LEN = 20"
definition RTP_HEADER_MIN_LEN :: nat where "RTP_HEADER_MIN_LEN = 12"
definition LABEL_CIPHER_KEY :: u8 where "LABEL_CIPHER_KEY = 0"
definition LABEL_AUTH_KEY :: u8 where "LABEL_AUTH_KEY = 1"
definition LABEL_SALT :: u8 where "LABEL_SALT = 2"

lemmas srtp_lens = AUTH_TAG_LEN_def GCM_AUTH_TAG_LEN_def MASTER_KEY_LEN_def MASTER_SALT_LEN_def
  GCM_SALT_LEN_def SESSION_KEY_LEN_def SESSION_SALT_LEN_def SESSION_AUTH_KEY_LEN_def
  RTP_HEADER_MIN_LEN_def

definition sdp_name :: "srtp_suite \<Rightarrow> string" where
  "sdp_name su = (case su of AesCm128HmacSha180 \<Rightarrow> ''AES_CM_128_HMAC_SHA1_80''
                           | AeadAes128Gcm \<Rightarrow> ''AEAD_AES_128_GCM'')"

definition auth_tag_len :: "srtp_suite \<Rightarrow> nat" where
  "auth_tag_len su = (case su of AesCm128HmacSha180 \<Rightarrow> AUTH_TAG_LEN | AeadAes128Gcm \<Rightarrow> GCM_AUTH_TAG_LEN)"

definition salt_len :: "srtp_suite \<Rightarrow> nat" where
  "salt_len su = (case su of AesCm128HmacSha180 \<Rightarrow> MASTER_SALT_LEN | AeadAes128Gcm \<Rightarrow> GCM_SALT_LEN)"

definition from_sdp_name :: "string \<Rightarrow> srtp_suite option" where
  "from_sdp_name name =
     (let up = to_upper name in
      if up = ''AES_CM_128_HMAC_SHA1_80'' then Some AesCm128HmacSha180
      else if up = ''AEAD_AES_128_GCM'' then Some AeadAes128Gcm else None)"

record srtp_stream_state =
  ss_roc :: u32
  ss_highest :: "u16 option"

definition stream_default :: srtp_stream_state where
  "stream_default = \<lparr>ss_roc = 0, ss_highest = None\<rparr>"

record srtp_context =
  sc_suite :: srtp_suite
  sc_master_key :: bytes
  sc_master_salt :: bytes
  sc_session_key :: bytes
  sc_session_salt :: bytes
  sc_session_auth_key :: bytes
  sc_streams :: "(u32, srtp_stream_state) hashmap"

text \<open>
  The other crates: one block of AES-128 (key, block), HMAC-SHA1 (key, message), AES-128-GCM
  (key, nonce, associated data, text), Base64.
\<close>

record crypto_lib =
  aes_block :: "bytes \<Rightarrow> bytes \<Rightarrow> bytes"
  hmac_sha1 :: "bytes \<Rightarrow> bytes \<Rightarrow> bytes"
  gcm_encrypt :: "bytes \<Rightarrow> bytes \<Rightarrow> bytes \<Rightarrow> bytes \<Rightarrow> bytes option"
  gcm_decrypt :: "bytes \<Rightarrow> bytes \<Rightarrow> bytes \<Rightarrow> bytes \<Rightarrow> bytes option"
  b64_encode :: "bytes \<Rightarrow> string"
  b64_decode :: "string \<Rightarrow> bytes option"

section \<open>Bytes and counter mode\<close>

text \<open>\<open>w.to_be_bytes()\<close> of an \<open>n\<close>-byte word, and \<open>from_be_bytes\<close>.\<close>

definition be_bytes :: "nat \<Rightarrow> 'a::len word \<Rightarrow> bytes" where
  "be_bytes n w = map (\<lambda>i. ucast (drop_bit (8 * i) w)) (rev [0..<n])"

definition from_be :: "bytes \<Rightarrow> 'a::len word" where
  "from_be bs = foldl (\<lambda>acc b. push_bit 8 acc OR ucast b) 0 bs"

definition xor_bytes :: "bytes \<Rightarrow> bytes \<Rightarrow> bytes" where
  "xor_bytes a b = map2 (XOR) a b"

text \<open>The block for one counter value: the counter is put into the last two bytes of the IV.\<close>

definition ctr_block :: "bytes \<Rightarrow> u16 \<Rightarrow> bytes" where
  "ctr_block iv counter =
     iv[14 := (iv ! 14) XOR ucast (drop_bit 8 counter), 15 := (iv ! 15) XOR ucast (counter AND 0xFF)]"

fun prf_blocks :: "crypto_lib \<Rightarrow> bytes \<Rightarrow> bytes \<Rightarrow> u16 \<Rightarrow> nat \<Rightarrow> bytes" where
  "prf_blocks lib key iv counter n =
     (if n = 0 then []
      else take (min 16 n) (aes_block lib key (ctr_block iv counter))
             @ prf_blocks lib key iv (counter + 1) (n - min 16 n))"

declare prf_blocks.simps [simp del]

definition prf_iv :: "bytes \<Rightarrow> u8 \<Rightarrow> bytes" where
  "prf_iv salt label = (let iv = salt @ [0, 0] in iv[7 := (iv ! 7) XOR label])"

definition prf_derive :: "crypto_lib \<Rightarrow> srtp_context \<Rightarrow> u8 \<Rightarrow> nat \<Rightarrow> bytes" where
  "prf_derive lib s label n =
     prf_blocks lib (sc_master_key s) (prf_iv (sc_master_salt s) label) 0 n"

definition prf_derive_auth :: "crypto_lib \<Rightarrow> srtp_context \<Rightarrow> u8 \<Rightarrow> nat \<Rightarrow> bytes" where
  "prf_derive_auth lib s label n =
     prf_blocks lib (sc_master_key s) (prf_iv (sc_master_salt s) label) 0 n"

definition derive_session_keys :: "crypto_lib \<Rightarrow> srtp_context \<Rightarrow> srtp_context" where
  "derive_session_keys lib s =
     (let s1 = s\<lparr>sc_session_key := prf_derive lib s LABEL_CIPHER_KEY SESSION_KEY_LEN,
                 sc_session_salt := take SESSION_SALT_LEN (prf_derive lib s LABEL_SALT SESSION_KEY_LEN)\<rparr>
      in if sc_suite s1 = AesCm128HmacSha180
         then s1\<lparr>sc_session_auth_key := prf_derive_auth lib s1 LABEL_AUTH_KEY SESSION_AUTH_KEY_LEN\<rparr>
         else s1)"

text \<open>The record built by the constructors, from a key and a salt of the suite's lengths.\<close>

definition with_keys :: "crypto_lib \<Rightarrow> srtp_suite \<Rightarrow> bytes \<Rightarrow> bytes \<Rightarrow> srtp_context" where
  "with_keys lib su key salt =
     derive_session_keys lib
       \<lparr>sc_suite = su, sc_master_key = key,
        sc_master_salt = salt @ replicate (MASTER_SALT_LEN - length salt) 0,
        sc_session_key = replicate SESSION_KEY_LEN 0, sc_session_salt = replicate SESSION_SALT_LEN 0,
        sc_session_auth_key = replicate SESSION_AUTH_KEY_LEN 0, sc_streams = hm_empty\<rparr>"

text \<open>\<open>rnd\<close> is the stream of random bytes: 16 for the key, then those of the salt.\<close>

definition new_with_suite :: "crypto_lib \<Rightarrow> (nat \<Rightarrow> u8) \<Rightarrow> srtp_suite \<Rightarrow> srtp_context" where
  "new_with_suite lib rnd su =
     with_keys lib su (map rnd [0..<MASTER_KEY_LEN])
       (map rnd [MASTER_KEY_LEN..<MASTER_KEY_LEN + salt_len su])"

definition from_sdes_with_suite ::
  "crypto_lib \<Rightarrow> srtp_suite \<Rightarrow> string \<Rightarrow> srtp_error + srtp_context" where
  "from_sdes_with_suite lib su base64_key_salt =
     (case b64_decode lib (trim base64_key_salt) of
        None \<Rightarrow> Inl Base64DecodeError
      | Some decoded \<Rightarrow>
          if length decoded \<noteq> MASTER_KEY_LEN + salt_len su then Inl InvalidSdesKey
          else Inr (with_keys lib su (take MASTER_KEY_LEN decoded) (drop MASTER_KEY_LEN decoded)))"

text \<open>\<open>SrtpCryptoSuite::new\<close> and \<open>from_sdes\<close>: the suite every client supports.\<close>

definition srtp_new :: "crypto_lib \<Rightarrow> (nat \<Rightarrow> u8) \<Rightarrow> srtp_context" where
  "srtp_new lib rnd = new_with_suite lib rnd AesCm128HmacSha180"

definition from_sdes :: "crypto_lib \<Rightarrow> string \<Rightarrow> srtp_error + srtp_context" where
  "from_sdes lib base64_key_salt = from_sdes_with_suite lib AesCm128HmacSha180 base64_key_salt"

definition to_sdes_key :: "crypto_lib \<Rightarrow> srtp_context \<Rightarrow> string" where
  "to_sdes_key lib s =
     b64_encode lib (sc_master_key s @ take (salt_len (sc_suite s)) (sc_master_salt s))"

definition to_sdp_crypto_line :: "crypto_lib \<Rightarrow> srtp_context \<Rightarrow> u32 \<Rightarrow> string" where
  "to_sdp_crypto_line lib s tag =
     ''a=crypto:'' @ show_nat (unat tag) @ '' '' @ sdp_name (sc_suite s) @ '' inline:'' @ to_sdes_key lib s"

definition to_sdes_attribute :: "crypto_lib \<Rightarrow> srtp_context \<Rightarrow> string" where
  "to_sdes_attribute lib s =
     ''a=crypto:1 '' @ sdp_name (sc_suite s) @ '' inline:'' @ to_sdes_key lib s"

section \<open>RTP headers\<close>

record rtp_header =
  rtp_version :: u8
  rtp_padding :: bool
  rtp_extension :: bool
  rtp_csrc_count :: u8
  rtp_sequence :: u16
  rtp_timestamp :: u32
  rtp_ssrc :: u32
  rtp_extension_length :: "u16 option"

definition rtp_parse :: "bytes \<Rightarrow> srtp_error + rtp_header" where
  "rtp_parse data =
     (if length data < RTP_HEADER_MIN_LEN then Inl InvalidRtpPacket
      else
        (let first = data ! 0;
             version = drop_bit 6 first AND 3;
             ext = (drop_bit 4 first AND 1 \<noteq> 0);
             cc = first AND 0x0F;
             csrc_end = RTP_HEADER_MIN_LEN + unat cc * 4;
             header = (\<lambda>len. \<lparr>rtp_version = version, rtp_padding = (drop_bit 5 first AND 1 \<noteq> 0),
                rtp_extension = ext, rtp_csrc_count = cc,
                rtp_sequence = from_be [data ! 2, data ! 3],
                rtp_timestamp = from_be [data ! 4, data ! 5, data ! 6, data ! 7],
                rtp_ssrc = from_be [data ! 8, data ! 9, data ! 10, data ! 11],
                rtp_extension_length = len\<rparr>)
         in if version \<noteq> 2 then Inl InvalidRtpPacket
            else if length data < csrc_end then Inl InvalidRtpPacket
            else if ext then
              (if length data < csrc_end + 4 then Inl InvalidRtpPacket
               else Inr (header (Some (from_be [data ! (csrc_end + 2), data ! (csrc_end + 3)]))))
            else Inr (header None)))"

definition total_header_len :: "rtp_header \<Rightarrow> nat" where
  "total_header_len h =
     RTP_HEADER_MIN_LEN + unat (rtp_csrc_count h) * 4 +
     (if rtp_extension h
      then (case rtp_extension_length h of Some l \<Rightarrow> 4 + unat l * 4 | None \<Rightarrow> 0) else 0)"

section \<open>The rollover counter\<close>

definition estimate_roc :: "srtp_stream_state \<Rightarrow> u16 \<Rightarrow> u32" where
  "estimate_roc st sequence =
     (case ss_highest st of
        None \<Rightarrow> ss_roc st
      | Some highest \<Rightarrow>
          if highest < 32768 then
            (if 32768 < sequence - highest then saturating_sub (ss_roc st) 1 else ss_roc st)
          else if sequence < highest - 32768 then ss_roc st + 1
          else ss_roc st)"

definition index_of :: "u32 \<Rightarrow> u16 \<Rightarrow> u64" where
  "index_of roc sequence = push_bit 16 (ucast roc) OR ucast sequence"

definition update_stream_state_after_success :: "u16 \<Rightarrow> u32 \<Rightarrow> srtp_stream_state \<Rightarrow> srtp_stream_state" where
  "update_stream_state_after_success sequence guessed_roc st =
     (case ss_highest st of
        None \<Rightarrow> \<lparr>ss_roc = guessed_roc, ss_highest = Some sequence\<rparr>
      | Some highest \<Rightarrow>
          if index_of (ss_roc st) highest < index_of guessed_roc sequence
          then \<lparr>ss_roc = guessed_roc, ss_highest = Some sequence\<rparr> else st)"

text \<open>\<open>entry(ssrc).or_default()\<close>: the entry exists afterwards.\<close>

definition stream_of :: "srtp_context \<Rightarrow> u32 \<Rightarrow> srtp_stream_state" where
  "stream_of s ssrc = (case hm_get (sc_streams s) ssrc of Some st \<Rightarrow> st | None \<Rightarrow> stream_default)"

definition stream_state_mut :: "u32 \<Rightarrow> (srtp_stream_state \<Rightarrow> srtp_stream_state) \<Rightarrow> srtp_context \<Rightarrow> srtp_context" where
  "stream_state_mut ssrc f s =
     s\<lparr>sc_streams := hm_insert ssrc (f (stream_of s ssrc)) (sc_streams s)\<rparr>"

section \<open>Ciphers and tags\<close>

definition cm_iv :: "srtp_context \<Rightarrow> u32 \<Rightarrow> u64 \<Rightarrow> bytes" where
  "cm_iv s ssrc packet_index =
     (let iv = [0, 0, 0, 0] @ be_bytes 4 ssrc @ drop 2 (be_bytes 8 packet_index) @ [0, 0]
      in xor_bytes (take SESSION_SALT_LEN iv) (sc_session_salt s) @ drop SESSION_SALT_LEN iv)"

definition aes_cm_encrypt :: "crypto_lib \<Rightarrow> srtp_context \<Rightarrow> u32 \<Rightarrow> u64 \<Rightarrow> bytes \<Rightarrow> bytes" where
  "aes_cm_encrypt lib s ssrc packet_index data =
     (if data = [] then []
      else
        (let iv = cm_iv s ssrc packet_index
         in concat (map (\<lambda>block_idx.
              (let aes = aes_block lib (sc_session_key s) (ctr_block iv (of_nat block_idx));
                   start = block_idx * 16
               in map (\<lambda>i. (data ! i) XOR (aes ! (i - start))) [start..<min (start + 16) (length data)]))
            [0..<(length data + 15) div 16])))"

definition gcm_iv :: "srtp_context \<Rightarrow> u32 \<Rightarrow> u32 \<Rightarrow> u16 \<Rightarrow> bytes" where
  "gcm_iv s ssrc roc sequence =
     xor_bytes ([0, 0] @ be_bytes 4 ssrc @ be_bytes 4 roc @ be_bytes 2 sequence)
       (take 12 (sc_session_salt s))"

definition gcm_encrypt_payload ::
  "crypto_lib \<Rightarrow> srtp_context \<Rightarrow> u32 \<Rightarrow> u32 \<Rightarrow> u16 \<Rightarrow> bytes \<Rightarrow> bytes \<Rightarrow> srtp_error + bytes" where
  "gcm_encrypt_payload lib s ssrc roc sequence aad payload =
     (case gcm_encrypt lib (sc_session_key s) (gcm_iv s ssrc roc sequence) aad payload of
        Some c \<Rightarrow> Inr c | None \<Rightarrow> Inl EncryptionFailed)"

definition gcm_decrypt_payload ::
  "crypto_lib \<Rightarrow> srtp_context \<Rightarrow> u32 \<Rightarrow> u32 \<Rightarrow> u16 \<Rightarrow> bytes \<Rightarrow> bytes \<Rightarrow> srtp_error + bytes" where
  "gcm_decrypt_payload lib s ssrc roc sequence aad ciphertext_with_tag =
     (case gcm_decrypt lib (sc_session_key s) (gcm_iv s ssrc roc sequence) aad ciphertext_with_tag of
        Some m \<Rightarrow> Inr m | None \<Rightarrow> Inl AuthenticationFailed)"

definition compute_auth_tag :: "crypto_lib \<Rightarrow> srtp_context \<Rightarrow> bytes \<Rightarrow> u32 \<Rightarrow> bytes" where
  "compute_auth_tag lib s portion roc =
     take AUTH_TAG_LEN (hmac_sha1 lib (sc_session_auth_key s) (portion @ be_bytes 4 roc))"

definition constant_time_eq :: "bytes \<Rightarrow> bytes \<Rightarrow> bool" where
  "constant_time_eq a b =
     (if length a \<noteq> length b then False
      else foldl (\<lambda>diff (x, y). diff OR (x XOR y)) 0 (zip a b) = 0)"

section \<open>Protecting and unprotecting\<close>

definition packet_index :: "u32 \<Rightarrow> u16 \<Rightarrow> u64" where
  "packet_index roc sequence = ucast roc * 65536 + ucast sequence"

definition seal_packet :: "crypto_lib \<Rightarrow> srtp_context \<Rightarrow> rtp_header \<Rightarrow> u32 \<Rightarrow> bytes \<Rightarrow> srtp_error + bytes" where
  "seal_packet lib s header roc packet =
     (let header_len = total_header_len header;
          payload = drop header_len packet
      in case sc_suite s of
           AesCm128HmacSha180 \<Rightarrow>
             (let encrypted = aes_cm_encrypt lib s (rtp_ssrc header)
                                (packet_index roc (rtp_sequence header)) payload;
                  srtp_packet = take header_len packet @ encrypted
              in Inr (srtp_packet @ compute_auth_tag lib s srtp_packet roc))
         | AeadAes128Gcm \<Rightarrow>
             (case gcm_encrypt_payload lib s (rtp_ssrc header) roc (rtp_sequence header)
                     (take header_len packet) payload of
                Inl e \<Rightarrow> Inl e
              | Inr encrypted \<Rightarrow> Inr (take header_len packet @ encrypted)))"

definition protect_rtp :: "crypto_lib \<Rightarrow> bytes \<Rightarrow> srtp_context \<Rightarrow> (srtp_error + bytes) \<times> srtp_context" where
  "protect_rtp lib packet s =
     (if length packet < RTP_HEADER_MIN_LEN then (Inl InvalidRtpPacket, s)
      else
        (case rtp_parse packet of
           Inl e \<Rightarrow> (Inl e, s)
         | Inr header \<Rightarrow>
             if length packet < total_header_len header then (Inl InvalidRtpPacket, s)
             else
               (let s1 = stream_state_mut (rtp_ssrc header) id s;
                    roc = estimate_roc (stream_of s1 (rtp_ssrc header)) (rtp_sequence header)
                in case seal_packet lib s1 header roc packet of
                     Inl e \<Rightarrow> (Inl e, s1)
                   | Inr srtp_packet \<Rightarrow>
                       (Inr srtp_packet,
                        stream_state_mut (rtp_ssrc header)
                          (update_stream_state_after_success (rtp_sequence header) roc) s1))))"

definition unseal_packet :: "crypto_lib \<Rightarrow> srtp_context \<Rightarrow> rtp_header \<Rightarrow> u32 \<Rightarrow> bytes \<Rightarrow> srtp_error + bytes" where
  "unseal_packet lib s header roc packet =
     (let auth_tag_start = length packet - auth_tag_len (sc_suite s);
          authenticated_portion = take auth_tag_start packet;
          received_tag = drop auth_tag_start packet;
          header_len = total_header_len header
      in case sc_suite s of
           AesCm128HmacSha180 \<Rightarrow>
             if \<not> constant_time_eq (compute_auth_tag lib s authenticated_portion roc) received_tag
             then Inl AuthenticationFailed
             else Inr (take header_len authenticated_portion
                    @ aes_cm_encrypt lib s (rtp_ssrc header) (packet_index roc (rtp_sequence header))
                        (drop header_len authenticated_portion))
         | AeadAes128Gcm \<Rightarrow>
             (case gcm_decrypt_payload lib s (rtp_ssrc header) roc (rtp_sequence header)
                     (take header_len packet) (drop header_len packet) of
                Inl e \<Rightarrow> Inl e
              | Inr plaintext \<Rightarrow> Inr (take header_len packet @ plaintext)))"

definition unprotect_rtp :: "crypto_lib \<Rightarrow> bytes \<Rightarrow> srtp_context \<Rightarrow> (srtp_error + bytes) \<times> srtp_context" where
  "unprotect_rtp lib packet s =
     (let tag_len = auth_tag_len (sc_suite s) in
      if length packet < RTP_HEADER_MIN_LEN + tag_len then (Inl InvalidRtpPacket, s)
      else
        (let authenticated_portion = take (length packet - tag_len) packet
         in case rtp_parse authenticated_portion of
              Inl e \<Rightarrow> (Inl e, s)
            | Inr header \<Rightarrow>
                if length authenticated_portion < total_header_len header then (Inl InvalidRtpPacket, s)
                else
                  (let s1 = stream_state_mut (rtp_ssrc header) id s;
                       roc = estimate_roc (stream_of s1 (rtp_ssrc header)) (rtp_sequence header)
                   in case unseal_packet lib s1 header roc packet of
                        Inl e \<Rightarrow> (Inl e, s1)
                      | Inr rtp_packet \<Rightarrow>
                          (Inr rtp_packet,
                           stream_state_mut (rtp_ssrc header)
                             (update_stream_state_after_success (rtp_sequence header) roc) s1))))"

section \<open>The crypto attribute\<close>

definition parse_crypto_attribute :: "string \<Rightarrow> srtp_error + (nat \<times> string \<times> string)" where
  "parse_crypto_attribute input =
     (let line = trim input;
          content = (if starts_with line ''a='' then drop 2 line else line)
      in if \<not> starts_with content ''crypto:'' then Inl CryptoAttributeParseError
         else
           (case splitn 3 (CHR '' '') (drop 7 content) of
              [tag_part, suite_part, key_part] \<Rightarrow>
                (case parse_uint 32 tag_part of
                   None \<Rightarrow> Inl CryptoAttributeParseError
                 | Some tag \<Rightarrow>
                     if \<not> starts_with key_part ''inline:'' then Inl CryptoAttributeParseError
                     else
                       (let key = first_piece (\<lambda>c. c = CHR ''|'') (drop 7 key_part)
                        in if key = [] then Inl CryptoAttributeParseError
                           else Inr (tag, suite_part, key)))
            | _ \<Rightarrow> Inl CryptoAttributeParseError))"

section \<open>A channel between two contexts\<close>

text \<open>
  One end seals packets, the other opens what arrives; each keeps a state. \<open>run_packets\<close> feeds a
  list through such an end and collects what comes out, skipping the errors as the relay does.
\<close>

fun run_packets :: "('p \<Rightarrow> 's \<Rightarrow> ('e + 'q) \<times> 's) \<Rightarrow> 'p list \<Rightarrow> 's \<Rightarrow> 'q list \<times> 's" where
  "run_packets f [] s = ([], s)"
| "run_packets f (p # ps) s =
     (case f p s of (r, s1) \<Rightarrow>
        (case run_packets f ps s1 of (qs, s2) \<Rightarrow>
           ((case r of Inr q \<Rightarrow> q # qs | Inl _ \<Rightarrow> qs), s2)))"

lemma run_packets_Cons:
  "fst (run_packets f (p # ps) s) =
     (case fst (f p s) of Inr q \<Rightarrow> [q] | Inl _ \<Rightarrow> []) @ fst (run_packets f ps (snd (f p s)))"
  "snd (run_packets f (p # ps) s) = snd (run_packets f ps (snd (f p s)))"
  by (simp_all split: prod.splits sum.splits)

declare run_packets.simps(2) [simp del]
declare run_packets_Cons [simp]

locale packet_channel =
  fixes seal :: "'p \<Rightarrow> 's \<Rightarrow> ('e + 'q) \<times> 's"
    and unseal :: "'q \<Rightarrow> 's \<Rightarrow> ('e + 'p) \<times> 's"
    and in_sync :: "'s \<Rightarrow> 's \<Rightarrow> bool"
    and sendable :: "'p \<Rightarrow> bool"
    and fits :: "'p \<Rightarrow> bool"
  assumes deliver: "in_sync a b \<Longrightarrow> fits p \<Longrightarrow> sendable p \<Longrightarrow>
      \<exists>q a' b'. seal p a = (Inr q, a') \<and> unseal q b = (Inr p, b') \<and> in_sync a' b'"
    and refuse: "in_sync a b \<Longrightarrow> fits p \<Longrightarrow> \<not> sendable p \<Longrightarrow>
      \<exists>e a'. seal p a = (Inl e, a') \<and> in_sync a' b"
begin

lemma one_packet:
  assumes "in_sync a b" "fits p"
  obtains (sent) q a' b' where "sendable p" "seal p a = (Inr q, a')" "unseal q b = (Inr p, b')" "in_sync a' b'"
  | (lost) e a' where "\<not> sendable p" "seal p a = (Inl e, a')" "in_sync a' b"
  using deliver [OF assms] refuse [OF assms] by blast

lemma stream:
  assumes "in_sync a b" "list_all fits ps"
  shows "fst (run_packets unseal (fst (run_packets seal ps a)) b) = filter sendable ps"
    and "in_sync (snd (run_packets seal ps a)) (snd (run_packets unseal (fst (run_packets seal ps a)) b))"
proof -
  have "fst (run_packets unseal (fst (run_packets seal ps a)) b) = filter sendable ps \<and>
    in_sync (snd (run_packets seal ps a)) (snd (run_packets unseal (fst (run_packets seal ps a)) b))"
    using assms
  proof (induction ps arbitrary: a b)
    case (Cons p ps)
    from Cons.prems have f: "fits p" "list_all fits ps" by simp_all
    from Cons.prems(1) f(1) show ?case
    proof (cases rule: one_packet)
      case (sent q a' b')
      with Cons.IH [OF sent(4) f(2)] show ?thesis by simp
    next
      case (lost e a')
      with Cons.IH [OF lost(3) f(2)] show ?thesis by simp
    qed
  qed simp
  then show "fst (run_packets unseal (fst (run_packets seal ps a)) b) = filter sendable ps"
    and "in_sync (snd (run_packets seal ps a)) (snd (run_packets unseal (fst (run_packets seal ps a)) b))"
    by blast+
qed

end

section \<open>What the other crates promise\<close>

text \<open>
  HMAC-SHA1 has 20 bytes. AES-GCM encrypts up to \<open>2 ^ 36\<close> bytes, appends 16, and decryption under the
  same key, nonce and associated data returns the text. Base64 decoding inverts encoding, and
  the encoding uses its alphabet.
\<close>

definition cipher_laws :: "crypto_lib \<Rightarrow> bool" where
  "cipher_laws lib \<longleftrightarrow>
     (\<forall>k m. length (hmac_sha1 lib k m) = 20) \<and>
     (\<forall>k n a m. length m < 2 ^ 36 \<longrightarrow> length a < 2 ^ 36 \<longrightarrow>
        (\<exists>c. gcm_encrypt lib k n a m = Some c \<and> length c = length m + 16 \<and>
             gcm_decrypt lib k n a c = Some m))"

definition b64_alphabet :: "char set" where
  "b64_alphabet = set ''ABCDEFGHIJKLMNOPQRSTUVWXYZabcdefghijklmnopqrstuvwxyz0123456789+/=''"

definition b64_laws :: "crypto_lib \<Rightarrow> bool" where
  "b64_laws lib \<longleftrightarrow> b64_encode lib [] = [] \<and>
     (\<forall>bs. b64_decode lib (b64_encode lib bs) = Some bs \<and> set (b64_encode lib bs) \<subseteq> b64_alphabet)"

section \<open>Facts about the ciphers\<close>

lemma blocks_concat:
  "concat (map (\<lambda>b. map (f b) [b * 16..<min (b * 16 + 16) n]) [0..<k]) =
     map (\<lambda>i. f (i div 16) i) [0..<min (k * 16) n]"
proof (induction k)
  case (Suc k)
  have "map (f k) [k * 16..<min (k * 16 + 16) n] = map (\<lambda>i. f (i div 16) i) [k * 16..<min (k * 16 + 16) n]"
    by (rule map_cong [OF refl]) (auto intro!: arg_cong [where f = "\<lambda>b. f b _"])
  moreover have "[0..<min (Suc k * 16) n] = [0..<min (k * 16) n] @ [k * 16..<min (k * 16 + 16) n]"
  proof (cases "k * 16 \<le> n")
    case True
    then show ?thesis using upt_add_eq_append [of 0 "k * 16" "min (k * 16 + 16) n - k * 16"]
      by (simp add: add.commute)
  qed (simp add: min_def)
  ultimately show ?case using Suc by simp
qed simp

definition key_stream :: "crypto_lib \<Rightarrow> srtp_context \<Rightarrow> u32 \<Rightarrow> u64 \<Rightarrow> nat \<Rightarrow> u8" where
  "key_stream lib s ssrc idx i =
     aes_block lib (sc_session_key s) (ctr_block (cm_iv s ssrc idx) (of_nat (i div 16))) ! (i mod 16)"

lemma aes_cm_stream:
  "aes_cm_encrypt lib s ssrc idx data =
     map (\<lambda>i. (data ! i) XOR key_stream lib s ssrc idx i) [0..<length data]"
proof (cases "data = []")
  case False
  let ?f = "\<lambda>b i. (data ! i) XOR (aes_block lib (sc_session_key s) (ctr_block (cm_iv s ssrc idx) (of_nat b)) ! (i - b * 16))"
  have "(length data + 15) div 16 * 16 \<ge> length data" by arith
  then have "min ((length data + 15) div 16 * 16) (length data) = length data" by simp
  moreover have "i - i div 16 * 16 = i mod 16" for i :: nat by (simp add: minus_div_mult_eq_mod)
  ultimately show ?thesis using False blocks_concat [of ?f "length data" "(length data + 15) div 16"]
    by (simp add: aes_cm_encrypt_def Let_def key_stream_def)
qed (simp add: aes_cm_encrypt_def)

lemma length_aes_cm [simp]: "length (aes_cm_encrypt lib s ssrc idx data) = length data"
  by (simp add: aes_cm_stream)

lemma aes_cm_involution [simp]:
  "aes_cm_encrypt lib s ssrc idx (aes_cm_encrypt lib s ssrc idx data) = data"
  by (rule nth_equalityI) (simp_all add: aes_cm_stream xor.assoc)

lemma xor_zero_eq: "a XOR b = 0 \<longleftrightarrow> a = b" for a b :: "'a::len word"
proof
  assume "a XOR b = 0"
  then have "(a XOR b) XOR b = b" by simp
  then show "a = b" by (simp add: xor.assoc)
qed simp

lemma foldl_or_zero:
  "foldl (\<lambda>diff (x, y). diff OR (x XOR y)) d zs = 0 \<longleftrightarrow> d = 0 \<and> (\<forall>(x, y) \<in> set zs. x = y)"
  for d :: "'a::len word"
  by (induction zs arbitrary: d) (auto simp: or_eq_0_iff xor_zero_eq)

lemma constant_time_eq_iff [simp]: "constant_time_eq a b \<longleftrightarrow> a = b"
proof -
  have "constant_time_eq a b \<longleftrightarrow> list_all2 (=) a b"
    by (simp add: constant_time_eq_def foldl_or_zero list_all2_iff)
  then show ?thesis by (simp add: list.rel_eq)
qed

section \<open>Facts about packets\<close>

lemma header_min: "12 \<le> total_header_len h"
  by (simp add: total_header_len_def RTP_HEADER_MIN_LEN_def)

definition rtp_ok :: "bytes \<Rightarrow> bool" where
  "rtp_ok p = (case rtp_parse p of Inr h \<Rightarrow> total_header_len h \<le> length p | Inl _ \<Rightarrow> False)"

lemma rtp_ok_header:
  assumes "rtp_ok p"
  obtains h where "rtp_parse p = Inr h" "total_header_len h \<le> length p"
  using assms by (cases "rtp_parse p") (auto simp: rtp_ok_def)

lemma rtp_parse_fields:
  assumes "rtp_parse p = Inr h"
  shows "rtp_csrc_count h = (p ! 0) AND 0x0F" "rtp_extension h = (drop_bit 4 (p ! 0) AND 1 \<noteq> 0)"
    "rtp_extension_length h = (if rtp_extension h
       then Some (from_be [p ! (12 + unat (rtp_csrc_count h) * 4 + 2), p ! (12 + unat (rtp_csrc_count h) * 4 + 3)])
       else None)"
  using assms by (auto simp: rtp_parse_def RTP_HEADER_MIN_LEN_def Let_def split: if_splits)

lemma header_len_parts:
  assumes "rtp_parse p = Inr h"
  shows "12 + unat ((p ! 0) AND 0x0F) * 4 + (if drop_bit 4 (p ! 0) AND 1 \<noteq> 0 then 4 else 0) \<le> total_header_len h"
  using rtp_parse_fields [OF assms] by (auto simp: total_header_len_def RTP_HEADER_MIN_LEN_def)

text \<open>The header is determined by its own bytes.\<close>

lemma rtp_parse_take:
  assumes h: "rtp_parse p = Inr h" and l: "total_header_len h \<le> length p"
  shows "rtp_parse (take (total_header_len h) p @ x) = Inr h"
proof -
  let ?d = "take (total_header_len h) p @ x"
  have n: "?d ! i = p ! i" if "i < total_header_len h" for i
    using that l by (simp add: nth_append)
  note m = header_min [of h]
  have n0: "?d ! 0 = p ! 0" "?d ! 2 = p ! 2" "?d ! 3 = p ! 3" "?d ! 4 = p ! 4" "?d ! 5 = p ! 5"
    "?d ! 6 = p ! 6" "?d ! 7 = p ! 7" "?d ! 8 = p ! 8" "?d ! 9 = p ! 9" "?d ! 10 = p ! 10" "?d ! 11 = p ! 11"
    using m by (simp_all only: n)
  have len: "total_header_len h \<le> length ?d" using l by simp
  let ?c = "12 + unat ((p ! 0) AND 0x0F) * 4"
  note parts = header_len_parts [OF h]
  have e: "?d ! (?c + 2) = p ! (?c + 2)" "?d ! (?c + 3) = p ! (?c + 3)"
    if "drop_bit 4 (p ! 0) AND 1 \<noteq> 0"
  proof -
    have "?c + 3 < total_header_len h" "?c + 2 < total_header_len h" using parts that by simp_all
    then show "?d ! (?c + 2) = p ! (?c + 2)" "?d ! (?c + 3) = p ! (?c + 3)" by (simp_all only: n)
  qed
  have g: "\<not> length ?d < 12" "\<not> length ?d < ?c" "drop_bit 4 (p ! 0) AND 1 \<noteq> 0 \<Longrightarrow> \<not> length ?d < ?c + 4"
    using len parts m by auto
  have f: "\<not> length p < 12" "\<not> length p < ?c" "drop_bit 4 (p ! 0) AND 1 \<noteq> 0 \<Longrightarrow> \<not> length p < ?c + 4"
    using l parts m by auto
  have "rtp_parse ?d = rtp_parse p"
  proof (cases "drop_bit 4 (p ! 0) AND 1 \<noteq> 0")
    case True
    show ?thesis unfolding rtp_parse_def Let_def RTP_HEADER_MIN_LEN_def n0
      by (simp only: if_not_P [OF f(1)] if_not_P [OF f(2)] if_not_P [OF f(3) [OF True]] if_not_P [OF g(1)]
          if_not_P [OF g(2)] if_not_P [OF g(3) [OF True]] if_P [OF True] e [OF True])
  next
    case False
    show ?thesis unfolding rtp_parse_def Let_def RTP_HEADER_MIN_LEN_def n0
      by (simp only: if_not_P [OF f(1)] if_not_P [OF f(2)] if_not_P [OF g(1)] if_not_P [OF g(2)] if_not_P [OF False])
  qed
  with h show ?thesis by simp
qed

lemma length_compute_auth_tag: "cipher_laws lib \<Longrightarrow> length (compute_auth_tag lib s d r) = 10"
  by (simp add: compute_auth_tag_def cipher_laws_def AUTH_TAG_LEN_def)

definition same_keys :: "srtp_context \<Rightarrow> srtp_context \<Rightarrow> bool" where
  "same_keys s t \<longleftrightarrow> sc_suite s = sc_suite t \<and> sc_session_key s = sc_session_key t \<and>
     sc_session_salt s = sc_session_salt t \<and> sc_session_auth_key s = sc_session_auth_key t"

lemma same_keys_ciphers:
  assumes "same_keys s t"
  shows "sc_suite s = sc_suite t" "aes_cm_encrypt lib s = aes_cm_encrypt lib t"
    "compute_auth_tag lib s = compute_auth_tag lib t"
    "gcm_encrypt_payload lib s = gcm_encrypt_payload lib t"
    "gcm_decrypt_payload lib s = gcm_decrypt_payload lib t"
  using assms
  by (auto simp: same_keys_def aes_cm_encrypt_def cm_iv_def compute_auth_tag_def
      gcm_encrypt_payload_def gcm_decrypt_payload_def gcm_iv_def fun_eq_iff)

lemma same_keys_stream [simp]:
  "same_keys (stream_state_mut c f s) t = same_keys s t" "same_keys s (stream_state_mut c f t) = same_keys s t"
  by (simp_all add: same_keys_def stream_state_mut_def)

lemma stream_state_mut_simps [simp]:
  "sc_suite (stream_state_mut c f s) = sc_suite s"
  "stream_of (stream_state_mut c f s) d = (if d = c then f (stream_of s c) else stream_of s d)"
  by (simp_all add: stream_state_mut_def stream_of_def)

text \<open>Sealing under a rollover counter and unsealing under the same one returns the packet.\<close>

lemma unseal_seal:
  assumes laws: "cipher_laws lib" and keys: "same_keys s t"
    and h: "rtp_parse p = Inr h" "total_header_len h \<le> length p" and fits: "length p < 2 ^ 36"
  obtains q where "seal_packet lib s h roc p = Inr q" "unseal_packet lib t h roc q = Inr p"
    "take (length q - auth_tag_len (sc_suite t)) q = take (total_header_len h) p @ drop (total_header_len h) (take (length q - auth_tag_len (sc_suite t)) q)"
    "total_header_len h + auth_tag_len (sc_suite t) \<le> length q"
proof (cases "sc_suite t")
  case AesCm128HmacSha180
  let ?d = "take (total_header_len h) p @ aes_cm_encrypt lib t (rtp_ssrc h) (packet_index roc (rtp_sequence h)) (drop (total_header_len h) p)"
  note k = same_keys_ciphers [OF keys]
  have "seal_packet lib s h roc p = Inr (?d @ compute_auth_tag lib t ?d roc)"
    using AesCm128HmacSha180 by (simp add: seal_packet_def Let_def k)
  then show ?thesis
    by (rule that)
      (use AesCm128HmacSha180 length_compute_auth_tag [OF laws] h(2) in
        \<open>simp_all add: unseal_packet_def Let_def auth_tag_len_def AUTH_TAG_LEN_def\<close>)
next
  case AeadAes128Gcm
  note k = same_keys_ciphers [OF keys]
  let ?hd = "take (total_header_len h) p" and ?pl = "drop (total_header_len h) p"
  have "length ?pl < 2 ^ 36" "length ?hd < 2 ^ 36" using fits by auto
  then obtain c where c: "gcm_encrypt lib (sc_session_key t) (gcm_iv t (rtp_ssrc h) roc (rtp_sequence h)) ?hd ?pl = Some c"
    "length c = length ?pl + 16"
    "gcm_decrypt lib (sc_session_key t) (gcm_iv t (rtp_ssrc h) roc (rtp_sequence h)) ?hd c = Some ?pl"
    using laws unfolding cipher_laws_def by blast
  have "seal_packet lib s h roc p = Inr (?hd @ c)"
    using AeadAes128Gcm c(1) by (simp add: seal_packet_def Let_def k gcm_encrypt_payload_def)
  then show ?thesis
    by (rule that)
      (use AeadAes128Gcm c h(2) in
        \<open>simp_all add: unseal_packet_def Let_def auth_tag_len_def GCM_AUTH_TAG_LEN_def gcm_decrypt_payload_def\<close>)
qed

section \<open>The channel of two contexts\<close>

definition in_sync :: "crypto_lib \<Rightarrow> srtp_context \<Rightarrow> srtp_context \<Rightarrow> bool" where
  "in_sync lib s t \<longleftrightarrow> cipher_laws lib \<and> same_keys s t \<and> (\<forall>ssrc. stream_of s ssrc = stream_of t ssrc)"

definition udp_sized :: "bytes \<Rightarrow> bool" where
  "udp_sized p \<longleftrightarrow> length p < 65536"

lemma protect_then_unprotect:
  assumes sync: "in_sync lib s t" and ok: "udp_sized p" "rtp_ok p"
  shows "\<exists>q s' t'. protect_rtp lib p s = (Inr q, s') \<and> unprotect_rtp lib q t = (Inr p, t') \<and> in_sync lib s' t'"
proof -
  obtain h where h: "rtp_parse p = Inr h" "total_header_len h \<le> length p" using ok(2) by (rule rtp_ok_header)
  have laws: "cipher_laws lib" and keys: "same_keys s t" and st: "stream_of t ssrc = stream_of s ssrc" for ssrc
    using sync by (simp_all add: in_sync_def)
  let ?c = "rtp_ssrc h"
  let ?roc = "estimate_roc (stream_of s ?c) (rtp_sequence h)"
  let ?up = "\<lambda>x. stream_state_mut ?c (update_stream_state_after_success (rtp_sequence h) ?roc) (stream_state_mut ?c id x)"
  have keys': "same_keys (stream_state_mut ?c id s) (stream_state_mut ?c id t)" using keys by simp
  have fits: "length p < 2 ^ 36" using ok(1) by (simp add: udp_sized_def)
  obtain q where q: "seal_packet lib (stream_state_mut ?c id s) h ?roc p = Inr q"
    "unseal_packet lib (stream_state_mut ?c id t) h ?roc q = Inr p"
    "take (length q - auth_tag_len (sc_suite t)) q =
       take (total_header_len h) p @ drop (total_header_len h) (take (length q - auth_tag_len (sc_suite t)) q)"
    "total_header_len h + auth_tag_len (sc_suite t) \<le> length q"
    using unseal_seal [OF laws keys' h fits, of ?roc] by auto
  have p: "rtp_parse (take (length q - auth_tag_len (sc_suite t)) q) = Inr h"
    by (subst q(3)) (rule rtp_parse_take [OF h])
  have "protect_rtp lib p s = (Inr q, ?up s)"
    using h header_min [of h] q(1) by (simp add: protect_rtp_def RTP_HEADER_MIN_LEN_def Let_def)
  moreover have "unprotect_rtp lib q t = (Inr p, ?up t)"
    using p q(2,4) header_min [of h] st [of ?c]
    by (auto simp: unprotect_rtp_def RTP_HEADER_MIN_LEN_def Let_def)
  moreover have "in_sync lib (?up s) (?up t)"
    using laws keys st by (simp add: in_sync_def)
  ultimately show ?thesis by blast
qed

lemma protect_refuses:
  assumes "\<not> rtp_ok p"
  shows "\<exists>e. protect_rtp lib p s = (Inl e, s)"
  using assms by (auto simp: protect_rtp_def rtp_ok_def split: sum.splits)

interpretation srtp: packet_channel "protect_rtp lib" "unprotect_rtp lib" "in_sync lib" rtp_ok udp_sized
  for lib
proof unfold_locales
  show "\<exists>q s' t'. protect_rtp lib p s = (Inr q, s') \<and> unprotect_rtp lib q t = (Inr p, t') \<and> in_sync lib s' t'"
    if "in_sync lib s t" "udp_sized p" "rtp_ok p" for s t p
    using that by (rule protect_then_unprotect)
  show "\<exists>e s'. protect_rtp lib p s = (Inl e, s') \<and> in_sync lib s' t"
    if "in_sync lib s t" "udp_sized p" "\<not> rtp_ok p" for s t p
    using protect_refuses [OF that(3)] that(1) by blast
qed

section \<open>Properties\<close>

lemma with_keys_simps [simp]:
  "sc_suite (with_keys lib su k salt) = su" "sc_master_key (with_keys lib su k salt) = k"
  "sc_master_salt (with_keys lib su k salt) = salt @ replicate (MASTER_SALT_LEN - length salt) 0"
  "stream_of (with_keys lib su k salt) ssrc = stream_default"
  by (simp_all add: with_keys_def derive_session_keys_def Let_def stream_of_def)

lemma sdp_name_facts:
  "from_sdp_name (sdp_name su) = Some su" "CHR '' '' \<notin> set (sdp_name su)"
proof -
  have "to_upper ''AES_CM_128_HMAC_SHA1_80'' = ''AES_CM_128_HMAC_SHA1_80''"
    "to_upper ''AEAD_AES_128_GCM'' = ''AEAD_AES_128_GCM''" by code_simp+
  then show "from_sdp_name (sdp_name su) = Some su"
    by (cases su) (simp_all add: from_sdp_name_def sdp_name_def)
  show "CHR '' '' \<notin> set (sdp_name su)" by (cases su) (simp_all add: sdp_name_def)
qed

lemma b64_no_sep:
  assumes "set k \<subseteq> b64_alphabet"
  shows "first_piece (\<lambda>c. c = CHR ''|'') k = k" "k \<noteq> [] \<Longrightarrow> \<not> is_ws (last k)" "trim k = k"
proof -
  have a: "\<forall>c \<in> b64_alphabet. c \<noteq> CHR ''|'' \<and> \<not> is_ws c" by code_simp
  then have b: "c \<noteq> CHR ''|''" "\<not> is_ws c" if "c \<in> set k" for c using that assms by blast+
  then show "first_piece (\<lambda>c. c = CHR ''|'') k = k" by (simp add: first_piece_def)
  show "k \<noteq> [] \<Longrightarrow> \<not> is_ws (last k)" using b by simp
  show "trim k = k" using b by (cases "k = []") (simp_all add: trim_id)
qed

lemma split_once_word: "x \<notin> set w \<Longrightarrow> split_once x (w @ x # t) = Some (w, t)"
  by (simp add: split_once_def)

lemma parse_crypto_line:
  assumes "set k \<subseteq> b64_alphabet" "k \<noteq> []"
  shows "parse_crypto_attribute (''a=crypto:'' @ show_nat (unat tag) @ '' '' @ sdp_name su @ '' inline:'' @ k)
     = Inr (unat (tag :: u32), sdp_name su, k)"
proof -
  let ?rest = "show_nat (unat tag) @ CHR '' '' # sdp_name su @ CHR '' '' # ''inline:'' @ k"
  have tr: "trim (''a=crypto:'' @ ?rest) = ''a=crypto:'' @ ?rest"
    using b64_no_sep(2) [OF assms] assms(2) by (intro trim_id) (simp_all add: is_ws_def)
  have "CHR '' '' \<notin> set (show_nat (unat tag))"
    using show_nat_all_digits [of "CHR '' ''" "unat tag"] by (auto simp: is_digit_def)
  then have "splitn 3 (CHR '' '') ?rest = [show_nat (unat tag), sdp_name su, ''inline:'' @ k]"
    using sdp_name_facts(2) [of su] by (simp add: numeral_3_eq_3 split_once_word)
  moreover have "unat tag < 2 ^ 32" using unsigned_less [of tag] by simp
  ultimately show ?thesis using tr assms b64_no_sep(1) [OF assms(1)]
    by (simp add: parse_crypto_attribute_def Let_def)
qed

lemma new_with_suite_sdes:
  assumes "b64_laws lib"
  shows "set (to_sdes_key lib (new_with_suite lib rnd su)) \<subseteq> b64_alphabet"
    "to_sdes_key lib (new_with_suite lib rnd su) \<noteq> []"
    "from_sdes_with_suite lib su (to_sdes_key lib (new_with_suite lib rnd su)) = Inr (new_with_suite lib rnd su)"
proof -
  let ?key = "map rnd [0..<MASTER_KEY_LEN]" and ?salt = "map rnd [MASTER_KEY_LEN..<MASTER_KEY_LEN + salt_len su]"
  have k: "to_sdes_key lib (new_with_suite lib rnd su) = b64_encode lib (?key @ ?salt)"
    by (simp add: to_sdes_key_def new_with_suite_def)
  have d: "b64_decode lib (b64_encode lib (?key @ ?salt)) = Some (?key @ ?salt)"
    and a: "set (b64_encode lib (?key @ ?salt)) \<subseteq> b64_alphabet" and e: "b64_decode lib [] = Some []"
    using assms by (auto simp: b64_laws_def) (metis)
  show "set (to_sdes_key lib (new_with_suite lib rnd su)) \<subseteq> b64_alphabet" using a by (simp only: k)
  show "to_sdes_key lib (new_with_suite lib rnd su) \<noteq> []"
    using d e by (auto simp only: k) (simp add: MASTER_KEY_LEN_def)
  have t: "take MASTER_KEY_LEN (?key @ ?salt) = ?key" "drop MASTER_KEY_LEN (?key @ ?salt) = ?salt" by simp_all
  show "from_sdes_with_suite lib su (to_sdes_key lib (new_with_suite lib rnd su)) = Inr (new_with_suite lib rnd su)"
    unfolding from_sdes_with_suite_def k b64_no_sep(3) [OF a] d
    by (simp only: option.case t new_with_suite_def) simp
qed

text \<open>The key announced in the SDP is the key used. Reading the crypto line of a new context gives
  its tag, its suite and a key from which the other side builds the very same context.\<close>

theorem crypto_line_roundtrip:
  assumes "b64_laws lib"
  shows "\<exists>key. parse_crypto_attribute (to_sdp_crypto_line lib (new_with_suite lib rnd su) tag)
       = Inr (unat tag, sdp_name su, key) \<and> from_sdp_name (sdp_name su) = Some su \<and>
     from_sdes_with_suite lib su key = Inr (new_with_suite lib rnd su)"
proof -
  note k = new_with_suite_sdes [OF assms, where rnd = rnd and su = su]
  have "sc_suite (new_with_suite lib rnd su) = su" by (simp add: new_with_suite_def)
  with parse_crypto_line [OF k(1,2)] k(3) sdp_name_facts(1) show ?thesis
    by (auto simp: to_sdp_crypto_line_def)
qed

text \<open>C8: a stream of packets protected by one context and unprotected by the context built from its
  announced key arrives as it was sent, for both suites and any number of streams: every
  well-formed packet is recovered byte for byte, in order, and the malformed ones are never sent.\<close>

theorem srtp_stream_roundtrip:
  assumes "cipher_laws lib" "b64_laws lib" "list_all udp_sized packets"
  shows "\<exists>rx. from_sdes_with_suite lib su (to_sdes_key lib (new_with_suite lib rnd su)) = Inr rx \<and>
     fst (run_packets (unprotect_rtp lib)
            (fst (run_packets (protect_rtp lib) packets (new_with_suite lib rnd su))) rx) =
       filter rtp_ok packets"
proof -
  have "in_sync lib (new_with_suite lib rnd su) (new_with_suite lib rnd su)"
    using assms(1) by (simp add: in_sync_def same_keys_def)
  from srtp.stream(1) [OF this assms(3)] show ?thesis
    using new_with_suite_sdes(3) [OF assms(2)] by blast
qed

lemma unseal_same_keys: "same_keys s t \<Longrightarrow> unseal_packet lib s = unseal_packet lib t"
  by (intro ext, cases "sc_suite t") (simp_all add: unseal_packet_def Let_def same_keys_ciphers [of s t] cong: if_cong)

lemma same_keys_refl [simp]: "same_keys s s"
  by (simp add: same_keys_def)

lemma unprotect_cases:
  obtains (malformed) e where "\<not> (RTP_HEADER_MIN_LEN + auth_tag_len (sc_suite s) \<le> length q \<and>
      rtp_ok (take (length q - auth_tag_len (sc_suite s)) q))" "unprotect_rtp lib q s = (Inl e, s)"
  | (parsed) h roc where "RTP_HEADER_MIN_LEN + auth_tag_len (sc_suite s) \<le> length q"
    "rtp_ok (take (length q - auth_tag_len (sc_suite s)) q)"
    "rtp_parse (take (length q - auth_tag_len (sc_suite s)) q) = Inr h"
    "roc = estimate_roc (stream_of s (rtp_ssrc h)) (rtp_sequence h)"
    "unprotect_rtp lib q s = (case unseal_packet lib s h roc q of
        Inl e \<Rightarrow> (Inl e, stream_state_mut (rtp_ssrc h) id s)
      | Inr p \<Rightarrow> (Inr p, stream_state_mut (rtp_ssrc h)
           (update_stream_state_after_success (rtp_sequence h) roc) (stream_state_mut (rtp_ssrc h) id s)))"
proof (cases "RTP_HEADER_MIN_LEN + auth_tag_len (sc_suite s) \<le> length q \<and>
      rtp_ok (take (length q - auth_tag_len (sc_suite s)) q)")
  case True
  then obtain h where h: "rtp_parse (take (length q - auth_tag_len (sc_suite s)) q) = Inr h"
    "total_header_len h \<le> length (take (length q - auth_tag_len (sc_suite s)) q)"
    using rtp_ok_header by blast
  have u: "unseal_packet lib (stream_state_mut (rtp_ssrc h) id s) = unseal_packet lib s"
    by (rule unseal_same_keys) simp
  show ?thesis
    by (rule parsed [of h, OF _ _ h(1) refl])
      (use True h u in \<open>auto simp: unprotect_rtp_def Let_def split: sum.split\<close>)
next
  case False
  then have "\<exists>e. unprotect_rtp lib q s = (Inl e, s)"
    by (auto simp: unprotect_rtp_def Let_def rtp_ok_def split: sum.splits)
  then show ?thesis using malformed [OF False] by blast
qed

text \<open>C23: what is accepted, with AES-CM. A packet is accepted exactly when it is long enough, its
  header is complete and its last ten bytes are the tag of the rest under the estimated
  counter; a packet that is not accepted leaves every stream as it was.\<close>

theorem unprotect_accepts_iff:
  assumes "sc_suite s = AesCm128HmacSha180"
  shows "((\<exists>p. fst (unprotect_rtp lib q s) = Inr p) \<longleftrightarrow>
      (let body = take (length q - 10) q
       in 22 \<le> length q \<and> rtp_ok body \<and>
          (\<exists>h. rtp_parse body = Inr h \<and> drop (length q - 10) q =
             compute_auth_tag lib s body (estimate_roc (stream_of s (rtp_ssrc h)) (rtp_sequence h))))) \<and>
    ((\<forall>p. fst (unprotect_rtp lib q s) \<noteq> Inr p) \<longrightarrow>
      (\<forall>ssrc. stream_of (snd (unprotect_rtp lib q s)) ssrc = stream_of s ssrc))"
proof (cases rule: unprotect_cases [of s q lib])
  case (malformed e)
  then show ?thesis using assms
    by (auto simp: Let_def auth_tag_len_def AUTH_TAG_LEN_def RTP_HEADER_MIN_LEN_def)
next
  case (parsed h roc)
  then show ?thesis using assms
    by (auto simp: Let_def auth_tag_len_def AUTH_TAG_LEN_def RTP_HEADER_MIN_LEN_def unseal_packet_def)
qed

lemma estimate_after_update:
  "estimate_roc (update_stream_state_after_success sq (estimate_roc st sq) st) sq = estimate_roc st sq"
proof -
  have "estimate_roc \<lparr>ss_roc = g, ss_highest = Some sq\<rparr> sq = g" for g
    by (simp add: estimate_roc_def word_less_nat_alt unat_sub_if') linarith
  then show ?thesis by (simp add: update_stream_state_after_success_def split: option.split)
qed

text \<open>There is no replay list. A packet that was accepted is accepted again when it is sent a
  second time, although RFC 3711, which the module names, requires replayed packets to be
  discarded.\<close>

theorem replayed_packet_accepted:
  assumes "unprotect_rtp lib q s = (Inr p, s')"
  shows "fst (unprotect_rtp lib q s') = Inr p"
proof (cases rule: unprotect_cases [of s q lib])
  case (malformed e)
  then show ?thesis using assms by simp
next
  case (parsed h roc)
  let ?s' = "stream_state_mut (rtp_ssrc h) (update_stream_state_after_success (rtp_sequence h) roc) (stream_state_mut (rtp_ssrc h) id s)"
  note c = parsed(5) [unfolded assms]
  have s': "s' = ?s'" and u: "unseal_packet lib s h roc q = Inr p"
    using c by (cases "unseal_packet lib s h roc q"; simp)+
  have k: "sc_suite s' = sc_suite s" "unseal_packet lib s' = unseal_packet lib s"
    unfolding s' by (simp, rule unseal_same_keys) simp
  have r: "estimate_roc (stream_of s' (rtp_ssrc h)) (rtp_sequence h) = roc"
    using parsed(4) by (simp add: s' estimate_after_update)
  show ?thesis
  proof (cases rule: unprotect_cases [of s' q lib])
    case (malformed e)
    with parsed(1,2) k(1) show ?thesis by simp
  next
    case (parsed h2 roc2)
    then have "h2 = h" "roc2 = roc" using \<open>rtp_parse _ = Inr h\<close> k(1) r by simp_all
    with parsed(5) u k(2) show ?thesis by simp
  qed
qed

text \<open>The number of a packet in its stream, as RFC 3711 defines it.\<close>

definition ext_index :: "u32 \<Rightarrow> u16 \<Rightarrow> int" where
  "ext_index roc sq = int (unat roc * 65536 + unat sq)"

lemma nearest_index:
  assumes "e = (if h < 32768 then (if sq < h \<or> h + 32768 < sq then r - 1 else r)
     else if sq + 32768 < h then r + 1 else r)" "h < 65536" "sq < 65536" "0 < r"
  shows "\<bar>int (e * 65536 + sq) - int (r * 65536 + h)\<bar> \<le> 32768 \<longleftrightarrow> \<not> (h < 32768 \<and> sq < h)"
proof -
  obtain r' where "r = Suc r'" using assms(4) by (cases r) auto
  then show ?thesis using assms(1-3) by (auto split: if_splits)
qed


section \<open>A concrete library\<close>

text \<open>
  Functions with the laws above, to evaluate the model on: no cipher, but every argument is used.
\<close>

definition nibble :: "nat \<Rightarrow> char" where "nibble n = char_of (65 + n)"

fun ex_decode :: "string \<Rightarrow> bytes option" where
  "ex_decode [] = Some []"
| "ex_decode [c] = None"
| "ex_decode (a # b # s) =
     map_option ((#) (of_nat ((of_char a - 65) * 16 + (of_char b - 65)))) (ex_decode s)"

definition ex_lib :: crypto_lib where
  "ex_lib = \<lparr>aes_block = xor_bytes, hmac_sha1 = (\<lambda>k m. take 20 (rev m @ k @ replicate 20 0)),
     gcm_encrypt = (\<lambda>k n a m. Some (map ((XOR) (fold (XOR) k 0)) m @ take 16 (n @ a @ replicate 16 0))),
     gcm_decrypt = (\<lambda>k n a c.
        (let m = take (length c - 16) c
         in if drop (length c - 16) c = take 16 (n @ a @ replicate 16 0)
            then Some (map ((XOR) (fold (XOR) k 0)) m) else None)),
     b64_encode = (\<lambda>bs. concat (map (\<lambda>b. [nibble (unat b div 16), nibble (unat b mod 16)]) bs)),
     b64_decode = ex_decode\<rparr>"

lemma nibble_facts: "n < 16 \<Longrightarrow> of_char (nibble n) = 65 + n" "n < 16 \<Longrightarrow> nibble n \<in> b64_alphabet"
proof -
  show "n < 16 \<Longrightarrow> of_char (nibble n) = 65 + n" by (simp add: nibble_def)
  have "\<forall>n \<in> set [0..<16]. nibble n \<in> b64_alphabet" by code_simp
  then show "n < 16 \<Longrightarrow> nibble n \<in> b64_alphabet" by simp
qed

lemma byte_nibble: "unat b div 16 < 16" for b :: u8
proof -
  have "unat b < 256" using unsigned_less [of b] by simp
  then show ?thesis by (simp add: less_mult_imp_div_less)
qed

lemma ex_decode_encode:
  "ex_decode (concat (map (\<lambda>b. [nibble (unat b div 16), nibble (unat b mod 16)]) bs)) = Some bs"
proof (induction bs)
  case (Cons b bs)
  then show ?case
    by (simp add: byte_nibble nibble_facts mult.commute div_mult_mod_eq flip: of_nat_mult of_nat_add)
qed simp

lemma ex_lib_laws: "cipher_laws ex_lib" "b64_laws ex_lib"
proof -
  have "a XOR (a XOR b) = b" for a b :: u8 by (simp flip: xor.assoc)
  moreover have "length (take n (a @ b @ replicate n (0 :: u8))) = n" for n a b by simp
  moreover have "take (length m) (map f m @ r) = map f m" "drop (length m) (map f m @ r) = r"
    for f and m r :: bytes by simp_all
  ultimately show "cipher_laws ex_lib"
    by (simp add: cipher_laws_def ex_lib_def Let_def map_idI del: length_take take_append)
  show "b64_laws ex_lib"
    by (auto simp: b64_laws_def ex_lib_def ex_decode_encode nibble_facts byte_nibble)
qed

definition ex_rnd :: "nat \<Rightarrow> u8" where "ex_rnd i = of_nat (7 * i)"

definition ex_rtp :: "u8 \<Rightarrow> bytes" where
  "ex_rtp sq = [128, 0, 0, sq, 0, 0, 0, 1, 1, 2, 3, 4, 72, 105]"

theorem crypto_line_roundtrip_witness:
  "\<exists>key. parse_crypto_attribute (to_sdp_crypto_line ex_lib (new_with_suite ex_lib ex_rnd AeadAes128Gcm) 1)
     = Inr (1, ''AEAD_AES_128_GCM'', key)"
  using crypto_line_roundtrip [OF ex_lib_laws(2), of ex_rnd AeadAes128Gcm 1]
  by (auto simp: sdp_name_def)

theorem srtp_stream_roundtrip_witness:
  "\<exists>rx. fst (run_packets (unprotect_rtp ex_lib)
     (fst (run_packets (protect_rtp ex_lib) [ex_rtp 1, [0, 0], ex_rtp 2] (new_with_suite ex_lib ex_rnd AesCm128HmacSha180))) rx)
     = [ex_rtp 1, ex_rtp 2]"
proof -
  have "list_all udp_sized [ex_rtp 1, [0, 0], ex_rtp 2]" by (simp add: udp_sized_def ex_rtp_def)
  note srtp_stream_roundtrip [OF ex_lib_laws this, of AesCm128HmacSha180 ex_rnd]
  moreover have "filter rtp_ok [ex_rtp 1, [0, 0], ex_rtp 2] = [ex_rtp 1, ex_rtp 2]" by code_simp
  ultimately show ?thesis by metis
qed

definition ex_sealed :: bytes where
  "ex_sealed = (case fst (protect_rtp ex_lib (ex_rtp 1) (new_with_suite ex_lib ex_rnd AesCm128HmacSha180)) of
     Inr q \<Rightarrow> q | Inl _ \<Rightarrow> [])"

theorem unprotect_accepts_iff_witness:
  "(\<exists>p. fst (unprotect_rtp ex_lib ex_sealed (new_with_suite ex_lib ex_rnd AesCm128HmacSha180)) = Inr p) \<and>
   (\<nexists>p. fst (unprotect_rtp ex_lib (ex_sealed @ [1]) (new_with_suite ex_lib ex_rnd AesCm128HmacSha180)) = Inr p)"
proof -
  have s: "sc_suite (new_with_suite ex_lib ex_rnd AesCm128HmacSha180) = AesCm128HmacSha180"
    by (simp add: new_with_suite_def)
  note iff = conjunct1 [OF unprotect_accepts_iff [OF s, of ex_lib]]
  have "(case fst (unprotect_rtp ex_lib ex_sealed (new_with_suite ex_lib ex_rnd AesCm128HmacSha180)) of
      Inr p \<Rightarrow> True | Inl _ \<Rightarrow> False)" by code_simp
  then have "\<exists>p. fst (unprotect_rtp ex_lib ex_sealed (new_with_suite ex_lib ex_rnd AesCm128HmacSha180)) = Inr p"
    by (auto split: sum.splits)
  moreover have "(case rtp_parse (take (length (ex_sealed @ [1]) - 10) (ex_sealed @ [1])) of
      Inr h \<Rightarrow> drop (length (ex_sealed @ [1]) - 10) (ex_sealed @ [1]) \<noteq>
        compute_auth_tag ex_lib (new_with_suite ex_lib ex_rnd AesCm128HmacSha180)
          (take (length (ex_sealed @ [1]) - 10) (ex_sealed @ [1]))
          (estimate_roc (stream_of (new_with_suite ex_lib ex_rnd AesCm128HmacSha180) (rtp_ssrc h)) (rtp_sequence h))
    | Inl _ \<Rightarrow> True)" by code_simp
  ultimately show ?thesis unfolding iff Let_def by (auto split: sum.splits)
qed

theorem replayed_packet_accepted_witness:
  "\<exists>s'. fst (unprotect_rtp ex_lib ex_sealed s') = Inr (ex_rtp 1) \<and> ss_highest (stream_of s' 0x01020304) = Some 1"
proof -
  let ?s = "new_with_suite ex_lib ex_rnd AesCm128HmacSha180"
  have "fst (unprotect_rtp ex_lib ex_sealed ?s) = Inr (ex_rtp 1)"
    "ss_highest (stream_of (snd (unprotect_rtp ex_lib ex_sealed ?s)) 0x01020304) = Some 1" by code_simp+
  then show ?thesis using replayed_packet_accepted [of ex_lib ex_sealed ?s] by (metis prod.collapse)
qed


end
