(* ===== verification/Relay.thy ===== *)
theory Relay
  imports Transport Srtp
begin

text \<open>
  \<open>src/media/relay.rs\<close>: the pool of RTP ports, the relay sessions, and the relay task that decrypts
  each packet with the keys of one side and encrypts it with those of the other. The atomic
  \<open>next_port\<close> is read and written by one call at a time here, so the \<open>compare_exchange\<close> of the
  wrap-around succeeds (\<open>Port_Race\<close> has calls that overlap). The locale \<open>session_store\<close> states what
  the router relies on. The sockets are outside: a step of the relay is the arrival of one
  datagram, and its result is the datagram sent. A stop signal is identified by its channel.
\<close>

section \<open>Sessions and the port pool\<close>

record relay_session =
  rs_session_id :: string
  rs_caller_port :: u16
  rs_callee_port :: u16
  rs_caller_addr :: "socket_addr option"
  rs_callee_addr :: "socket_addr option"

record media_manager =
  mm_port_start :: u16
  mm_port_end :: u16
  mm_next_port :: u16
  mm_media_addr :: string
  mm_sessions :: "(string, relay_session) hashmap"
  mm_shutdown_senders :: "(string, nat) hashmap"

definition manager_new :: "u16 \<Rightarrow> u16 \<Rightarrow> string \<Rightarrow> media_manager" where
  "manager_new port_start port_end addr =
     \<lparr>mm_port_start = port_start, mm_port_end = port_end, mm_next_port = port_start,
      mm_media_addr = addr, mm_sessions = hm_empty, mm_shutdown_senders = hm_empty\<rparr>"

lemma mod_two: "p mod 2 = 0 \<longleftrightarrow> even (unat p)" for p :: u16
proof -
  have "unat (p mod 2) = unat p mod 2" by (simp add: unat_mod_distrib)
  then show ?thesis by (auto simp: word_unat_eq_iff)
qed

lemma odd_step:
  fixes p :: u16
  assumes "\<not> e \<le> p" "p mod 2 \<noteq> 0"
  shows "unat p < unat (p + 2)"
proof -
  have "odd (unat p)" using assms(2) by (simp add: mod_two)
  moreover have "unat p < unat e" using assms(1) by (simp add: not_le word_less_nat_alt)
  moreover have "unat e < 2 ^ LENGTH(16)" by (rule unsigned_less)
  ultimately have "unat p + 2 < 65536" by simp presburger
  then show ?thesis by (simp add: unat_word_ariths)
qed

lemma unat_below: "unat p < 65536" for p :: u16
  using unsigned_less [of p] by simp

text \<open>The loop of \<open>allocate_port_pair\<close>: the port found, and \<open>next_port\<close> afterwards.\<close>

function alloc_loop :: "u16 \<Rightarrow> u16 \<Rightarrow> nat \<Rightarrow> u16 \<Rightarrow> u16 option \<times> u16" where
  "alloc_loop port_start port_end attempts p =
     (if port_end \<le> p then
        (if 3 < attempts + 1 then (None, port_start)
         else alloc_loop port_start port_end (attempts + 1) port_start)
      else if p mod 2 = 0 then (Some p, p + 2)
      else alloc_loop port_start port_end attempts (p + 2))"
  by pat_completeness auto

termination
proof (relation "measure (\<lambda>(s, e, attempts, p). (4 - attempts) * 65536 + (65535 - unat p))", goal_cases)
  case (3 s e attempts p)
  then show ?case using odd_step [of e p] unat_below [of "p + 2"] by simp
qed simp_all

declare alloc_loop.simps [simp del]

definition allocate_port_pair :: "media_manager \<Rightarrow> u16 option \<times> media_manager" where
  "allocate_port_pair mm =
     (case alloc_loop (mm_port_start mm) (mm_port_end mm) 0 (mm_next_port mm) of
        (r, next_port) \<Rightarrow> (r, mm\<lparr>mm_next_port := next_port\<rparr>))"

definition create_session :: "string \<Rightarrow> media_manager \<Rightarrow> relay_session option \<times> media_manager" where
  "create_session session_id mm =
     (case hm_get (mm_sessions mm) session_id of
        Some existing \<Rightarrow> (Some existing, mm)
      | None \<Rightarrow>
          (case allocate_port_pair mm of
             (None, mm1) \<Rightarrow> (None, mm1)
           | (Some caller_port, mm1) \<Rightarrow>
               (case allocate_port_pair mm1 of
                  (None, mm2) \<Rightarrow> (None, mm2)
                | (Some callee_port, mm2) \<Rightarrow>
                    (let session = \<lparr>rs_session_id = session_id, rs_caller_port = caller_port,
                           rs_callee_port = callee_port, rs_caller_addr = None, rs_callee_addr = None\<rparr>
                     in (Some session,
                         mm2\<lparr>mm_sessions := hm_insert session_id session (mm_sessions mm2)\<rparr>)))))"

text \<open>Removing a session: the session, the stop signal that is sent, and the new state.\<close>

definition remove_session ::
  "string \<Rightarrow> media_manager \<Rightarrow> relay_session option \<times> nat option \<times> media_manager" where
  "remove_session session_id mm =
     (hm_get (mm_sessions mm) session_id, hm_get (mm_shutdown_senders mm) session_id,
      mm\<lparr>mm_shutdown_senders := hm_remove session_id (mm_shutdown_senders mm),
         mm_sessions := hm_remove session_id (mm_sessions mm)\<rparr>)"

definition register_shutdown :: "string \<Rightarrow> nat \<Rightarrow> media_manager \<Rightarrow> media_manager" where
  "register_shutdown session_id tx mm =
     mm\<lparr>mm_shutdown_senders := hm_insert session_id tx (mm_shutdown_senders mm)\<rparr>"

definition get_session :: "string \<Rightarrow> media_manager \<Rightarrow> relay_session option" where
  "get_session session_id mm = hm_get (mm_sessions mm) session_id"

definition active_session_count :: "media_manager \<Rightarrow> nat" where
  "active_session_count mm = hm_len (mm_sessions mm)"

section \<open>The contract of the sessions\<close>

text \<open>
  What the users of the manager rely on: the session and the stop channel under a name, and what
  creating, removing and registering do to them. \<open>backed\<close> is how a user keeps its own entries with
  it: every entry has a session it fits, and a stop channel exactly while it is started.
\<close>

definition backed ::
  "('c \<Rightarrow> 's \<Rightarrow> bool) \<Rightarrow> ('c \<Rightarrow> bool) \<Rightarrow> ('k \<Rightarrow> 's option) \<Rightarrow> ('k \<Rightarrow> 'ch option) \<Rightarrow> ('k \<Rightarrow> 'c option) \<Rightarrow> bool" where
  "backed fits started session stop entries \<longleftrightarrow>
     (\<forall>i c. entries i = Some c \<longrightarrow> (\<exists>s. session i = Some s \<and> fits c s)) \<and>
     (\<forall>i. stop i \<noteq> None \<longleftrightarrow> (\<exists>c. entries i = Some c \<and> started c))"

locale session_store =
  fixes session :: "'m \<Rightarrow> 'k \<Rightarrow> 's option"
    and stop :: "'m \<Rightarrow> 'k \<Rightarrow> 'ch option"
    and create :: "'k \<Rightarrow> 'm \<Rightarrow> 's option \<times> 'm"
    and remove :: "'k \<Rightarrow> 'm \<Rightarrow> 's option \<times> 'ch option \<times> 'm"
    and watch :: "'k \<Rightarrow> 'ch \<Rightarrow> 'm \<Rightarrow> 'm"
  assumes create_stop: "create i m = (r, m') \<Longrightarrow> stop m' = stop m"
    and create_keeps: "create i m = (r, m') \<Longrightarrow> session m j = Some s \<Longrightarrow> session m' j = Some s"
    and create_made: "create i m = (Some s, m') \<Longrightarrow> session m' i = Some s"
    and remove_session: "remove i m = (r, ch, m') \<Longrightarrow> session m' = (session m)(i := None)"
    and remove_stop: "remove i m = (r, ch, m') \<Longrightarrow> ch = stop m i \<and> stop m' = (stop m)(i := None)"
    and watch_session: "session (watch i c m) = session m"
    and watch_stop: "stop (watch i c m) = (stop m)(i := Some c)"
begin

lemma create_backed:
  "backed fits started (session m) (stop m) entries \<Longrightarrow> create i m = (r, m') \<Longrightarrow>
   backed fits started (session m') (stop m') entries"
  using create_stop create_keeps unfolding backed_def by metis

lemma remove_backed:
  assumes "backed fits started (session m) (stop m) entries" "remove i m = (r, ch, m')"
  shows "backed fits started (session m') (stop m') (entries(i := None))"
  using assms(1) remove_session [OF assms(2)] remove_stop [OF assms(2)] by (simp add: backed_def)

lemma remove_stops:
  assumes "backed fits started (session m) (stop m) entries" "entries i = Some c" "remove i m = (r, ch, m')"
  shows "(ch \<noteq> None \<longleftrightarrow> started c) \<and> session m' i = None \<and> stop m' i = None"
  using assms(1,2) remove_session [OF assms(3)] remove_stop [OF assms(3)] by (auto simp: backed_def)

lemma entry_backed:
  assumes "backed fits started (session m) (stop m) entries" "session m i = Some s" "fits c s"
    and "started c \<longleftrightarrow> stop m i \<noteq> None"
  shows "backed fits started (session m) (stop m) (entries(i := Some c))"
  using assms by (auto simp: backed_def)

lemma watch_backed:
  assumes "backed fits started (session m) (stop m) entries" "entries i = Some c"
    and "\<And>s. fits c s \<Longrightarrow> fits c' s" "started c'"
  shows "backed fits started (session (watch i ch m)) (stop (watch i ch m)) (entries(i := Some c'))"
proof -
  obtain s where "session m i = Some s" "fits c s" using assms(1,2) unfolding backed_def by blast
  then show ?thesis using assms by (auto simp: backed_def watch_session watch_stop)
qed

end

interpretation sessions: session_store "\<lambda>mm. hm_get (mm_sessions mm)" "\<lambda>mm. hm_get (mm_shutdown_senders mm)"
  create_session remove_session register_shutdown
  by unfold_locales
     (auto simp: create_session_def allocate_port_pair_def remove_session_def register_shutdown_def Let_def fun_eq_iff
       split: option.splits prod.splits)

section \<open>The relay task\<close>

definition RECV_BUF :: nat where "RECV_BUF = 2048"

text \<open>
  What one task owns: the remote address of its own side, and the contexts that decrypt what
  comes from there and encrypt it for the other side.
\<close>

record relay_leg =
  leg_remote :: "socket_addr option"
  leg_decrypt :: "srtp_context option"
  leg_encrypt :: "srtp_context option"

text \<open>
  One datagram on the socket of the leg, from \<open>addr\<close>; \<open>other_remote\<close> is the remote address of the
  other side. A datagram beyond the buffer is cut by the socket.
\<close>

definition relay_datagram ::
  "crypto_lib \<Rightarrow> socket_addr option \<Rightarrow> socket_addr \<Rightarrow> bytes \<Rightarrow> relay_leg
     \<Rightarrow> (socket_addr \<times> bytes) option \<times> relay_leg" where
  "relay_datagram lib other_remote addr datagram leg =
     (let packet = take RECV_BUF datagram in
      if packet = [] then (None, leg)
      else
        (let leg1 = leg\<lparr>leg_remote := (case leg_remote leg of None \<Rightarrow> Some addr | Some a \<Rightarrow> Some a)\<rparr>
         in case other_remote of
              None \<Rightarrow> (None, leg1)
            | Some dest \<Rightarrow>
                (case (leg_decrypt leg1, leg_encrypt leg1) of
                   (Some decrypt, Some encrypt) \<Rightarrow>
                     (case unprotect_rtp lib packet decrypt of
                        (Inl e, decrypt1) \<Rightarrow> (None, leg1\<lparr>leg_decrypt := Some decrypt1\<rparr>)
                      | (Inr rtp, decrypt1) \<Rightarrow>
                          (case protect_rtp lib rtp encrypt of
                             (Inl e, encrypt1) \<Rightarrow>
                               (None, leg1\<lparr>leg_decrypt := Some decrypt1, leg_encrypt := Some encrypt1\<rparr>)
                           | (Inr srtp, encrypt1) \<Rightarrow>
                               (Some (dest, srtp),
                                leg1\<lparr>leg_decrypt := Some decrypt1, leg_encrypt := Some encrypt1\<rparr>)))
                 | _ \<Rightarrow> (None, leg1))))"

record relay_state =
  caller_leg :: relay_leg
  callee_leg :: relay_leg

definition run_relay_start ::
  "srtp_context option \<Rightarrow> srtp_context option \<Rightarrow> srtp_context option \<Rightarrow> srtp_context option
     \<Rightarrow> socket_addr option \<Rightarrow> socket_addr option \<Rightarrow> relay_state" where
  "run_relay_start caller_decrypt callee_encrypt callee_decrypt caller_encrypt caller_initial callee_initial =
     \<lparr>caller_leg = \<lparr>leg_remote = caller_initial, leg_decrypt = caller_decrypt, leg_encrypt = callee_encrypt\<rparr>,
      callee_leg = \<lparr>leg_remote = callee_initial, leg_decrypt = callee_decrypt, leg_encrypt = caller_encrypt\<rparr>\<rparr>"

datatype relay_event = From_Caller socket_addr bytes | From_Callee socket_addr bytes

datatype relay_output = To_Callee socket_addr bytes | To_Caller socket_addr bytes

definition caller_task :: "crypto_lib \<Rightarrow> socket_addr \<Rightarrow> bytes \<Rightarrow> relay_state \<Rightarrow> relay_output list \<times> relay_state" where
  "caller_task lib addr datagram st =
     (case relay_datagram lib (leg_remote (callee_leg st)) addr datagram (caller_leg st) of
        (out, leg) \<Rightarrow> ((case out of Some (dest, p) \<Rightarrow> [To_Callee dest p] | None \<Rightarrow> []), st\<lparr>caller_leg := leg\<rparr>))"

definition callee_task :: "crypto_lib \<Rightarrow> socket_addr \<Rightarrow> bytes \<Rightarrow> relay_state \<Rightarrow> relay_output list \<times> relay_state" where
  "callee_task lib addr datagram st =
     (case relay_datagram lib (leg_remote (caller_leg st)) addr datagram (callee_leg st) of
        (out, leg) \<Rightarrow> ((case out of Some (dest, p) \<Rightarrow> [To_Caller dest p] | None \<Rightarrow> []), st\<lparr>callee_leg := leg\<rparr>))"

fun relay_step :: "crypto_lib \<Rightarrow> relay_event \<Rightarrow> relay_state \<Rightarrow> relay_output list \<times> relay_state" where
  "relay_step lib (From_Caller addr datagram) st = caller_task lib addr datagram st"
| "relay_step lib (From_Callee addr datagram) st = callee_task lib addr datagram st"

text \<open>Until an error or the stop signal ends it, the relay handles its events one after the other.\<close>

fun run_relay :: "crypto_lib \<Rightarrow> relay_event list \<Rightarrow> relay_state \<Rightarrow> relay_output list \<times> relay_state" where
  "run_relay lib [] st = ([], st)"
| "run_relay lib (ev # evs) st =
     (case relay_step lib ev st of (out, st1) \<Rightarrow>
        (case run_relay lib evs st1 of (outs, st2) \<Rightarrow> (out @ outs, st2)))"

section \<open>The port pool\<close>

text \<open>The pool as its users see it: the even ports of the range, handed out in turn.\<close>

definition pool_size :: "u16 \<Rightarrow> u16 \<Rightarrow> nat" where
  "pool_size port_start port_end = (unat port_end - unat port_start + 1) div 2"

definition pool_port :: "u16 \<Rightarrow> nat \<Rightarrow> u16" where
  "pool_port port_start k = port_start + of_nat (2 * k)"

definition good_range :: "u16 \<Rightarrow> u16 \<Rightarrow> bool" where
  "good_range port_start port_end \<longleftrightarrow> even (unat port_start) \<and> port_start < port_end \<and> port_end < 65535"

lemma unat_pool_port:
  assumes "good_range s e" "k \<le> pool_size s e"
  shows "unat (pool_port s k) = unat s + 2 * k"
proof -
  have "unat s + 2 * k \<le> unat e + 1" "unat e < 65535"
    using assms by (auto simp: good_range_def pool_size_def word_less_nat_alt)
  then have "unat s + 2 * k < 2 ^ LENGTH(16)" by simp
  moreover from this have "unat (of_nat (2 * k) :: u16) = 2 * k" by (intro unat_of_nat_small) simp
  ultimately show ?thesis unfolding pool_port_def
    by (simp add: unat_word_ariths del: of_nat_mult of_nat_numeral)
qed

lemma pool_port_Suc: "pool_port s k + 2 = pool_port s (Suc k)"
  by (simp add: pool_port_def)

lemma pool_size_pos: "good_range s e \<Longrightarrow> 0 < pool_size s e"
  by (auto simp: good_range_def pool_size_def word_less_nat_alt)

lemma alloc_in_pool:
  assumes "good_range s e" "k < pool_size s e"
  shows "alloc_loop s e a (pool_port s k) = (Some (pool_port s k), pool_port s (Suc k))"
proof -
  note u = unat_pool_port [OF assms(1) less_imp_le [OF assms(2)]]
  have "pool_port s k mod 2 = 0" using assms(1) u by (simp add: mod_two good_range_def)
  moreover have "\<not> e \<le> pool_port s k"
    using assms u by (auto simp: good_range_def pool_size_def word_le_nat_alt word_less_nat_alt)
  ultimately show ?thesis by (simp add: alloc_loop.simps [of s e a] pool_port_Suc)
qed

lemma alloc_wraps:
  assumes "good_range s e"
  shows "alloc_loop s e 0 (pool_port s (pool_size s e)) = (Some s, pool_port s 1)"
proof -
  have "unat (pool_port s (pool_size s e)) = unat s + 2 * pool_size s e"
    by (rule unat_pool_port [OF assms order_refl])
  then have "e \<le> pool_port s (pool_size s e)"
    using assms by (simp add: good_range_def pool_size_def word_le_nat_alt)
  moreover have "pool_port s 0 = s" by (simp add: pool_port_def)
  ultimately show ?thesis
    using alloc_in_pool [OF assms pool_size_pos [OF assms], of 1]
    by (simp add: alloc_loop.simps [of s e 0])
qed

text \<open>The state of the counter after \<open>k\<close> allocations.\<close>

definition pool_counter :: "nat \<Rightarrow> nat \<Rightarrow> nat" where
  "pool_counter m k = (if k = 0 then 0 else (k - 1) mod m + 1)"

lemma pool_counter_step:
  assumes "0 < m"
  shows "pool_counter m k < m \<Longrightarrow> pool_counter m k = k mod m \<and> pool_counter m (Suc k) = Suc (pool_counter m k)"
    and "\<not> pool_counter m k < m \<Longrightarrow> pool_counter m k = m \<and> k mod m = 0 \<and> pool_counter m (Suc k) = 1"
proof -
  have s: "Suc j mod m = (if Suc (j mod m) = m then 0 else Suc (j mod m))" for j by (rule mod_Suc)
  have l: "\<not> Suc (j mod m) < m \<Longrightarrow> Suc (j mod m) = m" for j
    using assms by (metis Suc_lessI mod_less_divisor)
  show "pool_counter m k < m \<Longrightarrow> pool_counter m k = k mod m \<and> pool_counter m (Suc k) = Suc (pool_counter m k)"
    using s [of "k - 1"] assms by (cases k) (simp_all add: pool_counter_def)
  show "\<not> pool_counter m k < m \<Longrightarrow> pool_counter m k = m \<and> k mod m = 0 \<and> pool_counter m (Suc k) = 1"
    using s [of "k - 1"] l [of "k - 1"] assms by (cases k) (simp_all add: pool_counter_def)
qed

fun allocations :: "u16 \<Rightarrow> u16 \<Rightarrow> nat \<Rightarrow> u16 \<Rightarrow> u16 option list" where
  "allocations s e 0 p = []"
| "allocations s e (Suc n) p = (case alloc_loop s e 0 p of (r, p1) \<Rightarrow> r # allocations s e n p1)"

lemma allocations_round_robin:
  assumes "good_range s e"
  shows "allocations s e n (pool_port s (pool_counter (pool_size s e) k)) =
     map (\<lambda>i. Some (pool_port s (i mod pool_size s e))) [k..<k + n]"
proof (induction n arbitrary: k)
  case (Suc n)
  note m = pool_size_pos [OF assms]
  have "[k..<k + Suc n] = k # [Suc k..<Suc k + n]" by (simp add: upt_conv_Cons)
  moreover have "pool_port s 0 = s" by (simp add: pool_port_def)
  ultimately show ?case
    using pool_counter_step [OF m, of k] alloc_in_pool [OF assms, of "pool_counter (pool_size s e) k" 0]
      alloc_wraps [OF assms] Suc.IH [of "Suc k"]
    by (cases "pool_counter (pool_size s e) k < pool_size s e") simp_all
qed simp

text \<open>The port pool refines a round robin over the even ports of the range: every allocation
  succeeds, with an even port inside the range, and as many allocations as there are ports are
  pairwise different.\<close>

theorem ports_round_robin:
  assumes "good_range s e"
  shows "allocations s e n s = map (\<lambda>i. Some (pool_port s (i mod pool_size s e))) [0..<n] \<and>
     list_all (\<lambda>r. \<exists>p. r = Some p \<and> s \<le> p \<and> p < e \<and> even (unat p)) (allocations s e n s) \<and>
     (n \<le> pool_size s e \<longrightarrow> distinct (allocations s e n s))"
proof -
  note m = pool_size_pos [OF assms]
  have all: "allocations s e n s = map (\<lambda>i. Some (pool_port s (i mod pool_size s e))) [0..<n]"
    using allocations_round_robin [OF assms, of n 0] by (simp add: pool_counter_def pool_port_def)
  have u: "unat (pool_port s i) = unat s + 2 * i" if "i < pool_size s e" for i
    using unat_pool_port [OF assms, of i] that by simp
  have r: "s \<le> pool_port s i \<and> pool_port s i < e \<and> even (unat (pool_port s i))" if "i < pool_size s e" for i
    using u [OF that] that assms
    by (auto simp: good_range_def pool_size_def word_le_nat_alt word_less_nat_alt)
  have "inj_on (\<lambda>i. Some (pool_port s (i mod pool_size s e))) (set [0..<n])" if "n \<le> pool_size s e"
  proof (rule inj_onI)
    fix x y assume xy: "x \<in> set [0..<n]" "y \<in> set [0..<n]"
      "Some (pool_port s (x mod pool_size s e)) = Some (pool_port s (y mod pool_size s e))"
    have b: "x < pool_size s e" "y < pool_size s e" using xy(1,2) that by simp_all
    have "pool_port s x = pool_port s y" using xy(3) by (simp only: mod_less [OF b(1)] mod_less [OF b(2)] option.inject)
    then have "unat s + 2 * x = unat s + 2 * y" unfolding u [OF b(1), symmetric] u [OF b(2), symmetric] by (rule arg_cong)
    then show "x = y" by simp
  qed
  then have d: "n \<le> pool_size s e \<longrightarrow> distinct (map (\<lambda>i. Some (pool_port s (i mod pool_size s e))) [0..<n])"
    by (simp add: distinct_map)
  have "list_all (\<lambda>r. \<exists>p. r = Some p \<and> s \<le> p \<and> p < e \<and> even (unat p))
      (map (\<lambda>i. Some (pool_port s (i mod pool_size s e))) [0..<n])"
    unfolding list.pred_map list_all_iff comp_def set_map ball_simps using r [OF mod_less_divisor [OF m]] by blast
  with d show ?thesis unfolding all by blast
qed

theorem ports_round_robin_witness:
  "allocations 20000 20006 4 20000 = [Some 20000, Some 20002, Some 20004, Some 20000]"
proof -
  have "good_range 20000 20006" "pool_size 20000 20006 = 3" by (simp_all add: good_range_def pool_size_def)
  with conjunct1 [OF ports_round_robin [of 20000 20006 4]] show ?thesis
    by (simp add: pool_port_def upt_rec)
qed

text \<open>A range of one port, which the configuration check accepts, has no port at all: every
  session is refused and the pool stays as it was.\<close>

theorem single_port_range_unusable:
  "create_session session_id (manager_new p p addr) = (None, manager_new p p addr)"
proof -
  have "alloc_loop p p a p = (None, p)" if "a = 0 \<or> a = 1 \<or> a = 2 \<or> a = 3" for a
    using that by (auto simp: alloc_loop.simps [of p p])
  then have "alloc_loop p p 0 p = (None, p)" by simp
  then show ?thesis by (simp add: create_session_def allocate_port_pair_def manager_new_def)
qed

section \<open>The media path\<close>

lemma seal_length:
  assumes "cipher_laws lib" "seal_packet lib s h roc p = Inr q" "total_header_len h \<le> length p" "length p < 2 ^ 36"
  shows "q \<noteq> []" "length q \<le> length p + 16"
proof -
  note m = header_min [of h]
  have "12 \<le> length q \<and> length q \<le> length p + 16"
  proof (cases "sc_suite s")
    case AesCm128HmacSha180
    then show ?thesis using assms(2,3) m length_compute_auth_tag [OF assms(1)]
      by (auto simp: seal_packet_def Let_def)
  next
    case AeadAes128Gcm
    have "length (drop (total_header_len h) p) < 2 ^ 36" "length (take (total_header_len h) p) < 2 ^ 36"
      using assms(4) by auto
    then obtain c where c: "gcm_encrypt lib (sc_session_key s) (gcm_iv s (rtp_ssrc h) roc (rtp_sequence h))
        (take (total_header_len h) p) (drop (total_header_len h) p) = Some c"
      "length c = length (drop (total_header_len h) p) + 16"
      using assms(1) unfolding cipher_laws_def by blast
    then have "q = take (total_header_len h) p @ c"
      using AeadAes128Gcm assms(2) by (simp add: seal_packet_def Let_def gcm_encrypt_payload_def)
    then show ?thesis using c(2) assms(3) m by simp
  qed
  then show "q \<noteq> []" "length q \<le> length p + 16" by auto
qed

lemma protect_length:
  assumes "cipher_laws lib" "protect_rtp lib p s = (Inr q, s')" "length p < 2 ^ 36"
  shows "q \<noteq> []" "length q \<le> length p + 16"
proof -
  obtain h t roc where "seal_packet lib t h roc p = Inr q" "total_header_len h \<le> length p"
    using assms(2) by (auto simp: protect_rtp_def Let_def split: if_splits sum.splits)
  from seal_length [OF assms(1) this assms(3)] show "q \<noteq> []" "length q \<le> length p + 16" by blast+
qed

lemma rejected_in_sync:
  assumes "in_sync lib tx rx" "unprotect_rtp lib q rx = (Inl e, rx')"
  shows "in_sync lib tx rx'"
proof (cases rule: unprotect_cases [of rx q lib])
  case (malformed e)
  then show ?thesis using assms by simp
next
  case (parsed h roc)
  then show ?thesis using assms by (auto simp: in_sync_def split: sum.splits)
qed

lemma relay_datagram_other: "leg_remote (snd (relay_datagram lib other a d leg)) \<noteq> None \<or> take RECV_BUF d = []"
  by (simp add: relay_datagram_def Let_def split: option.split sum.split prod.split)

lemma relay_datagram_remote:
  "leg_remote leg = Some r \<Longrightarrow> leg_remote (snd (relay_datagram lib other a d leg)) = Some r"
  by (simp add: relay_datagram_def Let_def split: option.split sum.split prod.split)

text \<open>What one datagram can cause: nothing, or a packet to the other side made from it.\<close>

lemma relay_datagram_out:
  assumes "fst (relay_datagram lib other a d leg) = Some (dest, q)"
  obtains dec enc rtp where "other = Some dest" "leg_decrypt leg = Some dec" "leg_encrypt leg = Some enc"
    "fst (unprotect_rtp lib (take RECV_BUF d) dec) = Inr rtp" "fst (protect_rtp lib rtp enc) = Inr q"
  using assms
  by (auto simp: relay_datagram_def Let_def split: if_splits option.splits sum.splits prod.splits)

lemma genuine_datagram:
  assumes sync: "in_sync lib tx dec" "in_sync lib enc rx" and size: "length p \<le> 2032"
    and leg: "leg_decrypt leg = Some dec" "leg_encrypt leg = Some enc"
    and sent: "protect_rtp lib p tx = (Inr q, tx')" and ok: "rtp_ok p"
  obtains out dec' enc' rx' where
    "fst (relay_datagram lib (Some dest) a q leg) = Some (dest, out)"
    "leg_decrypt (snd (relay_datagram lib (Some dest) a q leg)) = Some dec'"
    "leg_encrypt (snd (relay_datagram lib (Some dest) a q leg)) = Some enc'"
    "in_sync lib tx' dec'" "in_sync lib enc' rx'" "unprotect_rtp lib out rx = (Inr p, rx')"
proof -
  have laws: "cipher_laws lib" using sync(1) by (simp add: in_sync_def)
  have fits: "udp_sized p" using size by (simp add: udp_sized_def)
  have "length p < 2 ^ 36" using size by simp
  from protect_length [OF laws sent this] size have q: "q \<noteq> []" "take RECV_BUF q = q"
    by (simp_all add: RECV_BUF_def)
  obtain dec' where d: "unprotect_rtp lib q dec = (Inr p, dec')" "in_sync lib tx' dec'"
    using srtp.deliver [OF sync(1) fits ok] sent by auto
  obtain out enc' rx' where e: "protect_rtp lib p enc = (Inr out, enc')" "unprotect_rtp lib out rx = (Inr p, rx')"
    "in_sync lib enc' rx'"
    using srtp.deliver [OF sync(2) fits ok] by blast
  have "relay_datagram lib (Some dest) a q leg =
     (Some (dest, out), leg\<lparr>leg_remote := (case leg_remote leg of None \<Rightarrow> Some a | Some b \<Rightarrow> Some b),
        leg_decrypt := Some dec', leg_encrypt := Some enc'\<rparr>)"
    using q leg d(1) e(1) by (simp add: relay_datagram_def Let_def)
  with d(2) e(2,3) that show ?thesis by simp
qed

lemma forged_datagram:
  assumes sync: "in_sync lib tx dec" "in_sync lib enc rx"
    and leg: "leg_decrypt leg = Some dec" "leg_encrypt leg = Some enc"
    and bad: "isl (fst (unprotect_rtp lib (take RECV_BUF d) dec))"
  obtains dec' where "fst (relay_datagram lib (Some dest) a d leg) = None"
    "leg_decrypt (snd (relay_datagram lib (Some dest) a d leg)) = Some dec'"
    "leg_encrypt (snd (relay_datagram lib (Some dest) a d leg)) = Some enc"
    "in_sync lib tx dec'"
proof -
  obtain e dec' where u: "unprotect_rtp lib (take RECV_BUF d) dec = (Inl e, dec')"
    using bad by (cases "unprotect_rtp lib (take RECV_BUF d) dec"; cases "fst (unprotect_rtp lib (take RECV_BUF d) dec)") auto
  note s = rejected_in_sync [OF sync(1) u]
  show ?thesis
  proof (cases "take RECV_BUF d = []")
    case True
    then show ?thesis using leg sync(1) that [of dec] by (simp add: relay_datagram_def Let_def)
  next
    case False
    then show ?thesis using leg u s that [of dec'] by (simp add: relay_datagram_def Let_def)
  qed
qed

section \<open>A call seen from both ends\<close>

text \<open>
  The parties of one direction: the caller's context, the relay, the callee's context. The caller
  sends a packet from its address, anyone sends a datagram to the caller's port, or one arrives
  on the callee's port. The result is what the callee reads.
\<close>

datatype call_event = Caller_Sends socket_addr bytes | Injected socket_addr bytes
  | On_Callee_Port socket_addr bytes

definition callee_hears :: "relay_output list \<Rightarrow> bytes list" where
  "callee_hears out = concat (map (\<lambda>r. case r of To_Callee dest q \<Rightarrow> [q] | To_Caller dest q \<Rightarrow> []) out)"

fun call_media :: "crypto_lib \<Rightarrow> call_event list \<Rightarrow> srtp_context \<Rightarrow> relay_state \<Rightarrow> srtp_context \<Rightarrow> bytes list" where
  "call_media lib [] tx st rx = []"
| "call_media lib (Caller_Sends a p # evs) tx st rx =
     (case protect_rtp lib p tx of
        (Inl e, tx1) \<Rightarrow> call_media lib evs tx1 st rx
      | (Inr q, tx1) \<Rightarrow>
          (case relay_step lib (From_Caller a q) st of (out, st1) \<Rightarrow>
             (case run_packets (unprotect_rtp lib) (callee_hears out) rx of (ps, rx1) \<Rightarrow>
                ps @ call_media lib evs tx1 st1 rx1)))"
| "call_media lib (Injected a d # evs) tx st rx =
     (case relay_step lib (From_Caller a d) st of (out, st1) \<Rightarrow>
        (case run_packets (unprotect_rtp lib) (callee_hears out) rx of (ps, rx1) \<Rightarrow>
           ps @ call_media lib evs tx st1 rx1))"
| "call_media lib (On_Callee_Port a d # evs) tx st rx =
     (case relay_step lib (From_Callee a d) st of (out, st1) \<Rightarrow> call_media lib evs tx st1 rx)"

text \<open>No injected datagram passes the authentication of the relay when it arrives.\<close>

fun injected_rejected :: "crypto_lib \<Rightarrow> call_event list \<Rightarrow> srtp_context \<Rightarrow> relay_state \<Rightarrow> bool" where
  "injected_rejected lib [] tx st \<longleftrightarrow> True"
| "injected_rejected lib (Caller_Sends a p # evs) tx st \<longleftrightarrow>
     (case protect_rtp lib p tx of
        (Inl e, tx1) \<Rightarrow> injected_rejected lib evs tx1 st
      | (Inr q, tx1) \<Rightarrow> injected_rejected lib evs tx1 (snd (relay_step lib (From_Caller a q) st)))"
| "injected_rejected lib (Injected a d # evs) tx st \<longleftrightarrow>
     (case leg_decrypt (caller_leg st) of None \<Rightarrow> True
      | Some dec \<Rightarrow> isl (fst (unprotect_rtp lib (take RECV_BUF d) dec))) \<and>
     injected_rejected lib evs tx (snd (relay_step lib (From_Caller a d) st))"
| "injected_rejected lib (On_Callee_Port a d # evs) tx st \<longleftrightarrow>
     injected_rejected lib evs tx (snd (relay_step lib (From_Callee a d) st))"

fun spoken :: "call_event \<Rightarrow> bytes list" where
  "spoken (Caller_Sends a p) = (if rtp_ok p then [p] else [])"
| "spoken (Injected a d) = []"
| "spoken (On_Callee_Port a d) = []"

fun short_packet :: "call_event \<Rightarrow> bool" where
  "short_packet (Caller_Sends a p) \<longleftrightarrow> length p \<le> 2032"
| "short_packet (Injected a d) \<longleftrightarrow> True"
| "short_packet (On_Callee_Port a d) \<longleftrightarrow> True"

lemma media_path:
  assumes "in_sync lib tx dec" "in_sync lib enc rx"
    and "leg_decrypt (caller_leg st) = Some dec" "leg_encrypt (caller_leg st) = Some enc"
    and "leg_remote (callee_leg st) = Some dest"
    and "list_all short_packet evs" "injected_rejected lib evs tx st"
  shows "call_media lib evs tx st rx = concat (map spoken evs)"
  using assms
proof (induction evs arbitrary: tx dec enc rx st)
  case (Cons ev evs)
  show ?case
  proof (cases ev)
    case (Caller_Sends a p)
    show ?thesis
    proof (cases "rtp_ok p")
      case True
      have "udp_sized p" using Cons.prems(6) Caller_Sends by (simp add: udp_sized_def)
      then obtain q tx' where q: "protect_rtp lib p tx = (Inr q, tx')"
        using srtp.deliver [OF Cons.prems(1) _ True] by blast
      have size: "length p \<le> 2032" using Cons.prems(6) Caller_Sends by simp
      let ?leg = "snd (relay_datagram lib (Some dest) a q (caller_leg st))"
      obtain out dec' enc' rx' where r:
        "fst (relay_datagram lib (Some dest) a q (caller_leg st)) = Some (dest, out)"
        "leg_decrypt ?leg = Some dec'" "leg_encrypt ?leg = Some enc'"
        "in_sync lib tx' dec'" "in_sync lib enc' rx'" "unprotect_rtp lib out rx = (Inr p, rx')"
        using genuine_datagram [OF Cons.prems(1,2) size Cons.prems(3,4) q True] by blast
      have st: "relay_step lib (From_Caller a q) st = ([To_Callee dest out], st\<lparr>caller_leg := ?leg\<rparr>)"
        using r(1) Cons.prems(5) by (simp add: caller_task_def case_prod_beta)
      have "call_media lib evs tx' (st\<lparr>caller_leg := ?leg\<rparr>) rx' = concat (map spoken evs)"
        by (rule Cons.IH [OF r(4,5)]) (use r(2,3) Cons.prems(5-7) Caller_Sends q st in simp_all)
      then show ?thesis using Caller_Sends q st r(6) True by (simp add: callee_hears_def case_prod_beta)
    next
      case False
      obtain e where e: "protect_rtp lib p tx = (Inl e, tx)" using protect_refuses [OF False] by blast
      with Cons.IH [OF Cons.prems(1-5)] Cons.prems(6,7) Caller_Sends False show ?thesis by simp
    qed
  next
    case (Injected a d)
    let ?leg = "snd (relay_datagram lib (Some dest) a d (caller_leg st))"
    have "isl (fst (unprotect_rtp lib (take RECV_BUF d) dec))"
      using Cons.prems(3,7) Injected by simp
    then obtain dec' where r: "fst (relay_datagram lib (Some dest) a d (caller_leg st)) = None"
      "leg_decrypt ?leg = Some dec'" "leg_encrypt ?leg = Some enc" "in_sync lib tx dec'"
      using forged_datagram [OF Cons.prems(1-4)] by blast
    have st: "relay_step lib (From_Caller a d) st = ([], st\<lparr>caller_leg := ?leg\<rparr>)"
      using r(1) Cons.prems(5) by (simp add: caller_task_def case_prod_beta)
    have "call_media lib evs tx (st\<lparr>caller_leg := ?leg\<rparr>) rx = concat (map spoken evs)"
      by (rule Cons.IH [OF r(4) Cons.prems(2)]) (use r(2,3) Cons.prems(5-7) Injected st in simp_all)
    then show ?thesis using Injected st by (simp add: callee_hears_def case_prod_beta)
  next
    case (On_Callee_Port a d)
    let ?leg = "snd (relay_datagram lib (leg_remote (caller_leg st)) a d (callee_leg st))"
    have st: "snd (relay_step lib (From_Callee a d) st) = st\<lparr>callee_leg := ?leg\<rparr>"
      by (simp add: callee_task_def case_prod_beta)
    have "call_media lib evs tx (st\<lparr>callee_leg := ?leg\<rparr>) rx = concat (map spoken evs)"
      by (rule Cons.IH [OF Cons.prems(1,2)])
        (use Cons.prems(3-7) On_Callee_Port st relay_datagram_remote [OF Cons.prems(5)] in simp_all)
    then show ?thesis using On_Callee_Port st by (simp add: case_prod_beta)
  qed
qed simp

text \<open>Media from end to end. When the relay holds the keys announced by both sides, the callee
  reads exactly the well-formed packets the caller sent, byte for byte and in order, whatever
  arrives on the callee's port and whatever forged datagrams are injected on the caller's port
  in between, as long as none of these passes the authentication.\<close>

theorem relay_media_end_to_end:
  assumes "in_sync lib tx dec" "in_sync lib enc rx" "list_all short_packet evs"
    and "injected_rejected lib evs tx (run_relay_start (Some dec) (Some enc) cd ce ca (Some dest))"
  shows "call_media lib evs tx (run_relay_start (Some dec) (Some enc) cd ce ca (Some dest)) rx =
     concat (map spoken evs)"
  by (rule media_path [OF assms(1,2) _ _ _ assms(3,4)]) (simp_all add: run_relay_start_def)

definition ex_addr :: "nat \<Rightarrow> socket_addr" where
  "ex_addr n = \<lparr>ip_text = ''10.0.0.'' @ show_nat n, is_v6 = False, port = 4000\<rparr>"

definition ex_media_events :: "call_event list" where
  "ex_media_events = [Caller_Sends (ex_addr 1) (ex_rtp 1), Injected (ex_addr 9) (replicate 30 0),
     On_Callee_Port (ex_addr 8) [1, 2, 3], Caller_Sends (ex_addr 1) (ex_rtp 2)]"

lemma zeros_rejected: "isl (fst (unprotect_rtp lib (take RECV_BUF (replicate 30 0)) dec))"
proof -
  have "isl (rtp_parse (replicate 20 0))" "isl (rtp_parse (replicate 14 0))" by code_simp+
  then show ?thesis
    by (cases "sc_suite dec"; cases "rtp_parse (replicate 20 0)"; cases "rtp_parse (replicate 14 0)")
      (simp_all add: unprotect_rtp_def Let_def auth_tag_len_def RECV_BUF_def srtp_lens min_def)
qed

theorem relay_media_end_to_end_witness:
  "call_media ex_lib ex_media_events (new_with_suite ex_lib ex_rnd AesCm128HmacSha180)
     (run_relay_start (Some (new_with_suite ex_lib ex_rnd AesCm128HmacSha180))
        (Some (new_with_suite ex_lib ex_rnd AeadAes128Gcm)) None None None (Some (ex_addr 2)))
     (new_with_suite ex_lib ex_rnd AeadAes128Gcm) = [ex_rtp 1, ex_rtp 2]"
proof -
  let ?tx = "new_with_suite ex_lib ex_rnd AesCm128HmacSha180" and ?rx = "new_with_suite ex_lib ex_rnd AeadAes128Gcm"
  have "in_sync ex_lib ?tx ?tx" "in_sync ex_lib ?rx ?rx" using ex_lib_laws(1) by (simp_all add: in_sync_def)
  moreover have "list_all short_packet ex_media_events" by code_simp
  moreover have "injected_rejected ex_lib ex_media_events ?tx
     (run_relay_start (Some ?tx) (Some ?rx) None None None (Some (ex_addr 2)))"
    by (simp add: ex_media_events_def zeros_rejected del: take_replicate split: option.split sum.split prod.split)
  ultimately have "call_media ex_lib ex_media_events ?tx
     (run_relay_start (Some ?tx) (Some ?rx) None None None (Some (ex_addr 2))) ?rx = concat (map spoken ex_media_events)"
    by (rule relay_media_end_to_end)
  also have "\<dots> = [ex_rtp 1, ex_rtp 2]" by code_simp
  finally show ?thesis .
qed

lemma relay_datagram_dest:
  "Some (d, q) = fst (relay_datagram lib other a x leg) \<Longrightarrow> other = Some d"
  by (erule relay_datagram_out [OF sym])

lemma relay_step_legs:
  "leg_remote (caller_leg st) = Some a \<Longrightarrow> leg_remote (caller_leg (snd (relay_step lib ev st))) = Some a"
  "leg_remote (callee_leg st) = Some b \<Longrightarrow> leg_remote (callee_leg (snd (relay_step lib ev st))) = Some b"
  by (cases ev; simp add: caller_task_def callee_task_def case_prod_beta relay_datagram_remote)+

lemma relay_step_dest:
  "To_Caller d q \<in> set (fst (relay_step lib ev st)) \<Longrightarrow> leg_remote (caller_leg st) = Some d"
  "To_Callee d q \<in> set (fst (relay_step lib ev st)) \<Longrightarrow> leg_remote (callee_leg st) = Some d"
  by (cases ev; auto simp: caller_task_def callee_task_def case_prod_beta split: option.splits
      dest: relay_datagram_dest)+

lemma run_relay_Cons:
  "fst (run_relay lib (ev # evs) st) = fst (relay_step lib ev st) @ fst (run_relay lib evs (snd (relay_step lib ev st)))"
  "snd (run_relay lib (ev # evs) st) = snd (run_relay lib evs (snd (relay_step lib ev st)))"
  by (simp_all add: case_prod_beta)



end
