(* ===== verification/Sdp_Media.thy ===== *)
theory Sdp_Media
  imports Sdp Config Relay
begin

text \<open>
  What \<open>src/sip/router.rs\<close> reads from an SDP: the SRTP keys of an offer or answer and the address
  its sender wants the media at. An address is kept with its canonical text, the \<open>Display\<close> of the
  parsed \<open>IpAddr\<close>; the parsers of \<open>std::net\<close> are those of the configuration.
\<close>

section \<open>The canonical text of an address\<close>

fun hex_value :: "string \<Rightarrow> nat" where
  "hex_value s = (case hex_digits_val 0 s of Some n \<Rightarrow> n | None \<Rightarrow> 0)"

definition ipv4_octets :: "string \<Rightarrow> nat list" where
  "ipv4_octets s = map (\<lambda>w. case digits_val 0 w of Some n \<Rightarrow> n | None \<Rightarrow> 0) (split_char (CHR ''.'') s)"

text \<open>The 16-bit groups a piece of an address stands for; an IPv4 tail stands for two.\<close>

definition ipv6_piece :: "string \<Rightarrow> nat list" where
  "ipv6_piece w =
     (if ipv6_group w then [hex_value w]
      else (let q = ipv4_octets w in [q ! 0 * 256 + q ! 1, q ! 2 * 256 + q ! 3]))"

definition ipv6_pieces :: "string \<Rightarrow> nat list" where
  "ipv6_pieces s = (if s = [] then [] else concat (map ipv6_piece (split_char (CHR '':'') s)))"

definition ipv6_segments :: "string \<Rightarrow> nat list" where
  "ipv6_segments s =
     (case find_str ''::'' s of
        None \<Rightarrow> ipv6_pieces s
      | Some i \<Rightarrow>
          (let a = ipv6_pieces (take i s); b = ipv6_pieces (drop (i + 2) s)
           in a @ replicate (8 - length a - length b) 0 @ b))"

fun show_hex :: "nat \<Rightarrow> string" where
  "show_hex n =
     (let d = [char_of (if n mod 16 < 10 then 48 + n mod 16 else 87 + n mod 16)]
      in if n < 16 then d else show_hex (n div 16) @ d)"

declare show_hex.simps [simp del]

text \<open>The first longest run of zeros: its start and its length.\<close>

fun zero_runs :: "nat \<Rightarrow> nat list \<Rightarrow> (nat \<times> nat) list" where
  "zero_runs i [] = []"
| "zero_runs i (n # ns) = (i, length (takeWhile (\<lambda>m. m = 0) (n # ns))) # zero_runs (Suc i) ns"

definition longest_run :: "nat list \<Rightarrow> nat \<times> nat" where
  "longest_run segs =
     fold (\<lambda>(i, l) (j, m). if m < l then (i, l) else (j, m)) (zero_runs 0 segs) (0, 0)"

definition show_ipv6 :: "nat list \<Rightarrow> string" where
  "show_ipv6 segs =
     (if take 6 segs = [0, 0, 0, 0, 0, 0xFFFF] then
        ''::ffff:'' @ join ''.'' (map show_nat
           [segs ! 6 div 256, segs ! 6 mod 256, segs ! 7 div 256, segs ! 7 mod 256])
      else
        (case longest_run segs of (start, len) \<Rightarrow>
           if 1 < len
           then join '':'' (map show_hex (take start segs)) @ ''::''
                  @ join '':'' (map show_hex (drop (start + len) segs))
           else join '':'' (map show_hex segs)))"

definition parse_ip :: "string \<Rightarrow> (string \<times> bool) option" where
  "parse_ip s =
     (if is_ipv4 s then Some (s, False)
      else if is_ipv6 s then Some (show_ipv6 (ipv6_segments s), True)
      else None)"

section \<open>The media address\<close>

record media_scan =
  session_addr :: "string option"
  audio_addr :: "string option"
  audio_port :: "nat option"
  scan_in_audio :: bool

definition media_scan_line :: "string \<Rightarrow> media_scan \<Rightarrow> media_scan" where
  "media_scan_line line sc =
     (let trimmed = trim line in
      case strip_prefix trimmed ''c='' of
        Some rest \<Rightarrow>
          (let parts = split_whitespace rest in
           if 3 \<le> length parts \<and> eq_ignore_ascii_case (parts ! 0) ''IN'' then
             (if scan_in_audio sc then sc\<lparr>audio_addr := Some (parts ! 2)\<rparr>
              else sc\<lparr>session_addr := Some (parts ! 2)\<rparr>)
           else sc)
      | None \<Rightarrow>
          if starts_with trimmed ''m='' then
            (if starts_with trimmed ''m=audio'' then
               (let parts = split_whitespace trimmed in
                sc\<lparr>scan_in_audio := True,
                   audio_port := (if 1 < length parts
                     then (case parse_uint 16 (parts ! 1) of
                             Some p \<Rightarrow> if p \<noteq> 0 then Some p else None | None \<Rightarrow> None)
                     else None)\<rparr>)
             else sc\<lparr>scan_in_audio := False\<rparr>)
          else sc)"

definition scan_media :: "string \<Rightarrow> media_scan" where
  "scan_media sdp =
     fold media_scan_line (lines sdp)
       \<lparr>session_addr = None, audio_addr = None, audio_port = None, scan_in_audio = False\<rparr>"

definition extract_audio_media_addr_from_sdp :: "string \<Rightarrow> socket_addr option" where
  "extract_audio_media_addr_from_sdp sdp =
     (let sc = scan_media sdp in
      case (case audio_addr sc of Some a \<Rightarrow> Some a | None \<Rightarrow> session_addr sc) of
        None \<Rightarrow> None
      | Some h \<Rightarrow>
          (let host = first_piece (\<lambda>c. c = CHR ''/'') h in
           case audio_port sc of
             None \<Rightarrow> None
           | Some p \<Rightarrow>
               (case parse_ip host of
                  None \<Rightarrow> None
                | Some (ip, v6) \<Rightarrow> Some \<lparr>ip_text = ip, is_v6 = v6, port = p\<rparr>)))"

section \<open>The keys of an offer\<close>

text \<open>One line of the loop: the context it announces, if it is usable.\<close>

definition crypto_of_line :: "crypto_lib \<Rightarrow> string \<Rightarrow> (nat \<times> srtp_suite \<times> srtp_context) option" where
  "crypto_of_line lib line =
     (let trimmed = trim line; lower = to_lower trimmed in
      if starts_with lower ''a=crypto'' \<or> starts_with lower ''crypto:'' then
        (case parse_crypto_attribute trimmed of
           Inl e \<Rightarrow> None
         | Inr (tag, suite, key) \<Rightarrow>
             (case from_sdp_name suite of
                None \<Rightarrow> None
              | Some su \<Rightarrow>
                  (case from_sdes_with_suite lib su key of
                     Inl e \<Rightarrow> None | Inr crypto \<Rightarrow> Some (tag, su, crypto))))
      else None)"

fun crypto_lines :: "crypto_lib \<Rightarrow> (nat \<times> srtp_context) option \<Rightarrow> string list
    \<Rightarrow> (nat \<times> srtp_context) option" where
  "crypto_lines lib gcm_fallback [] = gcm_fallback"
| "crypto_lines lib gcm_fallback (line # ls) =
     (case crypto_of_line lib line of
        None \<Rightarrow> crypto_lines lib gcm_fallback ls
      | Some (tag, su, crypto) \<Rightarrow>
          if su = AesCm128HmacSha180 then Some (tag, crypto)
          else crypto_lines lib
                 (case gcm_fallback of None \<Rightarrow> Some (tag, crypto) | Some f \<Rightarrow> Some f) ls)"

definition extract_srtp_crypto_from_sdp :: "crypto_lib \<Rightarrow> string \<Rightarrow> (nat \<times> srtp_context) option" where
  "extract_srtp_crypto_from_sdp lib sdp = crypto_lines lib None (lines sdp)"

definition callee_answer_crypto_is_offered :: "nat \<Rightarrow> srtp_suite \<Rightarrow> bool" where
  "callee_answer_crypto_is_offered tag su \<longleftrightarrow>
     (tag, su) \<in> {(1, AesCm128HmacSha180), (2, AeadAes128Gcm)}"

section \<open>Which key is chosen\<close>

text \<open>The usable keys of an SDP in their order.\<close>

definition keys_of_lines :: "crypto_lib \<Rightarrow> string list \<Rightarrow> (nat \<times> srtp_suite \<times> srtp_context) list" where
  "keys_of_lines lib ls = concat (map (\<lambda>l. case crypto_of_line lib l of Some k \<Rightarrow> [k] | None \<Rightarrow> []) ls)"

definition without_suite :: "nat \<times> srtp_suite \<times> srtp_context \<Rightarrow> nat \<times> srtp_context" where
  "without_suite k = (fst k, snd (snd k))"

lemma crypto_of_line_suite:
  assumes "crypto_of_line lib l = Some (tag, su, crypto)"
  shows "sc_suite crypto = su"
  using assms
  by (auto simp: crypto_of_line_def from_sdes_with_suite_def Let_def
      split: if_splits sum.splits option.splits prod.splits)

lemma keys_of_lines_simps [simp]:
  "keys_of_lines lib [] = []"
  "keys_of_lines lib (l # ls) =
     (case crypto_of_line lib l of Some k \<Rightarrow> [k] | None \<Rightarrow> []) @ keys_of_lines lib ls"
  by (simp_all add: keys_of_lines_def)

lemma crypto_lines_choice:
  "crypto_lines lib fallback ls =
     (case find (\<lambda>k. fst (snd k) = AesCm128HmacSha180) (keys_of_lines lib ls) of
        Some k \<Rightarrow> Some (without_suite k)
      | None \<Rightarrow> (case fallback of Some f \<Rightarrow> Some f
                | None \<Rightarrow> (case keys_of_lines lib ls of [] \<Rightarrow> None | k # ks \<Rightarrow> Some (without_suite k))))"
proof (induction ls arbitrary: fallback)
  case (Cons l ls)
  show ?case
  proof (cases "crypto_of_line lib l")
    case None
    then have "keys_of_lines lib (l # ls) = keys_of_lines lib ls" by simp
    with None show ?thesis by (simp only: crypto_lines.simps option.case Cons)
  next
    case (Some k)
    obtain tag su c where k: "k = (tag, su, c)" by (cases k)
    with Some have "keys_of_lines lib (l # ls) = (tag, su, c) # keys_of_lines lib ls"
      by simp
    with Cons Some k show ?thesis
      by (cases su; cases fallback) (simp_all only: crypto_lines.simps find.simps option.case prod.case list.case
          fst_conv snd_conv srtp_suite.distinct if_True if_False without_suite_def simp_thms split: option.split)
  qed
qed (simp split: option.split)

lemma find_in: "find P xs = Some k \<Longrightarrow> k \<in> set xs"
  by (auto simp: find_Some_iff)

lemma chosen_key_in:
  assumes "extract_srtp_crypto_from_sdp lib sdp = Some (tag, crypto)"
  shows "\<exists>l \<in> set (lines sdp). \<exists>su. crypto_of_line lib l = Some (tag, su, crypto) \<and> sc_suite crypto = su"
proof -
  have keys: "\<exists>l \<in> set ls. crypto_of_line lib l = Some k" if "k \<in> set (keys_of_lines lib ls)" for k ls
    using that by (auto simp: keys_of_lines_def split: option.splits)
  obtain k where "k \<in> set (keys_of_lines lib (lines sdp))" "without_suite k = (tag, crypto)"
    using assms find_in [of "\<lambda>k. fst (snd k) = AesCm128HmacSha180" "keys_of_lines lib (lines sdp)"]
    unfolding extract_srtp_crypto_from_sdp_def crypto_lines_choice
    by (auto split: option.splits list.splits)
  with keys [of k] crypto_of_line_suite show ?thesis
    by (cases k) (fastforce simp: without_suite_def)
qed

text \<open>Which key of an offer is used. The first usable key of the suite every client supports, and
  only when there is none the first usable one at all; lines that are malformed, of an unknown
  suite or with a key of the wrong length are passed over.\<close>

theorem offer_key_choice:
  "extract_srtp_crypto_from_sdp lib sdp =
     (case find (\<lambda>k. fst (snd k) = AesCm128HmacSha180) (keys_of_lines lib (lines sdp)) of
        Some k \<Rightarrow> Some (without_suite k)
      | None \<Rightarrow> (case keys_of_lines lib (lines sdp) of [] \<Rightarrow> None | k # ks \<Rightarrow> Some (without_suite k)))"
  unfolding extract_srtp_crypto_from_sdp_def crypto_lines_choice option.case by (rule refl)

end
