(* ===== verification/Call_Router.thy ===== *)
theory Call_Router
  imports Outbound Sdp_Media
begin

text \<open>
  The call handling of \<open>src/sip/router.rs\<close>: the table of active calls and the handlers of INVITE,
  ACK, BYE and CANCEL and of the responses of the callee. A handler runs as one step; the random
  tags, branches and keys, the clock, the identifier of a new stop channel and the outcome of a
  send are its inputs, and the messages it sends and the relays it starts and stops its effects,
  in their order. The log level is the default one, so the arguments of warnings are evaluated.

  A panic while the table of calls is locked for writing poisons the lock: every later access
  panics. \<open>rt_poisoned\<close> records that, and the entry that was being changed is then left as it
  was, since nothing can read it any more.
\<close>

section \<open>State\<close>

datatype call_state = Trying | Call_Ringing | Established | Call_Terminated

record call_info =
  ci_call_id :: string
  ci_caller_ext :: string
  ci_callee_ext :: string
  ci_caller_tag :: string
  ci_callee_tag :: "string option"
  ci_caller_remote_contact :: "string option"
  ci_callee_remote_contact :: "string option"
  ci_state :: call_state
  ci_original_invite :: string
  ci_caller_sink :: connection_sink
  ci_callee_sink :: "connection_sink option"
  ci_caller_remote_crypto :: "srtp_context option"
  ci_caller_remote_crypto_tag :: nat
  ci_caller_local_crypto :: "srtp_context option"
  ci_callee_remote_crypto :: "srtp_context option"
  ci_callee_local_crypto :: "srtp_context option"
  ci_callee_local_crypto_gcm :: "srtp_context option"
  ci_caller_media_addr :: "socket_addr option"
  ci_callee_media_addr :: "socket_addr option"
  ci_caller_relay_port :: u16
  ci_callee_relay_port :: u16
  ci_relay_started :: bool

type_synonym call_table = "(string, call_info) hashmap"

text \<open>The fields of \<open>Router\<close> that never change, and the shared state it reaches.\<close>

record router_config =
  rc_domain :: string
  rc_media_addr :: string
  rc_udp_socket :: bool
  rc_reg :: reg_config

record router =
  rt_calls :: call_table
  rt_poisoned :: bool
  rt_registrar :: registrar
  rt_media :: media_manager
  rt_writers :: "(string, connection_sink) hashmap"

definition router_new :: "registrar \<Rightarrow> media_manager \<Rightarrow> router" where
  "router_new reg mm = \<lparr>rt_calls = hm_empty, rt_poisoned = False, rt_registrar = reg,
     rt_media = mm, rt_writers = hm_empty\<rparr>"

record call_env =
  ce_now :: u64
  ce_tag :: string
  ce_tag2 :: string
  ce_branch :: string
  ce_rnd :: "nat \<Rightarrow> nat \<Rightarrow> u8"
  ce_channel :: nat
  ce_lib :: crypto_lib
  ce_send :: "connection_sink \<Rightarrow> string \<Rightarrow> bool"

datatype call_effect =
  Send_Text connection_sink string
| Start_Relay string u16 u16 relay_state nat
| Stop_Relay nat

type_synonym 'r handled = "'r may_panic \<times> call_effect list \<times> router"

section \<open>Connections\<close>

definition register_writer :: "string \<Rightarrow> connection_sink \<Rightarrow> router \<Rightarrow> router" where
  "register_writer extension sink rt = rt\<lparr>rt_writers := hm_insert extension sink (rt_writers rt)\<rparr>"

definition unregister_writer :: "string \<Rightarrow> router \<Rightarrow> router" where
  "unregister_writer extension rt = rt\<lparr>rt_writers := hm_remove extension (rt_writers rt)\<rparr>"

definition call_outbound :: "router_config \<Rightarrow> u64 \<Rightarrow> string \<Rightarrow> router \<Rightarrow> connection_sink option" where
  "call_outbound cfg now extension rt =
     (case hm_get (rt_writers rt) extension of
        Some sink \<Rightarrow> Some sink
      | None \<Rightarrow>
          if rc_udp_socket cfg then
            (case lookup now extension (rt_registrar rt) of
               Some r \<Rightarrow> if reg_transport r = Udp then Some (Udp_Sink (reg_addr r)) else None
             | None \<Rightarrow> None)
          else None)"

section \<open>Clean-up\<close>

definition stop_effects :: "nat option \<Rightarrow> call_effect list" where
  "stop_effects ch = (case ch of Some c \<Rightarrow> [Stop_Relay c] | None \<Rightarrow> [])"

definition cleanup_call :: "string \<Rightarrow> router \<Rightarrow> call_effect list \<times> router" where
  "cleanup_call call_id rt =
     (case hm_get (rt_calls rt) call_id of
        None \<Rightarrow> ([], rt)
      | Some call \<Rightarrow>
          (case remove_session call_id (rt_media rt) of
             (session, ch, mm) \<Rightarrow>
               (stop_effects ch,
                rt\<lparr>rt_calls := hm_remove call_id (rt_calls rt), rt_media := mm\<rparr>)))"

section \<open>The request for the callee\<close>

definition rebuilt_header :: "nat \<Rightarrow> string \<Rightarrow> string" where
  "rebuilt_header n line =
     (let lower = to_lower line in
      if starts_with lower ''content-length:'' \<or> starts_with lower ''l:''
      then ''Content-Length: '' @ show_nat n else line)"

definition rebuild_request_with_sdp :: "string \<Rightarrow> string \<Rightarrow> string" where
  "rebuild_request_with_sdp request new_sdp =
     (let header_end = (case find_str (CRLF @ CRLF) request of Some i \<Rightarrow> i | None \<Rightarrow> length request);
          headers = map (rebuilt_header (length new_sdp)) (lines (take header_end request));
          headers1 = (if list_ex (\<lambda>h. starts_with (to_lower h) ''content-type:'') headers
                      then headers else headers @ [''Content-Type: application/sdp'']);
          headers2 = (if list_ex (\<lambda>h. starts_with (to_lower h) ''content-length:'') headers1
                      then headers1 else headers1 @ [''Content-Length: '' @ show_nat (length new_sdp)])
      in join CRLF headers2 @ CRLF @ CRLF @ new_sdp)"

definition build_outbound_request_bytes ::
  "string \<Rightarrow> string \<Rightarrow> string \<Rightarrow> string \<Rightarrow> transport \<Rightarrow> string \<Rightarrow> string" where
  "build_outbound_request_bytes request target_uri domain contact_uri tp branch =
     (if valid_utf8 request
      then build_outbound_request request target_uri domain contact_uri tp branch else request)"

definition context_key :: "crypto_lib \<Rightarrow> nat \<Rightarrow> srtp_context \<Rightarrow> sdp_crypto" where
  "context_key lib tag c =
     \<lparr>crypto_tag = tag, crypto_suite = sdp_name (sc_suite c), crypto_key = to_sdes_key lib c\<rparr>"

definition callee_cryptos :: "crypto_lib \<Rightarrow> srtp_context \<Rightarrow> srtp_context \<Rightarrow> sdp_crypto list" where
  "callee_cryptos lib cm gcm = [context_key lib 1 cm, context_key lib 2 gcm]"

text \<open>The INVITE sent to the callee.\<close>

definition callee_invite ::
  "router_config \<Rightarrow> call_env \<Rightarrow> string \<Rightarrow> string \<Rightarrow> string \<Rightarrow> string \<Rightarrow> connection_sink \<Rightarrow> u16
     \<Rightarrow> sdp_crypto list \<Rightarrow> router \<Rightarrow> string" where
  "callee_invite cfg env request invite_body caller_ext callee_ext callee_sink callee_port cryptos rt =
     (let new_sdp = rewrite_sdp_with_cryptos invite_body (rc_media_addr cfg) (unat callee_port) cryptos;
          target_uri = registered_contact_uri (ce_now env) callee_ext (rc_domain cfg) (rt_registrar rt);
          rebuilt = rebuild_request_with_sdp request new_sdp
      in build_outbound_request_bytes rebuilt target_uri (rc_domain cfg)
           (server_contact_uri caller_ext (rc_domain cfg) (sink_transport callee_sink))
           (sink_transport callee_sink) (ce_branch env))"

section \<open>INVITE\<close>

definition caller_extension :: "string \<Rightarrow> string may_panic" where
  "caller_extension request =
     (case extract_uri_from_header request ''From'' of
        None \<Rightarrow> None
      | Some None \<Rightarrow> Some []
      | Some (Some uri) \<Rightarrow>
          map_option (\<lambda>e. case e of Some x \<Rightarrow> x | None \<Rightarrow> []) (extract_extension uri))"

definition refuse_caller :: "router_config \<Rightarrow> call_env \<Rightarrow> string \<Rightarrow> string \<Rightarrow> router \<Rightarrow> string handled" where
  "refuse_caller cfg env request ip rt =
     (Some (build_response request 403 ''Forbidden'' (ce_tag env)), [],
      rt\<lparr>rt_registrar := snd (record_failure (rc_reg cfg) (ce_now env) ip (rt_registrar rt))\<rparr>)"

text \<open>Whether the connection an INVITE arrived on may speak for the extension of its From header.\<close>

definition connection_may_call ::
  "u64 \<Rightarrow> string \<Rightarrow> connection_sink \<Rightarrow> socket_addr \<Rightarrow> string option \<Rightarrow> registrar \<Rightarrow> bool" where
  "connection_may_call now caller_ext caller_sink from_addr connection_ext reg \<longleftrightarrow>
     (case connection_ext of
        Some ext \<Rightarrow> ext = caller_ext
      | None \<Rightarrow>
          sink_transport caller_sink = Udp \<and>
          (case lookup now caller_ext reg of
             Some r \<Rightarrow> ip_text (reg_addr r) = ip_text from_addr | None \<Rightarrow> False))"

text \<open>\<open>extract_from_tag(..).unwrap_or_default()\<close>.\<close>

definition from_tag_of :: "string \<Rightarrow> string may_panic" where
  "from_tag_of request = map_option (\<lambda>t. case t of Some s \<Rightarrow> s | None \<Rightarrow> []) (extract_from_tag request)"

text \<open>The entry of a new call; the From tag has been read before, so it does not panic here.\<close>

definition new_call_info ::
  "call_env \<Rightarrow> string \<Rightarrow> string \<Rightarrow> string \<Rightarrow> string \<Rightarrow> string option \<Rightarrow> connection_sink \<Rightarrow> connection_sink
     \<Rightarrow> nat \<Rightarrow> srtp_context \<Rightarrow> socket_addr option \<Rightarrow> relay_session \<Rightarrow> call_info" where
  "new_call_info env request call_id caller_ext callee_ext contact caller_sink callee_sink
     tg crypto maddr session =
     \<lparr>ci_call_id = call_id, ci_caller_ext = caller_ext, ci_callee_ext = callee_ext,
      ci_caller_tag = (case from_tag_of request of Some t \<Rightarrow> t | None \<Rightarrow> []),
      ci_callee_tag = None, ci_caller_remote_contact = contact, ci_callee_remote_contact = None,
      ci_state = Trying, ci_original_invite = request, ci_caller_sink = caller_sink,
      ci_callee_sink = Some callee_sink, ci_caller_remote_crypto = Some crypto,
      ci_caller_remote_crypto_tag = tg,
      ci_caller_local_crypto = Some (new_with_suite (ce_lib env) (ce_rnd env 0) (sc_suite crypto)),
      ci_callee_remote_crypto = None,
      ci_callee_local_crypto = Some (srtp_new (ce_lib env) (ce_rnd env 1)),
      ci_callee_local_crypto_gcm = Some (new_with_suite (ce_lib env) (ce_rnd env 2) AeadAes128Gcm),
      ci_caller_media_addr = maddr, ci_callee_media_addr = None,
      ci_caller_relay_port = rs_caller_port session, ci_callee_relay_port = rs_callee_port session,
      ci_relay_started = False\<rparr>"

text \<open>From the keys of the two new contexts to the end of the handler.\<close>

definition connect_call ::
  "router_config \<Rightarrow> call_env \<Rightarrow> string \<Rightarrow> string \<Rightarrow> string \<Rightarrow> string \<Rightarrow> string \<Rightarrow> connection_sink \<Rightarrow> connection_sink
     \<Rightarrow> nat \<Rightarrow> srtp_context \<Rightarrow> relay_session \<Rightarrow> router \<Rightarrow> string handled" where
  "connect_call cfg env request invite_body call_id caller_ext callee_ext caller_sink callee_sink
     tg crypto session rt =
     (let cryptos = callee_cryptos (ce_lib env) (srtp_new (ce_lib env) (ce_rnd env 1))
            (new_with_suite (ce_lib env) (ce_rnd env 2) AeadAes128Gcm);
          invite = callee_invite cfg env request invite_body caller_ext callee_ext callee_sink
            (rs_callee_port session) cryptos rt
      in case extract_contact_uri request of
           None \<Rightarrow> (None, [], rt)
         | Some contact \<Rightarrow>
             (let call = new_call_info env request call_id caller_ext callee_ext contact caller_sink
                    callee_sink tg crypto (extract_audio_media_addr_from_sdp invite_body) session;
                  rt1 = rt\<lparr>rt_calls := hm_insert call_id call (rt_calls rt)\<rparr>
              in if ce_send env callee_sink invite then
                   (Some (build_response request 100 ''Trying'' (ce_tag env)),
                    [Send_Text callee_sink invite], rt1)
                 else
                   (case cleanup_call call_id rt1 of (effs, rt2) \<Rightarrow>
                      (Some (build_response request 500 ''Internal Server Error'' (ce_tag env)),
                       Send_Text callee_sink invite # effs, rt2))))"

text \<open>What follows the checks of the caller, except the removal of an old call of the same id.\<close>

definition reach_callee ::
  "router_config \<Rightarrow> call_env \<Rightarrow> string \<Rightarrow> string \<Rightarrow> string \<Rightarrow> string \<Rightarrow> connection_sink \<Rightarrow> router
     \<Rightarrow> string handled" where
  "reach_callee cfg env request call_id caller_ext callee_ext caller_sink rt =
     (let answer = (\<lambda>code reason rt'. (Some (build_response request code reason (ce_tag env)), [], rt')) in
      if \<not> is_registered (ce_now env) callee_ext (rt_registrar rt) then
        (case extract_uri_from_header request ''To'' of
           None \<Rightarrow> (None, [], rt)
         | Some _ \<Rightarrow> answer 404 ''Not Found'' rt)
      else
        (case call_outbound cfg (ce_now env) callee_ext rt of
           None \<Rightarrow> answer 480 ''Temporarily Unavailable'' rt
         | Some callee_sink \<Rightarrow>
             (case extract_body request of
                None \<Rightarrow> answer 488 ''Not Acceptable Here'' rt
              | Some invite_body \<Rightarrow>
                  (case extract_srtp_crypto_from_sdp (ce_lib env) invite_body of
                     None \<Rightarrow> answer 488 ''Not Acceptable Here'' rt
                   | Some (tg, crypto) \<Rightarrow>
                       (case create_session call_id (rt_media rt) of
                          (None, mm) \<Rightarrow> answer 503 ''Service Unavailable'' (rt\<lparr>rt_media := mm\<rparr>)
                        | (Some session, mm) \<Rightarrow>
                            connect_call cfg env request invite_body call_id caller_ext callee_ext
                              caller_sink callee_sink tg crypto session
                              (rt\<lparr>rt_media := mm\<rparr>))))))"

definition place_call ::
  "router_config \<Rightarrow> call_env \<Rightarrow> string \<Rightarrow> string \<Rightarrow> string \<Rightarrow> connection_sink \<Rightarrow> router \<Rightarrow> string handled" where
  "place_call cfg env request caller_ext callee_ext caller_sink rt =
     (if from_tag_of request = None \<or> rt_poisoned rt then (None, [], rt)
      else
        (let call_id = (case extract_call_id request of Some i \<Rightarrow> i | None \<Rightarrow> []) in
         case cleanup_call call_id rt of (effs0, rt0) \<Rightarrow>
           (case reach_callee cfg env request call_id caller_ext callee_ext caller_sink rt0 of
              (r, effs, rt1) \<Rightarrow> (r, effs0 @ effs, rt1))))"

definition handle_invite ::
  "router_config \<Rightarrow> call_env \<Rightarrow> string \<Rightarrow> connection_sink \<Rightarrow> socket_addr \<Rightarrow> string option \<Rightarrow> router
     \<Rightarrow> string handled" where
  "handle_invite cfg env request caller_sink from_addr connection_ext rt =
     (let ip = ip_text from_addr in
      if is_blocked (rc_reg cfg) ip (rt_registrar rt)
      then (Some (build_response request 403 ''Forbidden'' (ce_tag env)), [], rt)
      else
        (case caller_extension request of
           None \<Rightarrow> (None, [], rt)
         | Some caller_ext \<Rightarrow>
             (case extract_called_extension request of
                None \<Rightarrow> (None, [], rt)
              | Some called \<Rightarrow>
                  (let callee_ext = (case called of Some c \<Rightarrow> c | None \<Rightarrow> []) in
                   if caller_ext = [] \<or> \<not> is_registered (ce_now env) caller_ext (rt_registrar rt)
                     then refuse_caller cfg env request ip rt
                   else if \<not> connection_may_call (ce_now env) caller_ext caller_sink from_addr
                                connection_ext (rt_registrar rt)
                     then refuse_caller cfg env request ip rt
                   else place_call cfg env request caller_ext callee_ext caller_sink rt))))"

section \<open>Responses of the callee\<close>

text \<open>The update of the call under the write lock; a panic here poisons the lock.\<close>

definition accept_answer :: "crypto_lib \<Rightarrow> string \<Rightarrow> call_info \<Rightarrow> call_info" where
  "accept_answer lib response call =
     (case Option.bind (extract_body response) (extract_srtp_crypto_from_sdp lib) of
        None \<Rightarrow> call\<lparr>ci_state := Call_Terminated\<rparr>
      | Some (tag, crypto) \<Rightarrow>
          if callee_answer_crypto_is_offered tag (sc_suite crypto) then
            call\<lparr>ci_callee_remote_crypto := Some crypto,
                 ci_callee_media_addr :=
                   Option.bind (extract_body response) extract_audio_media_addr_from_sdp,
                 ci_state := Established\<rparr>
          else call\<lparr>ci_state := Call_Terminated\<rparr>)"

definition learn_callee_tag :: "string \<Rightarrow> call_info \<Rightarrow> call_info may_panic" where
  "learn_callee_tag response call =
     (if ci_callee_tag call = None
      then map_option (\<lambda>t. call\<lparr>ci_callee_tag := t\<rparr>) (extract_to_tag response) else Some call)"

definition update_call :: "crypto_lib \<Rightarrow> nat \<Rightarrow> string \<Rightarrow> call_info \<Rightarrow> call_info may_panic" where
  "update_call lib status response call =
     (if status = 180 \<or> status = 183
        then learn_callee_tag response (call\<lparr>ci_state := Call_Ringing\<rparr>)
      else if status = 200 then
        (case learn_callee_tag response call of
           None \<Rightarrow> None
         | Some call1 \<Rightarrow>
             if ci_callee_remote_contact call1 = None then
               (case extract_contact_uri response of
                  None \<Rightarrow> None
                | Some contact \<Rightarrow> Some (accept_answer lib response (call1\<lparr>ci_callee_remote_contact := contact\<rparr>)))
             else Some (accept_answer lib response call1))
      else if 400 \<le> status then Some (call\<lparr>ci_state := Call_Terminated\<rparr>)
      else Some call)"

definition answer_sdp :: "router_config \<Rightarrow> crypto_lib \<Rightarrow> call_info \<Rightarrow> srtp_context \<Rightarrow> string \<Rightarrow> string" where
  "answer_sdp cfg lib call caller_crypto body =
     fill_missing_rtpmap (ensure_answer_crypto_not_last_line
       (rewrite_sdp_with_cryptos body (rc_media_addr cfg) (unat (ci_caller_relay_port call))
          [context_key lib (ci_caller_remote_crypto_tag call) caller_crypto]))"

definition reason_with_body :: "nat \<Rightarrow> string \<Rightarrow> string" where
  "reason_with_body status response =
     (if status = 100 then ''Trying'' else if status = 180 then ''Ringing''
      else if status = 183 then ''Session Progress'' else if status = 200 then ''OK''
      else reason_phrase response)"

definition reason_without_body :: "nat \<Rightarrow> string \<Rightarrow> string" where
  "reason_without_body status response =
     (if status = 404 then ''Not Found'' else if status = 486 then ''Busy Here''
      else if status = 487 then ''Request Terminated'' else if status = 603 then ''Decline''
      else reason_with_body status response)"

definition relay_contexts :: "call_info \<Rightarrow> relay_state" where
  "relay_contexts call =
     run_relay_start (ci_caller_remote_crypto call)
       (case map_option sc_suite (ci_callee_remote_crypto call) of
          Some AeadAes128Gcm \<Rightarrow>
            (case ci_callee_local_crypto_gcm call of
               Some c \<Rightarrow> Some c | None \<Rightarrow> ci_callee_local_crypto call)
        | _ \<Rightarrow> ci_callee_local_crypto call)
       (ci_callee_remote_crypto call) (ci_caller_local_crypto call)
       (ci_caller_media_addr call) (ci_callee_media_addr call)"

definition start_media_relay :: "call_env \<Rightarrow> string \<Rightarrow> router \<Rightarrow> call_effect list \<times> router" where
  "start_media_relay env call_id rt =
     (case hm_get (rt_calls rt) call_id of
        None \<Rightarrow> ([], rt)
      | Some call \<Rightarrow>
          ([Start_Relay call_id (ci_caller_relay_port call) (ci_callee_relay_port call)
              (relay_contexts call) (ce_channel env)],
           rt\<lparr>rt_media := register_shutdown call_id (ce_channel env) (rt_media rt)\<rparr>))"

text \<open>After the response was forwarded: clean-up of a refused call, start of an answered one.\<close>

definition after_forwarding :: "call_env \<Rightarrow> nat \<Rightarrow> string \<Rightarrow> router \<Rightarrow> call_effect list \<times> router" where
  "after_forwarding env status call_id rt =
     (if 400 \<le> status then cleanup_call call_id rt
      else if status = 200 then
        (case hm_get (rt_calls rt) call_id of
           None \<Rightarrow> ([], rt)
         | Some call \<Rightarrow>
             if \<not> ci_relay_started call \<and> ci_callee_remote_crypto call \<noteq> None
             then start_media_relay env call_id
                    (rt\<lparr>rt_calls := hm_insert call_id (call\<lparr>ci_relay_started := True\<rparr>) (rt_calls rt)\<rparr>)
             else ([], rt))
      else ([], rt))"

definition forward_response ::
  "router_config \<Rightarrow> call_env \<Rightarrow> nat \<Rightarrow> string \<Rightarrow> string \<Rightarrow> call_info \<Rightarrow> router \<Rightarrow> unit handled" where
  "forward_response cfg env status response call_id call rt =
     (let sink = ci_caller_sink call;
          contact = server_contact_uri (ci_callee_ext call) (rc_domain cfg) (sink_transport sink);
          forward = (\<lambda>reason body.
            let text = build_forwarded_invite_response (ci_original_invite call) response status
                         reason contact body
            in case after_forwarding env status call_id rt of
                 (effs, rt') \<Rightarrow> (Some (), Send_Text sink text # effs, rt'))
      in case extract_body response of
           Some body \<Rightarrow>
             (case ci_caller_local_crypto call of
                None \<Rightarrow>
                  (case cleanup_call call_id rt of
                     (effs, rt') \<Rightarrow>
                       (Some (), Send_Text sink (build_response (ci_original_invite call) 500
                          ''Internal Server Error'' (ce_tag2 env)) # effs, rt'))
              | Some caller_crypto \<Rightarrow>
                  forward (reason_with_body status response)
                    (answer_sdp cfg (ce_lib env) call caller_crypto body))
         | None \<Rightarrow> forward (reason_without_body status response) [])"

definition handle_callee_response ::
  "router_config \<Rightarrow> call_env \<Rightarrow> string \<Rightarrow> router \<Rightarrow> unit handled" where
  "handle_callee_response cfg env response rt =
     (case extract_call_id response of
        None \<Rightarrow> (Some (), [], rt)
      | Some call_id \<Rightarrow>
          (case extract_status_code response of
             None \<Rightarrow> (Some (), [], rt)
           | Some status \<Rightarrow>
               if rt_poisoned rt then (None, [], rt)
               else
                 (case hm_get (rt_calls rt) call_id of
                    None \<Rightarrow> (Some (), [], rt)
                  | Some call0 \<Rightarrow>
                      (case update_call (ce_lib env) status response call0 of
                         None \<Rightarrow> (None, [], rt\<lparr>rt_poisoned := True\<rparr>)
                       | Some call \<Rightarrow>
                           (let rt1 = rt\<lparr>rt_calls := hm_insert call_id call (rt_calls rt)\<rparr> in
                            if status = 200 \<and> ci_callee_remote_crypto call = None then
                              (case cleanup_call call_id rt1 of
                                 (effs, rt2) \<Rightarrow>
                                   (Some (), Send_Text (ci_caller_sink call)
                                      (build_response (ci_original_invite call) 488
                                         ''Not Acceptable Here'' (ce_tag2 env)) # effs, rt2))
                            else forward_response cfg env status response call_id call rt1)))))"

section \<open>ACK, BYE, CANCEL\<close>

definition remote_target ::
  "router_config \<Rightarrow> u64 \<Rightarrow> string option \<Rightarrow> string \<Rightarrow> router \<Rightarrow> string" where
  "remote_target cfg now contact extension rt =
     (case contact of
        Some c \<Rightarrow> c
      | None \<Rightarrow> registered_contact_uri now extension (rc_domain cfg) (rt_registrar rt))"

definition forward_in_dialog ::
  "router_config \<Rightarrow> call_env \<Rightarrow> string \<Rightarrow> string \<Rightarrow> connection_sink \<Rightarrow> call_effect" where
  "forward_in_dialog cfg env request target sink =
     Send_Text sink (build_outbound_request request target (rc_domain cfg) [] (sink_transport sink)
       (ce_branch env))"

definition handle_ack :: "router_config \<Rightarrow> call_env \<Rightarrow> string \<Rightarrow> router \<Rightarrow> unit handled" where
  "handle_ack cfg env request rt =
     (case extract_call_id request of
        None \<Rightarrow> (Some (), [], rt)
      | Some call_id \<Rightarrow>
          if rt_poisoned rt then (None, [], rt)
          else
            (case hm_get (rt_calls rt) call_id of
               None \<Rightarrow> (Some (), [], rt)
             | Some call \<Rightarrow>
                 (case ci_callee_sink call of
                    None \<Rightarrow> (Some (), [], rt)
                  | Some sink \<Rightarrow>
                      (Some (),
                       [forward_in_dialog cfg env request
                          (remote_target cfg (ce_now env) (ci_callee_remote_contact call)
                             (ci_callee_ext call) rt) sink], rt))))"

definition no_call :: "call_env \<Rightarrow> string \<Rightarrow> router \<Rightarrow> string handled" where
  "no_call env request rt =
     (Some (build_response request 481 ''Call/Transaction Does Not Exist'' (ce_tag env)), [], rt)"

text \<open>On which sides a BYE may have been sent: by its From tag, or by the connection it came on.\<close>

definition bye_from_caller_side :: "string \<Rightarrow> string \<Rightarrow> call_info \<Rightarrow> bool" where
  "bye_from_caller_side from_tag from_extension call \<longleftrightarrow>
     from_tag \<noteq> [] \<and> from_tag = ci_caller_tag call \<or>
     from_extension \<noteq> [] \<and> from_extension = ci_caller_ext call"

definition bye_from_callee_side :: "string \<Rightarrow> string \<Rightarrow> call_info \<Rightarrow> bool" where
  "bye_from_callee_side from_tag from_extension call \<longleftrightarrow>
     from_tag \<noteq> [] \<and> ci_callee_tag call = Some from_tag \<or>
     from_extension \<noteq> [] \<and> from_extension = ci_callee_ext call"

definition bye_target ::
  "router_config \<Rightarrow> u64 \<Rightarrow> string \<Rightarrow> string \<Rightarrow> call_info \<Rightarrow> router \<Rightarrow> connection_sink option \<times> string" where
  "bye_target cfg now from_tag from_extension call rt =
     (if bye_from_caller_side from_tag from_extension call \<and>
         \<not> bye_from_callee_side from_tag from_extension call
      then (ci_callee_sink call,
            remote_target cfg now (ci_callee_remote_contact call) (ci_callee_ext call) rt)
      else (Some (ci_caller_sink call),
            remote_target cfg now (ci_caller_remote_contact call) (ci_caller_ext call) rt))"

definition handle_bye ::
  "router_config \<Rightarrow> call_env \<Rightarrow> string \<Rightarrow> string \<Rightarrow> router \<Rightarrow> string handled" where
  "handle_bye cfg env request from_extension rt =
     (case extract_call_id request of
        None \<Rightarrow> no_call env request rt
      | Some call_id \<Rightarrow>
          (case from_tag_of request of
             None \<Rightarrow> (None, [], rt)
           | Some from_tag \<Rightarrow>
             if rt_poisoned rt then (None, [], rt)
             else
              (case hm_get (rt_calls rt) call_id of
               None \<Rightarrow> no_call env request rt
             | Some call \<Rightarrow>
                 if \<not> bye_from_caller_side from_tag from_extension call \<and>
                    \<not> bye_from_callee_side from_tag from_extension call
                 then no_call env request rt
                 else
                   (case bye_target cfg (ce_now env) from_tag from_extension call rt of
                      (other_sink, target) \<Rightarrow>
                        (case cleanup_call call_id rt of
                           (effs, rt1) \<Rightarrow>
                             (Some (build_response request 200 ''OK'' (ce_tag env)),
                              (case other_sink of
                                 Some sink \<Rightarrow> [forward_in_dialog cfg env request target sink]
                               | None \<Rightarrow> []) @ effs, rt1))))))"

definition handle_cancel :: "router_config \<Rightarrow> call_env \<Rightarrow> string \<Rightarrow> router \<Rightarrow> string handled" where
  "handle_cancel cfg env request rt =
     (case extract_call_id request of
        None \<Rightarrow> no_call env request rt
      | Some call_id \<Rightarrow>
          if rt_poisoned rt then (None, [], rt)
          else
            (case hm_get (rt_calls rt) call_id of
               None \<Rightarrow> no_call env request rt
             | Some call0 \<Rightarrow>
                 (case from_tag_of request of
                    None \<Rightarrow> (None, [], rt\<lparr>rt_poisoned := True\<rparr>)
                  | Some from_tag \<Rightarrow>
                  if from_tag = [] \<or> from_tag \<noteq> ci_caller_tag call0 then no_call env request rt
                  else
                    (let call = call0\<lparr>ci_state := Call_Terminated\<rparr>;
                         rt1 = rt\<lparr>rt_calls := hm_insert call_id call (rt_calls rt)\<rparr>;
                         target = remote_target cfg (ce_now env) (ci_callee_remote_contact call)
                                    (ci_callee_ext call) rt1;
                         sends = (case ci_callee_sink call of
                           None \<Rightarrow> []
                         | Some sink \<Rightarrow>
                             [forward_in_dialog cfg env request target sink,
                              Send_Text (ci_caller_sink call)
                                (build_response (ci_original_invite call) 487
                                   ''Request Terminated'' (ce_tag2 env))])
                     in case cleanup_call call_id rt1 of
                          (effs, rt2) \<Rightarrow>
                            (Some (build_response request 200 ''OK'' (ce_tag env)), sends @ effs, rt2)))))"

definition find_peer_extension :: "string \<Rightarrow> string \<Rightarrow> router \<Rightarrow> string option" where
  "find_peer_extension call_id from_ext rt =
     map_option (\<lambda>call. if ci_caller_ext call = from_ext then ci_callee_ext call else ci_caller_ext call)
       (hm_get (rt_calls rt) call_id)"

definition has_active_call :: "string \<Rightarrow> router \<Rightarrow> bool" where
  "has_active_call call_id rt \<longleftrightarrow> hm_get (rt_calls rt) call_id \<noteq> None"

end
