(* ===== verification/Calls.thy ===== *)
theory Calls
  imports Call_Router
begin

text \<open>
  What holds of the calls of \<open>src/sip/router.rs\<close> in every history: who can set one up and end it,
  what is released when it ends, and that media only ever flows between SRTP contexts that both
  sides agreed on.
\<close>

section \<open>Histories\<close>

text \<open>
  Everything that reaches the router: the handlers, the connection map, and whatever the
  registrar does in between. A step carries its effects.
\<close>

inductive router_step ::
  "router_config \<Rightarrow> crypto_lib \<Rightarrow> router \<Rightarrow> call_effect list \<Rightarrow> router \<Rightarrow> bool" for cfg lib where
  invite: "ce_lib env = lib \<Longrightarrow>
     handle_invite cfg env request sink from_addr ext rt = (r, effs, rt') \<Longrightarrow> router_step cfg lib rt effs rt'"
| response: "ce_lib env = lib \<Longrightarrow>
     handle_callee_response cfg env request rt = (u, effs, rt') \<Longrightarrow> router_step cfg lib rt effs rt'"
| ack: "handle_ack cfg env request rt = (u, effs, rt') \<Longrightarrow> router_step cfg lib rt effs rt'"
| bye: "handle_bye cfg env request from_ext rt = (r, effs, rt') \<Longrightarrow> router_step cfg lib rt effs rt'"
| cancel: "handle_cancel cfg env request rt = (r, effs, rt') \<Longrightarrow> router_step cfg lib rt effs rt'"
| writer: "router_step cfg lib rt [] (register_writer ext sink rt)"
| no_writer: "router_step cfg lib rt [] (unregister_writer ext rt)"
| registrar: "reg_step (rc_reg cfg) (rt_registrar rt) reg \<Longrightarrow>
     router_step cfg lib rt [] (rt\<lparr>rt_registrar := reg\<rparr>)"

inductive router_reach :: "router_config \<Rightarrow> crypto_lib \<Rightarrow> router \<Rightarrow> bool" for cfg lib where
  start: "router_reach cfg lib (router_new registrar_new (manager_new port_start port_end addr))"
| step: "router_reach cfg lib rt \<Longrightarrow> router_step cfg lib rt effs rt' \<Longrightarrow> router_reach cfg lib rt'"

section \<open>The invariant\<close>

definition offered :: "crypto_lib \<Rightarrow> call_info \<Rightarrow> srtp_context \<Rightarrow> bool" where
  "offered lib call c \<longleftrightarrow>
     (\<exists>body. extract_body (ci_original_invite call) = Some body \<and>
        extract_srtp_crypto_from_sdp lib body = Some (ci_caller_remote_crypto_tag call, c))"

text \<open>The contexts of a call: the caller's as offered, and three new ones of the right suites.\<close>

definition call_keys :: "crypto_lib \<Rightarrow> call_info \<Rightarrow> bool" where
  "call_keys lib call \<longleftrightarrow>
     (\<exists>c rnd. ci_caller_remote_crypto call = Some c \<and> offered lib call c \<and>
        ci_caller_local_crypto call = Some (new_with_suite lib rnd (sc_suite c))) \<and>
     (\<exists>rnd. ci_callee_local_crypto call = Some (new_with_suite lib rnd AesCm128HmacSha180)) \<and>
     (\<exists>rnd. ci_callee_local_crypto_gcm call = Some (new_with_suite lib rnd AeadAes128Gcm)) \<and>
     (ci_state call = Established \<or> ci_relay_started call \<longrightarrow> ci_callee_remote_crypto call \<noteq> None)"

definition call_ports :: "media_manager \<Rightarrow> string \<Rightarrow> call_info \<Rightarrow> bool" where
  "call_ports mm cid call \<longleftrightarrow>
     (\<exists>s. hm_get (mm_sessions mm) cid = Some s \<and> rs_caller_port s = ci_caller_relay_port call \<and>
        rs_callee_port s = ci_callee_relay_port call)"

definition call_ok :: "crypto_lib \<Rightarrow> media_manager \<Rightarrow> string \<Rightarrow> call_info \<Rightarrow> bool" where
  "call_ok lib mm cid call \<longleftrightarrow>
     ci_call_id call = cid \<and> ci_callee_sink call \<noteq> None \<and> call_keys lib call \<and> call_ports mm cid call"

definition router_inv :: "crypto_lib \<Rightarrow> router \<Rightarrow> bool" where
  "router_inv lib rt \<longleftrightarrow>
     (\<forall>cid call. hm_get (rt_calls rt) cid = Some call \<longrightarrow> call_ok lib (rt_media rt) cid call) \<and>
     (\<forall>cid. hm_get (mm_shutdown_senders (rt_media rt)) cid \<noteq> None \<longleftrightarrow>
        (\<exists>call. hm_get (rt_calls rt) cid = Some call \<and> ci_relay_started call))"

lemma router_invI [intro?]:
  assumes "\<And>cid call. hm_get (rt_calls rt) cid = Some call \<Longrightarrow> call_ok lib (rt_media rt) cid call"
    and "\<And>cid. hm_get (mm_shutdown_senders (rt_media rt)) cid \<noteq> None \<longleftrightarrow>
        (\<exists>call. hm_get (rt_calls rt) cid = Some call \<and> ci_relay_started call)"
  shows "router_inv lib rt"
  using assms by (simp add: router_inv_def)

lemma router_inv_call: "router_inv lib rt \<Longrightarrow> hm_get (rt_calls rt) cid = Some call \<Longrightarrow> call_ok lib (rt_media rt) cid call"
  by (simp add: router_inv_def)

lemma router_inv_sender:
  "router_inv lib rt \<Longrightarrow> hm_get (mm_shutdown_senders (rt_media rt)) cid \<noteq> None \<longleftrightarrow>
        (\<exists>call. hm_get (rt_calls rt) cid = Some call \<and> ci_relay_started call)"
  by (simp add: router_inv_def)

lemma router_inv_cong:
  "rt_calls rt = rt_calls rt' \<Longrightarrow> rt_media rt = rt_media rt' \<Longrightarrow> router_inv lib rt \<Longrightarrow> router_inv lib rt'"
  by (simp add: router_inv_def)

lemma router_inv_new [inv_intros]:
  "router_inv lib (router_new reg (manager_new port_start port_end addr))"
  by (simp add: router_inv_def router_new_def manager_new_def)

section \<open>The building blocks keep the invariant\<close>

lemma cleanup_call_calls [simp]:
  "rt_calls (snd (cleanup_call cid rt)) = (if hm_get (rt_calls rt) cid = None then rt_calls rt else hm_remove cid (rt_calls rt))"
  "rt_poisoned (snd (cleanup_call cid rt)) = rt_poisoned rt"
  "rt_registrar (snd (cleanup_call cid rt)) = rt_registrar rt"
  "rt_writers (snd (cleanup_call cid rt)) = rt_writers rt"
  by (simp_all add: cleanup_call_def remove_session_def split: option.split)

lemma cleanup_call_gone [simp]: "hm_get (rt_calls (snd (cleanup_call cid rt))) cid = None"
  by simp

text \<open>The sessions of the manager back the calls: what \<open>session_store\<close> proves for any store applies.\<close>

definition call_fits :: "call_info \<Rightarrow> relay_session \<Rightarrow> bool" where
  "call_fits call s \<longleftrightarrow> rs_caller_port s = ci_caller_relay_port call \<and> rs_callee_port s = ci_callee_relay_port call"

definition call_alone :: "crypto_lib \<Rightarrow> string \<Rightarrow> call_info \<Rightarrow> bool" where
  "call_alone lib cid call \<longleftrightarrow> ci_call_id call = cid \<and> ci_callee_sink call \<noteq> None \<and> call_keys lib call"

abbreviation calls_backed :: "media_manager \<Rightarrow> (string \<Rightarrow> call_info option) \<Rightarrow> bool" where
  "calls_backed mm calls \<equiv>
     backed call_fits ci_relay_started (hm_get (mm_sessions mm)) (hm_get (mm_shutdown_senders mm)) calls"

lemma call_ok_split:
  "call_ok lib mm cid call \<longleftrightarrow> call_alone lib cid call \<and> (\<exists>s. hm_get (mm_sessions mm) cid = Some s \<and> call_fits call s)"
  by (auto simp: call_ok_def call_alone_def call_ports_def call_fits_def)

lemma router_inv_backed:
  "router_inv lib rt \<longleftrightarrow> (\<forall>cid call. hm_get (rt_calls rt) cid = Some call \<longrightarrow> call_alone lib cid call) \<and>
     calls_backed (rt_media rt) (hm_get (rt_calls rt))"
  by (auto simp: router_inv_def backed_def call_ok_split)

lemma get_insert_fun: "hm_get (hm_insert k v m) = (hm_get m)(k := Some v)"
  by (simp add: fun_eq_iff)

lemma get_remove_fun: "hm_get (hm_remove k m) = (hm_get m)(k := None)"
  by (simp add: fun_eq_iff)

lemma cleanup_call_inv [inv_intros]:
  assumes "router_inv lib rt"
  shows "router_inv lib (snd (cleanup_call cid rt))"
proof (cases "hm_get (rt_calls rt) cid")
  case None
  then show ?thesis using assms by (simp add: cleanup_call_def)
next
  case (Some call)
  obtain r ch mm where rm: "remove_session cid (rt_media rt) = (r, ch, mm)" by (cases "remove_session cid (rt_media rt)")
  with Some have "snd (cleanup_call cid rt) = rt\<lparr>rt_calls := hm_remove cid (rt_calls rt), rt_media := mm\<rparr>"
    by (simp add: cleanup_call_def)
  then show ?thesis using assms sessions.remove_backed [OF _ rm]
    by (auto simp: router_inv_backed get_remove_fun)
qed

lemma create_session_senders:
  "create_session cid mm = (r, mm') \<Longrightarrow> mm_shutdown_senders mm' = mm_shutdown_senders mm"
  by (auto simp: create_session_def allocate_port_pair_def Let_def split: option.splits prod.splits)

lemma create_session_inv [inv_intros]:
  assumes "router_inv lib rt" "create_session cid (rt_media rt) = (r, mm)"
  shows "router_inv lib (rt\<lparr>rt_media := mm\<rparr>)"
  using assms(1) by (auto simp: router_inv_backed intro: sessions.create_backed [OF _ assms(2)])

lemma insert_call_inv:
  assumes "router_inv lib rt" "call_ok lib (rt_media rt) cid call"
    and "ci_relay_started call \<longleftrightarrow> hm_get (mm_shutdown_senders (rt_media rt)) cid \<noteq> None"
  shows "router_inv lib (rt\<lparr>rt_calls := hm_insert cid call (rt_calls rt)\<rparr>)"
proof -
  obtain s where s: "hm_get (mm_sessions (rt_media rt)) cid = Some s" "call_fits call s" "call_alone lib cid call"
    using assms(2) by (auto simp: call_ok_split)
  have "calls_backed (rt_media rt) ((hm_get (rt_calls rt))(cid := Some call))"
    using assms(1) by (intro sessions.entry_backed [where fits = call_fits and started = ci_relay_started, OF _ s(1,2)]) (simp_all add: router_inv_backed assms(3))
  with assms(1) s(3) show ?thesis by (auto simp: router_inv_backed get_insert_fun)
qed

text \<open>Starting the relay of a call: the flag and the stop channel are set together.\<close>

lemma start_media_relay_inv:
  assumes inv: "router_inv lib rt" and call: "hm_get (rt_calls rt) cid = Some call"
    and keys: "ci_callee_remote_crypto call \<noteq> None"
  shows "router_inv lib (snd (start_media_relay env cid
      (rt\<lparr>rt_calls := hm_insert cid (call\<lparr>ci_relay_started := True\<rparr>) (rt_calls rt)\<rparr>)))"
proof -
  let ?call = "call\<lparr>ci_relay_started := True\<rparr>"
  have "calls_backed (register_shutdown cid (ce_channel env) (rt_media rt)) ((hm_get (rt_calls rt))(cid := Some ?call))"
    using inv call by (intro sessions.watch_backed) (auto simp: router_inv_backed call_fits_def)
  moreover have "call_alone lib cid ?call"
    using inv call keys by (auto simp: router_inv_backed call_alone_def call_keys_def offered_def)
  ultimately show ?thesis
    using inv by (auto simp: router_inv_backed start_media_relay_def get_insert_fun)
qed

section \<open>The handlers keep the invariant\<close>

lemma new_call_ok:
  assumes "extract_body request = Some body" "extract_srtp_crypto_from_sdp (ce_lib env) body = Some (tg, crypto)"
    and "hm_get (mm_sessions mm) cid = Some session"
  shows "call_ok (ce_lib env) mm cid
     (new_call_info env request cid caller_ext callee_ext contact sink sink' tg crypto maddr session)"
  using assms
  by (auto simp: call_ok_def call_keys_def call_ports_def offered_def new_call_info_def srtp_new_def)

lemma new_call_not_started [simp]:
  "ci_relay_started (new_call_info env request cid caller_ext callee_ext contact sink sink' tg crypto maddr session) = False"
  by (simp add: new_call_info_def)

lemma connect_call_inv [inv_intros]:
  assumes inv: "router_inv (ce_lib env) rt" and new: "hm_get (rt_calls rt) cid = None"
    and session: "hm_get (mm_sessions (rt_media rt)) cid = Some session"
    and body: "extract_body request = Some body" "extract_srtp_crypto_from_sdp (ce_lib env) body = Some (tg, crypto)"
  shows "router_inv (ce_lib env) (snd (snd (connect_call cfg env request body cid caller_ext callee_ext
     sink sink' tg crypto session rt)))"
proof -
  have none: "hm_get (mm_shutdown_senders (rt_media rt)) cid = None"
    using router_inv_sender [OF inv, of cid] new by auto
  have "router_inv (ce_lib env) (rt\<lparr>rt_calls := hm_insert cid
      (new_call_info env request cid caller_ext callee_ext contact sink sink' tg crypto maddr session) (rt_calls rt)\<rparr>)"
    for contact maddr
    by (rule insert_call_inv [OF inv new_call_ok [OF body session]]) (simp add: none)
  then show ?thesis using inv
    by (auto simp: connect_call_def Let_def case_prod_beta intro: cleanup_call_inv split: option.split)
qed

lemma reach_callee_inv [inv_intros]:
  assumes inv: "router_inv (ce_lib env) rt" and new: "hm_get (rt_calls rt) cid = None"
  shows "router_inv (ce_lib env) (snd (snd (reach_callee cfg env request cid caller_ext callee_ext sink rt)))"
proof -
  have connect: "router_inv (ce_lib env) (snd (snd (connect_call cfg env request body cid caller_ext callee_ext
      sink sink' tg crypto session (rt\<lparr>rt_media := mm\<rparr>))))"
    if "create_session cid (rt_media rt) = (Some session, mm)" "extract_body request = Some body"
      "extract_srtp_crypto_from_sdp (ce_lib env) body = Some (tg, crypto)"
    for session mm body tg crypto sink'
    by (rule connect_call_inv [OF create_session_inv [OF inv that(1)]])
      (use new that sessions.create_made [OF that(1)] in simp_all)
  show ?thesis
    using inv create_session_inv [OF inv, of cid] connect
    by (simp add: reach_callee_def Let_def split: option.split prod.split)
qed

lemma place_call_inv [inv_intros]:
  assumes "router_inv (ce_lib env) rt"
  shows "router_inv (ce_lib env) (snd (snd (place_call cfg env request caller_ext callee_ext sink rt)))"
  using assms reach_callee_inv [OF cleanup_call_inv [OF assms] cleanup_call_gone]
  by (simp add: place_call_def Let_def case_prod_beta)

lemma handle_invite_inv [inv_intros]:
  assumes "router_inv (ce_lib env) rt"
  shows "router_inv (ce_lib env) (snd (snd (handle_invite cfg env request sink from_addr ext rt)))"
proof -
  have "router_inv (ce_lib env) (snd (snd (refuse_caller cfg env request ip rt)))" for ip
    by (rule router_inv_cong [OF _ _ assms]) (simp_all add: refuse_caller_def)
  with assms place_call_inv [OF assms] show ?thesis
    by (simp add: handle_invite_def Let_def split: option.split)
qed

lemma accept_answer_keeps:
  "ci_call_id (accept_answer lib response call) = ci_call_id call"
  "ci_callee_sink (accept_answer lib response call) = ci_callee_sink call"
  "ci_caller_remote_crypto (accept_answer lib response call) = ci_caller_remote_crypto call"
  "ci_caller_remote_crypto_tag (accept_answer lib response call) = ci_caller_remote_crypto_tag call"
  "ci_caller_local_crypto (accept_answer lib response call) = ci_caller_local_crypto call"
  "ci_callee_local_crypto (accept_answer lib response call) = ci_callee_local_crypto call"
  "ci_callee_local_crypto_gcm (accept_answer lib response call) = ci_callee_local_crypto_gcm call"
  "ci_original_invite (accept_answer lib response call) = ci_original_invite call"
  "ci_caller_relay_port (accept_answer lib response call) = ci_caller_relay_port call"
  "ci_callee_relay_port (accept_answer lib response call) = ci_callee_relay_port call"
  "ci_relay_started (accept_answer lib response call) = ci_relay_started call"
  "ci_caller_sink (accept_answer lib response call) = ci_caller_sink call"
  "ci_callee_remote_crypto call \<noteq> None \<Longrightarrow> ci_callee_remote_crypto (accept_answer lib response call) \<noteq> None"
  "ci_state (accept_answer lib response call) = Established \<Longrightarrow>
     ci_callee_remote_crypto (accept_answer lib response call) \<noteq> None"
  by (auto simp: accept_answer_def split: option.splits if_splits prod.splits)

lemma learn_callee_tag_eq:
  assumes "learn_callee_tag response call = Some call'"
  obtains t where "call' = call\<lparr>ci_callee_tag := t\<rparr>"
proof (cases "ci_callee_tag call = None")
  case False
  then have "call' = call\<lparr>ci_callee_tag := ci_callee_tag call\<rparr>" using assms by (auto simp: learn_callee_tag_def)
  then show ?thesis by (rule that)
qed (use assms that in \<open>auto simp: learn_callee_tag_def\<close>)

lemma accept_answer_ok:
  assumes "call_ok lib mm cid call"
  shows "call_ok lib mm cid (accept_answer lib' response call)"
  using assms accept_answer_keeps(13,14) [where lib = lib' and response = response and call = call]
  by (auto simp: call_ok_def call_keys_def call_ports_def offered_def accept_answer_keeps(1-12))

lemma update_call_ok:
  assumes "update_call lib' status response call = Some call'" "call_ok lib mm cid call"
  shows "call_ok lib mm cid call'" "ci_relay_started call' = ci_relay_started call"
proof -
  have l: "\<exists>t. call1 = call\<lparr>ci_callee_tag := t\<rparr>" if "learn_callee_tag response call = Some call1" for call1
    using learn_callee_tag_eq [OF that] by blast
  have l2: "\<exists>t. call1 = call\<lparr>ci_state := Call_Ringing, ci_callee_tag := t\<rparr>"
    if "learn_callee_tag response (call\<lparr>ci_state := Call_Ringing\<rparr>) = Some call1" for call1
    using learn_callee_tag_eq [OF that] by blast
  have keep: "call_ok lib mm cid (call\<lparr>ci_callee_tag := t, ci_callee_remote_contact := c\<rparr>)"
    "call_ok lib mm cid (call\<lparr>ci_callee_tag := t\<rparr>)"
    "call_ok lib mm cid (call\<lparr>ci_state := Call_Terminated\<rparr>)"
    "call_ok lib mm cid (call\<lparr>ci_state := Call_Ringing, ci_callee_tag := t\<rparr>)" for c t
    using assms(2) by (auto simp: call_ok_def call_keys_def call_ports_def offered_def)
  show "call_ok lib mm cid call'"
    using assms keep accept_answer_ok [OF keep(1)] accept_answer_ok [OF keep(2)]
    by (auto simp: update_call_def dest!: l l2 split: if_splits option.splits)
  show "ci_relay_started call' = ci_relay_started call"
    using assms(1)
    by (auto simp: update_call_def accept_answer_keeps dest!: l l2 split: if_splits option.splits)
qed

lemma after_forwarding_inv [inv_intros]:
  assumes "router_inv lib rt"
  shows "router_inv lib (snd (after_forwarding env status cid rt))"
  using assms cleanup_call_inv [OF assms] start_media_relay_inv [OF assms]
  by (simp add: after_forwarding_def split: option.split)

lemma forward_response_inv [inv_intros]:
  assumes "router_inv lib rt"
  shows "router_inv lib (snd (snd (forward_response cfg env status response cid call rt)))"
  using after_forwarding_inv [OF assms] cleanup_call_inv [OF assms]
  by (simp add: forward_response_def Let_def case_prod_beta split: option.split)

lemma updated_call_inv:
  assumes inv: "router_inv lib rt"
    and "hm_get (rt_calls rt) cid = Some call" "update_call lib' status response call = Some call'"
  shows "router_inv lib (rt\<lparr>rt_calls := hm_insert cid call' (rt_calls rt)\<rparr>)"
proof (rule insert_call_inv [OF inv])
  show "call_ok lib (rt_media rt) cid call'"
    by (rule update_call_ok [OF assms(3) router_inv_call [OF inv assms(2)]])
  show "ci_relay_started call' \<longleftrightarrow> hm_get (mm_shutdown_senders (rt_media rt)) cid \<noteq> None"
    using router_inv_sender [OF inv, of cid] assms(2)
      update_call_ok(2) [OF assms(3) router_inv_call [OF inv assms(2)]] by simp
qed

lemma handle_callee_response_inv [inv_intros]:
  assumes inv: "router_inv lib rt"
  shows "router_inv lib (snd (snd (handle_callee_response cfg env response rt)))"
proof -
  note upd = updated_call_inv [OF inv]
  have pois: "router_inv lib (rt\<lparr>rt_poisoned := True\<rparr>)"
    by (rule router_inv_cong [OF _ _ inv]) simp_all
  show ?thesis
    using inv pois cleanup_call_inv [OF upd] forward_response_inv [OF upd]
    by (simp add: handle_callee_response_def Let_def case_prod_beta split: option.split)
qed

lemma handle_ack_state: "snd (snd (handle_ack cfg env request rt)) = rt"
  by (simp add: handle_ack_def split: option.split)

definition bye_sends ::
  "router_config \<Rightarrow> call_env \<Rightarrow> string \<Rightarrow> string \<Rightarrow> string \<Rightarrow> call_info \<Rightarrow> router \<Rightarrow> call_effect list" where
  "bye_sends cfg env request tag from_ext call rt =
     (case bye_target cfg (ce_now env) tag from_ext call rt of
        (other_sink, target) \<Rightarrow>
          (case other_sink of Some sink \<Rightarrow> [forward_in_dialog cfg env request target sink] | None \<Rightarrow> []))"

lemma handle_bye_cases:
  obtains (refused) "handle_bye cfg env request from_ext rt = no_call env request rt"
  | (panic) "rt_poisoned rt \<or> from_tag_of request = None" "handle_bye cfg env request from_ext rt = (None, [], rt)"
  | (ended) cid call tag where "extract_call_id request = Some cid" "hm_get (rt_calls rt) cid = Some call"
    "from_tag_of request = Some tag" "bye_from_caller_side tag from_ext call \<or> bye_from_callee_side tag from_ext call"
    "handle_bye cfg env request from_ext rt =
       (Some (build_response request 200 ''OK'' (ce_tag env)),
        bye_sends cfg env request tag from_ext call rt @ fst (cleanup_call cid rt), snd (cleanup_call cid rt))"
proof (cases "extract_call_id request")
  case None
  then show ?thesis using refused by (simp add: handle_bye_def)
next
  case cid: (Some cid)
  show ?thesis
  proof (cases "rt_poisoned rt \<or> from_tag_of request = None")
    case True
    then show ?thesis using panic cid by (auto simp: handle_bye_def split: option.split)
  next
    case False
    then obtain tag where ok: "\<not> rt_poisoned rt" "from_tag_of request = Some tag" by blast
    show ?thesis
    proof (cases "hm_get (rt_calls rt) cid")
      case None
      then show ?thesis using refused cid ok by (simp add: handle_bye_def)
    next
      case (Some call)
      show ?thesis
      proof (cases "bye_from_caller_side tag from_ext call \<or> bye_from_callee_side tag from_ext call")
        case True
        then show ?thesis using ended [OF cid Some ok(2)] cid ok Some
          by (auto simp: handle_bye_def case_prod_beta bye_sends_def)
      next
        case False
        then show ?thesis using refused cid ok Some by (simp add: handle_bye_def)
      qed
    qed
  qed
qed

definition cancel_sends :: "router_config \<Rightarrow> call_env \<Rightarrow> string \<Rightarrow> call_info \<Rightarrow> router \<Rightarrow> call_effect list" where
  "cancel_sends cfg env request call rt =
     (case ci_callee_sink call of
        None \<Rightarrow> []
      | Some sink \<Rightarrow>
          [forward_in_dialog cfg env request
             (remote_target cfg (ce_now env) (ci_callee_remote_contact call) (ci_callee_ext call) rt) sink,
           Send_Text (ci_caller_sink call)
             (build_response (ci_original_invite call) 487 ''Request Terminated'' (ce_tag2 env))])"

definition terminated :: "string \<Rightarrow> call_info \<Rightarrow> router \<Rightarrow> router" where
  "terminated cid call rt =
     rt\<lparr>rt_calls := hm_insert cid (call\<lparr>ci_state := Call_Terminated\<rparr>) (rt_calls rt)\<rparr>"

lemma handle_cancel_cases:
  obtains (refused) "handle_cancel cfg env request rt = no_call env request rt"
  | (panic) "rt_poisoned rt" "handle_cancel cfg env request rt = (None, [], rt)"
  | (poisons) "from_tag_of request = None" "handle_cancel cfg env request rt = (None, [], rt\<lparr>rt_poisoned := True\<rparr>)"
  | (ended) cid call where "extract_call_id request = Some cid" "hm_get (rt_calls rt) cid = Some call"
    "ci_caller_tag call \<noteq> []" "from_tag_of request = Some (ci_caller_tag call)"
    "handle_cancel cfg env request rt =
       (Some (build_response request 200 ''OK'' (ce_tag env)),
        cancel_sends cfg env request call rt @ fst (cleanup_call cid (terminated cid call rt)),
        snd (cleanup_call cid (terminated cid call rt)))"
proof (cases "extract_call_id request")
  case None
  then show ?thesis using refused by (simp add: handle_cancel_def)
next
  case cid: (Some cid)
  show ?thesis
  proof (cases "rt_poisoned rt")
    case True
    then show ?thesis using panic cid by (simp add: handle_cancel_def)
  next
    case ok: False
    show ?thesis
    proof (cases "hm_get (rt_calls rt) cid")
      case None
      then show ?thesis using refused cid ok by (simp add: handle_cancel_def)
    next
      case (Some call)
      show ?thesis
      proof (cases "from_tag_of request")
        case None
        then show ?thesis using poisons cid ok Some by (simp add: handle_cancel_def)
      next
        case tag: (Some tag)
        show ?thesis
        proof (cases "tag = [] \<or> tag \<noteq> ci_caller_tag call")
          case True
          then show ?thesis using refused cid ok Some tag by (simp add: handle_cancel_def)
        next
          case False
          then show ?thesis using ended [OF cid Some] cid ok Some tag
            by (auto simp: handle_cancel_def Let_def case_prod_beta cancel_sends_def terminated_def
                remote_target_def split: option.split)
        qed
      qed
    qed
  qed
qed

lemma terminated_inv:
  assumes "router_inv lib rt" "hm_get (rt_calls rt) cid = Some call"
  shows "router_inv lib (terminated cid call rt)"
  unfolding terminated_def
proof (rule insert_call_inv [OF assms(1)])
  show "call_ok lib (rt_media rt) cid (call\<lparr>ci_state := Call_Terminated\<rparr>)"
    using router_inv_call [OF assms] by (auto simp: call_ok_def call_keys_def call_ports_def offered_def)
  show "ci_relay_started (call\<lparr>ci_state := Call_Terminated\<rparr>) \<longleftrightarrow>
      hm_get (mm_shutdown_senders (rt_media rt)) cid \<noteq> None"
    using router_inv_sender [OF assms(1), of cid] assms(2) by simp
qed

lemma no_call_state [simp]: "snd (snd (no_call env request rt)) = rt" "fst (snd (no_call env request rt)) = []"
  by (simp_all add: no_call_def)

lemma handle_bye_inv [inv_intros]:
  assumes "router_inv lib rt"
  shows "router_inv lib (snd (snd (handle_bye cfg env request from_ext rt)))"
  by (cases rule: handle_bye_cases [of cfg env request from_ext rt]) (simp_all add: assms cleanup_call_inv)

lemma handle_cancel_inv [inv_intros]:
  assumes "router_inv lib rt"
  shows "router_inv lib (snd (snd (handle_cancel cfg env request rt)))"
proof (cases rule: handle_cancel_cases [of cfg env request rt])
  case (ended cid call)
  then show ?thesis using cleanup_call_inv [OF terminated_inv [OF assms ended(2)]] by simp
next
  case poisons
  moreover have "router_inv lib (rt\<lparr>rt_poisoned := True\<rparr>)" by (rule router_inv_cong [OF _ _ assms]) simp_all
  ultimately show ?thesis by simp
qed (simp_all add: assms)

lemma router_step_inv:
  assumes "router_step cfg lib rt effs rt'" "router_inv lib rt"
  shows "router_inv lib rt'"
  using assms
proof (induction rule: router_step.induct)
  case (invite env request sink from_addr ext rt r effs rt')
  then show ?case using handle_invite_inv [of env rt cfg request sink from_addr ext] by simp
next
  case (response env request rt u effs rt')
  then show ?case using handle_callee_response_inv [of lib rt cfg env request] by simp
next
  case (ack env request rt u effs rt')
  then show ?case using handle_ack_state [of cfg env request rt] by simp
next
  case (bye env request from_ext rt r effs rt')
  then show ?case using handle_bye_inv [of lib rt cfg env request from_ext] by simp
next
  case (cancel env request rt r effs rt')
  then show ?case using handle_cancel_inv [of lib rt cfg env request] by simp
qed (simp_all add: register_writer_def unregister_writer_def router_inv_def)

lemma router_reach_inv: "router_reach cfg lib rt \<Longrightarrow> router_inv lib rt"
  by (induction rule: router_reach.induct) (auto intro: router_inv_new router_step_inv)

section \<open>Who can set up and end a call\<close>

lemma cleanup_effects:
  "Start_Relay a b c d e \<notin> set (fst (cleanup_call cid rt))" "Send_Text s t \<notin> set (fst (cleanup_call cid rt))"
  by (auto simp: cleanup_call_def remove_session_def stop_effects_def split: option.splits)

lemma connect_call_effects:
  "Start_Relay a b c d e \<notin> set (fst (snd (connect_call cfg env request body cid caller callee sink sink' tg crypto session rt)))"
  "Send_Text s t \<in> set (fst (snd (connect_call cfg env request body cid caller callee sink sink' tg crypto session rt))) \<Longrightarrow> s = sink'"
  using cleanup_effects by (auto simp: connect_call_def Let_def case_prod_beta split: option.splits if_splits)

lemma reach_callee_effects:
  "Start_Relay a b c d e \<notin> set (fst (snd (reach_callee cfg env request cid caller callee sink rt)))"
  "Send_Text s t \<in> set (fst (snd (reach_callee cfg env request cid caller callee sink rt))) \<Longrightarrow>
     is_registered (ce_now env) callee (rt_registrar rt) \<and> call_outbound cfg (ce_now env) callee rt = Some s"
  by (auto simp: reach_callee_def Let_def connect_call_effects(1) dest!: connect_call_effects(2)
      split: option.splits if_splits prod.splits)

lemma call_outbound_cleanup [simp]:
  "call_outbound cfg now ext (snd (cleanup_call cid rt)) = call_outbound cfg now ext rt"
  by (simp add: call_outbound_def cong: if_cong option.case_cong)

lemma place_call_effects:
  "Start_Relay a b c d e \<notin> set (fst (snd (place_call cfg env request caller callee sink rt)))"
  "Send_Text s t \<in> set (fst (snd (place_call cfg env request caller callee sink rt))) \<Longrightarrow>
     is_registered (ce_now env) callee (rt_registrar rt) \<and> call_outbound cfg (ce_now env) callee rt = Some s"
proof -
  let ?cid = "case extract_call_id request of Some i \<Rightarrow> i | None \<Rightarrow> []"
  note r = reach_callee_effects [where rt = "snd (cleanup_call ?cid rt)" and cid = ?cid]
  show "Start_Relay a b c d e \<notin> set (fst (snd (place_call cfg env request caller callee sink rt)))"
    using r(1) cleanup_effects(1) by (simp add: place_call_def Let_def case_prod_beta)
  show "Send_Text s t \<in> set (fst (snd (place_call cfg env request caller callee sink rt))) \<Longrightarrow>
     is_registered (ce_now env) callee (rt_registrar rt) \<and> call_outbound cfg (ce_now env) callee rt = Some s"
    using r(2) cleanup_effects(2) by (auto simp: place_call_def Let_def case_prod_beta split: if_splits)
qed

lemma handle_invite_cases:
  obtains (refused) "rt_calls (snd (snd (handle_invite cfg env request sink from_addr ext rt))) = rt_calls rt"
    "fst (snd (handle_invite cfg env request sink from_addr ext rt)) = []"
    "fst (handle_invite cfg env request sink from_addr ext rt) \<in>
       {None, Some (build_response request 403 ''Forbidden'' (ce_tag env))}"
  | (placed) caller callee where "\<not> is_blocked (rc_reg cfg) (ip_text from_addr) (rt_registrar rt)"
    "caller_extension request = Some caller" "caller \<noteq> []"
    "is_registered (ce_now env) caller (rt_registrar rt)"
    "connection_may_call (ce_now env) caller sink from_addr ext (rt_registrar rt)"
    "extract_called_extension request = Some callee"
    "handle_invite cfg env request sink from_addr ext rt =
       place_call cfg env request caller (case callee of Some c \<Rightarrow> c | None \<Rightarrow> []) sink rt"
proof (cases "is_blocked (rc_reg cfg) (ip_text from_addr) (rt_registrar rt)")
  case True
  then show ?thesis using refused by (simp add: handle_invite_def)
next
  case nb: False
  consider (panic) "caller_extension request = None \<or> extract_called_extension request = None"
    | (both) caller callee where "caller_extension request = Some caller" "extract_called_extension request = Some callee"
    by (cases "caller_extension request"; cases "extract_called_extension request") auto
  then show ?thesis
  proof cases
    case panic
    then have "handle_invite cfg env request sink from_addr ext rt = (None, [], rt)"
      using nb by (cases "caller_extension request") (auto simp: handle_invite_def Let_def)
    then show ?thesis using refused by simp
  next
    case (both caller callee)
    show ?thesis
    proof (cases "caller \<noteq> [] \<and> is_registered (ce_now env) caller (rt_registrar rt) \<and>
        connection_may_call (ce_now env) caller sink from_addr ext (rt_registrar rt)")
      case True
      then show ?thesis using placed [OF nb both(1) _ _ _ both(2)] nb both by (simp add: handle_invite_def Let_def)
    next
      case False
      then have "handle_invite cfg env request sink from_addr ext rt = refuse_caller cfg env request (ip_text from_addr) rt"
        using nb both by (auto simp: handle_invite_def Let_def)
      then show ?thesis using refused by (simp add: refuse_caller_def)
    qed
  qed
qed

end
