(* ===== verification/Call_Example.thy ===== *)
theory Call_Example
  imports Calls
begin

text \<open>
  A call from beginning to answer, run through the definitions: two extensions sign on over TLS,
  the first calls the second, and the second answers. It shows that the hypotheses on the
  states of calls can hold.
\<close>

definition ex_sip_register :: "string \<Rightarrow> string list \<Rightarrow> string" where
  "ex_sip_register ext auth = unlines
     ([''REGISTER sip:pbx SIP/2.0'', ''Via: SIP/2.0/TLS 10.0.0.7;branch=z9hG4bK1'',
       ''From: <sip:'' @ ext @ ''@pbx>;tag=1'', ''To: <sip:'' @ ext @ ''@pbx>'', ''Call-ID: r1'', ''CSeq: 1 REGISTER'',
       ''Contact: <sip:'' @ ext @ ''@10.0.0.7:5060>'', ''Expires: 600''] @ auth) @ CRLF"

definition ex_sip_auth :: "string \<Rightarrow> string \<Rightarrow> string" where
  "ex_sip_auth ext nonce = ''Authorization: Digest username='' @ [DQ] @ ext @ [DQ] @ '', realm='' @ [DQ] @ ''pbx'' @ [DQ]
     @ '', nonce='' @ [DQ] @ nonce @ [DQ] @ '', uri='' @ [DQ] @ ''sip:pbx'' @ [DQ] @ '', response='' @ [DQ] @ ''3331'' @ [DQ]
     @ '', qop=auth, nc=00000001, cnonce='' @ [DQ] @ ''c'' @ [DQ]"

definition ex_signs_on :: "string \<Rightarrow> string \<Rightarrow> string \<Rightarrow> registrar \<Rightarrow> registrar" where
  "ex_signs_on ext seed nonce st =
     (let env = ex_env\<lparr>env_nonce_bytes := seed\<rparr>;
          st1 = snd (handle_register ex_reg_cfg env (ex_sip_register ext []) ex_peer Tls st)
      in snd (handle_register ex_reg_cfg env (ex_sip_register ext [ex_sip_auth ext nonce]) ex_peer Tls st1))"

definition ex_signed_on :: registrar where
  "ex_signed_on = ex_signs_on ''1002'' ''cd'' ''6364'' (ex_signs_on ''1001'' ''ab'' ''6162'' registrar_new)"

definition ex_key :: string where "ex_key = replicate 60 (CHR ''A'')"

definition ex_sip_sdp :: "string \<Rightarrow> string" where
  "ex_sip_sdp ip = unlines [''v=0'', ''c=IN IP4 '' @ ip, ''m=audio 4000 RTP/SAVP 0'',
     ''a=crypto:1 AES_CM_128_HMAC_SHA1_80 inline:'' @ ex_key]"

definition ex_call_invite :: string where
  "ex_call_invite = unlines
     [''INVITE sip:1002@pbx SIP/2.0'', ''Via: SIP/2.0/TLS 10.0.0.7:5060;branch=z9hG4bKa1'',
      ''From: <sip:1001@pbx>;tag=77'', ''To: <sip:1002@pbx>'', ''Call-ID: c-1'',
      ''CSeq: 1 INVITE'', ''Contact: <sip:1001@10.0.0.7:5060>'', ''Content-Type: application/sdp''] @ CRLF @ ex_sip_sdp ''10.0.0.7''"

definition ex_answer :: "string \<Rightarrow> string" where
  "ex_answer contact = unlines
     [''SIP/2.0 200 OK'', ''Via: SIP/2.0/TLS 9.9.9.9:5061;branch=z9hG4bKb1'',
      ''From: <sip:1001@pbx>;tag=77'', ''To: <sip:1002@pbx>;tag=88'', ''Call-ID: c-1'',
      ''CSeq: 1 INVITE'', ''Contact: '' @ contact, ''Content-Type: application/sdp''] @ CRLF @ ex_sip_sdp ''10.0.0.8''"

definition ex_router_cfg :: router_config where
  "ex_router_cfg = \<lparr>rc_domain = ''pbx'', rc_media_addr = ''9.9.9.9'', rc_udp_socket = True, rc_reg = ex_reg_cfg\<rparr>"

definition ex_call_env :: call_env where
  "ex_call_env = \<lparr>ce_now = 1000, ce_tag = ''t1'', ce_tag2 = ''t2'', ce_branch = ''z9hG4bKb1'',
     ce_rnd = (\<lambda>i j. of_nat (40 * i + j)), ce_channel = 5, ce_lib = ex_lib, ce_send = (\<lambda>s m. True)\<rparr>"

definition ex_ready :: router where
  "ex_ready = register_writer ''1002'' (Stream 2) (register_writer ''1001'' (Stream 1)
     ((router_new registrar_new (manager_new 20000 20100 ''0.0.0.0''))\<lparr>rt_registrar := ex_signed_on\<rparr>))"

section \<open>What the messages say\<close>

lemma ex_signed_on_facts:
  "let st = ex_signed_on in is_registered 1000 ''1001'' st \<and> is_registered 1000 ''1002'' st \<and>
     \<not> is_blocked ex_reg_cfg ''10.0.0.7'' st"
  by code_simp

lemma ex_invite_fields:
  "caller_extension ex_call_invite = Some ''1001''"
  "extract_called_extension ex_call_invite = Some (Some ''1002'')"
  "extract_call_id ex_call_invite = Some ''c-1''" "from_tag_of ex_call_invite = Some ''77''"
  "extract_contact_uri ex_call_invite = Some (Some ''sip:1001@10.0.0.7:5060'')"
  "extract_body ex_call_invite = Some (ex_sip_sdp ''10.0.0.7'')"
  by code_simp+

lemma ex_answer_fields:
  "extract_call_id (ex_answer ''<sip:1002@10.0.0.8>'') = Some ''c-1''"
  "extract_status_code (ex_answer ''<sip:1002@10.0.0.8>'') = Some 200"
  "extract_to_tag (ex_answer ''<sip:1002@10.0.0.8>'') = Some (Some ''88'')"
  "extract_contact_uri (ex_answer ''<sip:1002@10.0.0.8>'') = Some (Some ''sip:1002@10.0.0.8'')"
  "extract_body (ex_answer ''<sip:1002@10.0.0.8>'') = Some (ex_sip_sdp ''10.0.0.8'')"
  by code_simp+

lemma ex_sdp_addr:
  "extract_audio_media_addr_from_sdp (ex_sip_sdp ''10.0.0.7'') = Some \<lparr>ip_text = ''10.0.0.7'', is_v6 = False, port = 4000\<rparr>"
  "extract_audio_media_addr_from_sdp (ex_sip_sdp ''10.0.0.8'') = Some \<lparr>ip_text = ''10.0.0.8'', is_v6 = False, port = 4000\<rparr>"
  by code_simp+

definition ex_peer_context :: srtp_context where
  "ex_peer_context = with_keys ex_lib AesCm128HmacSha180 (replicate 16 0) (replicate 14 0)"

lemma ex_sdp_key:
  "extract_srtp_crypto_from_sdp ex_lib (ex_sip_sdp ''10.0.0.7'') = Some (1, ex_peer_context)"
  "extract_srtp_crypto_from_sdp ex_lib (ex_sip_sdp ''10.0.0.8'') = Some (1, ex_peer_context)"
  by code_simp+

section \<open>The states\<close>

definition ex_session :: relay_session where
  "ex_session = \<lparr>rs_session_id = ''c-1'', rs_caller_port = 20000, rs_callee_port = 20002,
     rs_caller_addr = None, rs_callee_addr = None\<rparr>"

definition ex_call :: call_info where
  "ex_call = new_call_info ex_call_env ex_call_invite ''c-1'' ''1001'' ''1002'' (Some ''sip:1001@10.0.0.7:5060'')
     (Stream 1) (Stream 2) 1 ex_peer_context (Some \<lparr>ip_text = ''10.0.0.7'', is_v6 = False, port = 4000\<rparr>) ex_session"

definition ex_ringing :: router where
  "ex_ringing = ex_ready\<lparr>rt_media := snd (create_session ''c-1'' (rt_media ex_ready)),
     rt_calls := hm_insert ''c-1'' ex_call hm_empty\<rparr>"

definition ex_answered :: call_info where
  "ex_answered = ex_call\<lparr>ci_callee_tag := Some ''88'', ci_callee_remote_contact := Some ''sip:1002@10.0.0.8'',
     ci_callee_remote_crypto := Some ex_peer_context,
     ci_callee_media_addr := Some \<lparr>ip_text = ''10.0.0.8'', is_v6 = False, port = 4000\<rparr>,
     ci_state := Established, ci_relay_started := True\<rparr>"

definition ex_talking :: router where
  "ex_talking = ex_ringing\<lparr>rt_calls := hm_insert ''c-1'' ex_answered hm_empty,
     rt_media := register_shutdown ''c-1'' 5 (rt_media ex_ringing)\<rparr>"

lemma ex_create_session:
  "fst (create_session ''c-1'' (rt_media ex_ready)) = Some ex_session"
  by (simp add: ex_ready_def register_writer_def router_new_def) code_simp

lemma ex_ready_fields:
  "rt_calls ex_ready = hm_empty" "\<not> rt_poisoned ex_ready" "rt_registrar ex_ready = ex_signed_on"
  "call_outbound ex_router_cfg now ''1002'' ex_ready = Some (Stream 2)"
  by (simp_all add: ex_ready_def register_writer_def router_new_def call_outbound_def)

lemma ex_env_fields:
  "ce_now ex_call_env = 1000" "ce_lib ex_call_env = ex_lib" "ce_send ex_call_env s m"
  "ce_channel ex_call_env = 5" "ce_tag ex_call_env = ''t1''" "rc_reg ex_router_cfg = ex_reg_cfg"
  by (simp_all add: ex_call_env_def ex_router_cfg_def)

lemma ex_connection: "connection_may_call now ''1001'' sink addr (Some ''1001'') reg"
  by (simp add: connection_may_call_def)

lemma ex_rings:
  "\<exists>invite. handle_invite ex_router_cfg ex_call_env ex_call_invite (Stream 1) ex_peer (Some ''1001'') ex_ready =
     (Some (build_response ex_call_invite 100 ''Trying'' ''t1''), [Send_Text (Stream 2) invite], ex_ringing)"
proof -
  have on: "is_registered 1000 ''1001'' ex_signed_on" "is_registered 1000 ''1002'' ex_signed_on"
     "\<not> is_blocked ex_reg_cfg ''10.0.0.7'' ex_signed_on"
    using ex_signed_on_facts by (simp_all add: Let_def)
  obtain mm where mm: "create_session ''c-1'' (rt_media ex_ready) = (Some ex_session, mm)"
    using ex_create_session by (cases "create_session ''c-1'' (rt_media ex_ready)") simp
  have clean: "cleanup_call ''c-1'' ex_ready = ([], ex_ready)" by (simp add: cleanup_call_def ex_ready_fields)
  have peer: "ip_text ex_peer = ''10.0.0.7''" by (simp add: ex_peer_def)
  show ?thesis
    by (simp add: handle_invite_def place_call_def reach_callee_def connect_call_def Let_def ex_ready_fields
        ex_env_fields ex_invite_fields ex_connection on clean mm peer ex_sdp_key ex_sdp_addr ex_ringing_def
        ex_call_def)
qed

lemma ex_update:
  "update_call ex_lib 200 (ex_answer ''<sip:1002@10.0.0.8>'') ex_call = Some (ex_answered\<lparr>ci_relay_started := False\<rparr>)"
proof -
  have c: "ci_callee_tag ex_call = None" "ci_callee_remote_contact ex_call = None" "ci_relay_started ex_call = False"
    by (simp_all add: ex_call_def new_call_info_def)
  have s: "sc_suite ex_peer_context = AesCm128HmacSha180" by (simp add: ex_peer_context_def)
  show ?thesis
    by (simp add: update_call_def learn_callee_tag_def c ex_answer_fields accept_answer_def ex_sdp_key ex_sdp_addr
        callee_answer_crypto_is_offered_def s ex_answered_def)
qed

lemma hm_insert_twice: "hm_insert k v (hm_insert k w m) = hm_insert k v m"
proof -
  have "AList.update k v (AList.update k w xs) = AList.update k v xs" for xs by (induction xs) auto
  then have "hm_entries (hm_insert k v (hm_insert k w m)) = hm_entries (hm_insert k v m)"
    by (simp add: hm_entries_insert)
  then show ?thesis by (simp add: hm_entries_def DAList.impl_of_inject)
qed

lemma ex_answers:
  "\<exists>m. handle_callee_response ex_router_cfg ex_call_env (ex_answer ''<sip:1002@10.0.0.8>'') ex_ringing =
     (Some (), [Send_Text (Stream 1) m, Start_Relay ''c-1'' 20000 20002 (relay_contexts ex_answered) 5], ex_talking)"
proof -
  let ?c = "ex_answered\<lparr>ci_relay_started := False\<rparr>"
  have r: "rt_calls ex_ringing = hm_insert ''c-1'' ex_call hm_empty" "\<not> rt_poisoned ex_ringing"
    by (simp_all add: ex_ringing_def ex_ready_fields)
  have c: "ci_callee_remote_crypto ex_answered = Some ex_peer_context" "ci_caller_sink ex_answered = Stream 1"
    "ci_caller_relay_port ex_answered = 20000" "ci_callee_relay_port ex_answered = 20002"
    "\<exists>k. ci_caller_local_crypto ex_answered = Some k" "ci_relay_started ex_answered = True"
    by (simp_all add: ex_answered_def ex_call_def new_call_info_def ex_session_def)
  obtain k where k: "ci_caller_local_crypto ex_answered = Some k" using c(5) ..
  have upd: "?c\<lparr>ci_relay_started := True\<rparr> = ex_answered" by (simp add: ex_answered_def)
  show ?thesis
    by (simp add: handle_callee_response_def ex_answer_fields r ex_env_fields ex_update Let_def c forward_response_def
        k after_forwarding_def start_media_relay_def upd ex_talking_def hm_insert_twice)
qed

section \<open>They are reachable\<close>

lemma ex_reach_ready: "router_reach ex_router_cfg ex_lib ex_ready"
proof -
  let ?rt = "\<lambda>reg. (router_new registrar_new (manager_new 20000 20100 ''0.0.0.0''))\<lparr>rt_registrar := reg\<rparr>"
  have "?rt registrar_new = router_new registrar_new (manager_new 20000 20100 ''0.0.0.0'')"
    by (simp add: router_new_def)
  then have "router_reach ex_router_cfg ex_lib (?rt registrar_new)" by (metis router_reach.start)
  moreover have "router_reach ex_router_cfg ex_lib (?rt (ex_signs_on ext seed nonce reg))"
    if "router_reach ex_router_cfg ex_lib (?rt reg)" for ext seed nonce reg
  proof -
    have "router_reach ex_router_cfg ex_lib (?rt (snd (handle_register ex_reg_cfg env req peer tp reg)))"
      if "router_reach ex_router_cfg ex_lib (?rt reg)" for env req peer tp reg
      using router_reach.step [OF that router_step.registrar [OF reg_step.handle]] by (simp add: ex_router_cfg_def)
    with that show ?thesis by (simp add: ex_signs_on_def Let_def)
  qed
  ultimately have "router_reach ex_router_cfg ex_lib (?rt ex_signed_on)" by (simp add: ex_signed_on_def)
  then show ?thesis unfolding ex_ready_def by (intro router_reach.step [OF _ router_step.writer])
qed

lemma ex_step_ringing: "\<exists>effs. router_step ex_router_cfg ex_lib ex_ready effs ex_ringing"
  using ex_rings router_step.invite [OF ex_env_fields(2)] by metis

lemma ex_reach_ringing: "router_reach ex_router_cfg ex_lib ex_ringing"
  using ex_step_ringing router_reach.step [OF ex_reach_ready] by blast

lemma ex_step_talking:
  "\<exists>m. router_step ex_router_cfg ex_lib ex_ringing
     [Send_Text (Stream 1) m, Start_Relay ''c-1'' 20000 20002 (relay_contexts ex_answered) 5] ex_talking"
  using ex_answers router_step.response [OF ex_env_fields(2)] by metis

lemma ex_reach_talking: "router_reach ex_router_cfg ex_lib ex_talking"
  using ex_step_talking router_reach.step [OF ex_reach_ringing] by blast

lemma ex_talking_fields:
  "hm_get (rt_calls ex_talking) ''c-1'' = Some ex_answered" "\<not> rt_poisoned ex_talking"
  "rt_registrar ex_talking = ex_signed_on" "ci_relay_started ex_answered"
  "ci_caller_tag ex_answered = ''77''" "ci_callee_tag ex_answered = Some ''88''"
  by (simp_all add: ex_talking_def ex_ringing_def ex_ready_fields ex_answered_def ex_call_def new_call_info_def ex_invite_fields)

end
