(* ===== verification/Call_Relays.thy ===== *)
theory Call_Relays
  imports Call_Example
begin

text \<open>
  The relays that run. A handler of \<open>src/sip/router.rs\<close> only starts a relay task and keeps the
  sender of its stop channel; the tasks themselves live on their own. Followed through the
  effects of a history, the running relays are exactly those of the answered calls: none is
  forgotten, stopped early or left behind.
\<close>

section \<open>The running relays of a history\<close>

text \<open>A relay is known by its stop channel.\<close>

fun relay_effect :: "call_effect \<Rightarrow> nat set \<Rightarrow> nat set" where
  "relay_effect (Send_Text sink m) running = running"
| "relay_effect (Start_Relay cid p q st ch) running = insert ch running"
| "relay_effect (Stop_Relay ch) running = running - {ch}"

definition run_effects :: "call_effect list \<Rightarrow> nat set \<Rightarrow> nat set" where
  "run_effects effs running = fold relay_effect effs running"

text \<open>The channel a relay is started with is a new one.\<close>

definition fresh_channels :: "call_effect list \<Rightarrow> nat set \<Rightarrow> bool" where
  "fresh_channels effs running \<longleftrightarrow>
     (\<forall>cid p q st ch. Start_Relay cid p q st ch \<in> set effs \<longrightarrow> ch \<notin> running)"

inductive relay_history :: "router_config \<Rightarrow> crypto_lib \<Rightarrow> nat set \<Rightarrow> router \<Rightarrow> bool" for cfg lib where
  start: "relay_history cfg lib {} (router_new registrar_new (manager_new port_start port_end addr))"
| step: "relay_history cfg lib running rt \<Longrightarrow> router_step cfg lib rt effs rt' \<Longrightarrow>
     fresh_channels effs running \<Longrightarrow> relay_history cfg lib (run_effects effs running) rt'"

lemma relay_history_reach: "relay_history cfg lib running rt \<Longrightarrow> router_reach cfg lib rt"
  by (induction rule: relay_history.induct) (auto intro: router_reach.intros)

section \<open>Effects and stop channels\<close>

abbreviation senders :: "router \<Rightarrow> (string, nat) hashmap" where
  "senders rt \<equiv> mm_shutdown_senders (rt_media rt)"

definition tracked :: "nat set \<Rightarrow> router \<Rightarrow> bool" where
  "tracked running rt \<longleftrightarrow>
     (\<forall>ch. ch \<in> running \<longleftrightarrow> (\<exists>cid. hm_get (senders rt) cid = Some ch)) \<and>
     (\<forall>i j ch. hm_get (senders rt) i = Some ch \<longrightarrow> hm_get (senders rt) j = Some ch \<longrightarrow> i = j)"

text \<open>An operation whose effects tell the truth about the stop channels.\<close>

definition tracks :: "router \<Rightarrow> call_effect list \<Rightarrow> router \<Rightarrow> bool" where
  "tracks rt effs rt' \<longleftrightarrow>
     (\<forall>running. tracked running rt \<longrightarrow> fresh_channels effs running \<longrightarrow> tracked (run_effects effs running) rt')"

lemma run_effects_simps [simp]:
  "run_effects [] running = running"
  "run_effects (e # effs) running = run_effects effs (relay_effect e running)"
  "run_effects (effs @ effs') running = run_effects effs' (run_effects effs running)"
  by (simp_all add: run_effects_def)

lemma tracks_same: "senders rt' = senders rt \<Longrightarrow> tracks rt [] rt'"
  by (simp add: tracks_def tracked_def)

lemma tracks_send: "tracks rt effs rt' \<Longrightarrow> tracks rt (Send_Text sink m # effs) rt'"
  by (simp add: tracks_def fresh_channels_def)

text \<open>A first part that starts nothing cannot use up a channel that the second part starts.\<close>

lemma run_no_start:
  assumes "\<And>cid p q st ch. Start_Relay cid p q st ch \<notin> set effs"
  shows "run_effects effs running \<subseteq> running"
  using assms
proof (induction effs arbitrary: running)
  case (Cons e effs)
  then have "run_effects effs (relay_effect e running) \<subseteq> relay_effect e running"
    by (meson list.set_intros(2))
  moreover have "relay_effect e running \<subseteq> running"
    using Cons.prems by (cases e) (auto, metis)
  ultimately show ?case by simp
qed simp

lemma tracks_append:
  assumes "tracks rt effs rt1" "tracks rt1 effs' rt'" "\<And>cid p q st ch. Start_Relay cid p q st ch \<notin> set effs"
  shows "tracks rt (effs @ effs') rt'"
proof -
  have "fresh_channels effs' (run_effects effs running)" if "fresh_channels (effs @ effs') running" for running
    using that run_no_start [OF assms(3), of running] by (fastforce simp: fresh_channels_def)
  moreover have "fresh_channels effs running" for running using assms(3) by (simp add: fresh_channels_def)
  ultimately show ?thesis using assms(1,2) by (simp add: tracks_def)
qed

lemma cleanup_senders:
  "hm_get (rt_calls rt) cid = None \<Longrightarrow> cleanup_call cid rt = ([], rt)"
  "hm_get (rt_calls rt) cid \<noteq> None \<Longrightarrow> fst (cleanup_call cid rt) = stop_effects (hm_get (senders rt) cid) \<and>
     senders (snd (cleanup_call cid rt)) = hm_remove cid (senders rt)"
  by (auto simp: cleanup_call_def remove_session_def)

lemma tracks_cleanup: "tracks rt (fst (cleanup_call cid rt)) (snd (cleanup_call cid rt))"
proof (cases "hm_get (rt_calls rt) cid = None")
  case True
  then show ?thesis by (simp add: cleanup_senders(1) tracks_same)
next
  case False
  note c = cleanup_senders(2) [OF False]
  show ?thesis
  proof (cases "hm_get (senders rt) cid")
    case None
    then have "hm_get (hm_remove cid (senders rt)) i = hm_get (senders rt) i" for i by simp
    with c None show ?thesis by (simp add: tracks_def tracked_def stop_effects_def)
  next
    case (Some ch)
    have "tracked (running - {ch}) (snd (cleanup_call cid rt))" if "tracked running rt" for running
      using that Some c unfolding tracked_def by (auto, metis option.inject)
    with c Some show ?thesis by (simp add: tracks_def stop_effects_def)
  qed
qed

text \<open>Starting the relay of a call that had none.\<close>

lemma tracks_start:
  assumes "hm_get (senders rt) cid = None"
  shows "tracks rt (fst (start_media_relay env cid rt)) (snd (start_media_relay env cid rt))"
proof (cases "hm_get (rt_calls rt) cid")
  case None
  then show ?thesis by (simp add: start_media_relay_def tracks_same)
next
  case (Some call)
  have "tracked (insert (ce_channel env) running) (snd (start_media_relay env cid rt))"
    if "tracked running rt" "ce_channel env \<notin> running" for running
    using that assms Some unfolding tracked_def
    by (auto simp: start_media_relay_def register_shutdown_def) (metis option.distinct(1))
  with Some show ?thesis by (auto simp: tracks_def start_media_relay_def fresh_channels_def)
qed

section \<open>The handlers\<close>

lemma tracks_cong: "tracks rt1 effs rt' \<Longrightarrow> senders rt1 = senders rt \<Longrightarrow> tracks rt effs rt'"
  unfolding tracks_def tracked_def by (simp only:)

lemma tracks_connect:
  "tracks rt (fst (snd (connect_call cfg env request body cid caller callee sink sink' tg crypto session rt)))
     (snd (snd (connect_call cfg env request body cid caller callee sink sink' tg crypto session rt)))"
proof -
  have c: "tracks rt (fst (cleanup_call cid (rt\<lparr>rt_calls := calls\<rparr>))) (snd (cleanup_call cid (rt\<lparr>rt_calls := calls\<rparr>)))"
    for calls
    by (rule tracks_cong [OF tracks_cleanup]) simp
  have n: "tracks rt [] (rt\<lparr>rt_calls := calls\<rparr>)" for calls by (rule tracks_same) simp
  show ?thesis
    by (auto simp: connect_call_def Let_def case_prod_beta intro: tracks_same tracks_send c n split: option.split)
qed

lemma tracks_reach:
  "tracks rt (fst (snd (reach_callee cfg env request cid caller callee sink rt)))
     (snd (snd (reach_callee cfg env request cid caller callee sink rt)))"
proof -
  have m: "senders (rt\<lparr>rt_media := mm\<rparr>) = senders rt" if "create_session cid (rt_media rt) = (r, mm)" for r mm
    using create_session_senders [OF that] by simp
  have c: "tracks rt (fst (snd (connect_call cfg env request body cid caller callee sink sink' tg crypto session (rt\<lparr>rt_media := mm\<rparr>))))
     (snd (snd (connect_call cfg env request body cid caller callee sink sink' tg crypto session (rt\<lparr>rt_media := mm\<rparr>))))"
    if "create_session cid (rt_media rt) = (r, mm)" for r mm body sink' tg crypto session
    by (rule tracks_cong [OF tracks_connect m [OF that]])
  show ?thesis
    using m c by (auto simp: reach_callee_def Let_def intro: tracks_same split: option.split prod.split)
qed

lemma tracks_place:
  "tracks rt (fst (snd (place_call cfg env request caller callee sink rt)))
     (snd (snd (place_call cfg env request caller callee sink rt)))"
  using tracks_append [OF tracks_cleanup tracks_reach cleanup_effects(1)]
  by (simp add: place_call_def Let_def case_prod_beta tracks_same)

lemma tracks_invite:
  "tracks rt (fst (snd (handle_invite cfg env request sink from_addr ext rt)))
     (snd (snd (handle_invite cfg env request sink from_addr ext rt)))"
  by (auto simp: handle_invite_def Let_def refuse_caller_def intro: tracks_same tracks_place split: option.split)

lemma tracks_after:
  assumes inv: "router_inv lib rt"
  shows "tracks rt (fst (after_forwarding env status cid rt)) (snd (after_forwarding env status cid rt))"
proof -
  have start: "tracks rt (fst (start_media_relay env cid (rt\<lparr>rt_calls := calls\<rparr>)))
      (snd (start_media_relay env cid (rt\<lparr>rt_calls := calls\<rparr>)))"
    if "hm_get (rt_calls rt) cid = Some call" "\<not> ci_relay_started call" for call calls
  proof (rule tracks_cong [OF tracks_start])
    show "hm_get (senders (rt\<lparr>rt_calls := calls\<rparr>)) cid = None"
      using router_inv_sender [OF inv, of cid] that by auto
  qed simp
  show ?thesis using start
    by (auto simp: after_forwarding_def intro: tracks_cleanup tracks_same split: option.split)
qed

lemma tracks_forward:
  assumes "router_inv lib rt"
  shows "tracks rt (fst (snd (forward_response cfg env status response cid call rt)))
     (snd (snd (forward_response cfg env status response cid call rt)))"
  using tracks_after [OF assms] tracks_cleanup
  by (auto simp: forward_response_def Let_def case_prod_beta intro: tracks_send split: option.split)

lemma tracks_response:
  assumes inv: "router_inv lib rt"
  shows "tracks rt (fst (snd (handle_callee_response cfg env response rt)))
     (snd (snd (handle_callee_response cfg env response rt)))"
proof -
  have upd: "router_inv lib (rt\<lparr>rt_calls := hm_insert cid call' (rt_calls rt)\<rparr>)"
    if "hm_get (rt_calls rt) cid = Some call" "update_call (ce_lib env) status response call = Some call'"
    for cid call call' status
    by (rule updated_call_inv [OF inv that])
  have f: "tracks rt (fst (snd (forward_response cfg env status response cid call' (rt\<lparr>rt_calls := hm_insert cid call' (rt_calls rt)\<rparr>))))
      (snd (snd (forward_response cfg env status response cid call' (rt\<lparr>rt_calls := hm_insert cid call' (rt_calls rt)\<rparr>))))"
    if "hm_get (rt_calls rt) cid = Some call" "update_call (ce_lib env) status response call = Some call'"
    for cid call call' status
    by (rule tracks_cong [OF tracks_forward [OF upd [OF that]]]) simp
  have c: "tracks rt (fst (cleanup_call cid (rt\<lparr>rt_calls := calls\<rparr>))) (snd (cleanup_call cid (rt\<lparr>rt_calls := calls\<rparr>)))"
    for cid calls
    by (rule tracks_cong [OF tracks_cleanup]) simp
  show ?thesis
    using f c by (auto simp: handle_callee_response_def Let_def case_prod_beta intro: tracks_same tracks_send split: option.split)
qed

lemma tracks_sends:
  assumes "tracks rt effs rt'" "\<forall>e \<in> set sends. \<exists>sink m. e = Send_Text sink m"
  shows "tracks rt (sends @ effs) rt'"
  using assms(2) by (induction sends) (auto intro: tracks_send assms(1))

lemma tracks_bye:
  "tracks rt (fst (snd (handle_bye cfg env request from_ext rt))) (snd (snd (handle_bye cfg env request from_ext rt)))"
proof (cases rule: handle_bye_cases [of cfg env request from_ext rt])
  case (ended cid call tag)
  have "\<forall>e \<in> set (bye_sends cfg env request tag from_ext call rt). \<exists>sink m. e = Send_Text sink m"
    by (auto simp: bye_sends_def case_prod_beta forward_in_dialog_def split: option.splits if_splits)
  from tracks_sends [OF tracks_cleanup this] ended show ?thesis by simp
qed (simp_all add: tracks_same)

lemma tracks_cancel:
  "tracks rt (fst (snd (handle_cancel cfg env request rt))) (snd (snd (handle_cancel cfg env request rt)))"
proof (cases rule: handle_cancel_cases [of cfg env request rt])
  case (ended cid call)
  have "\<forall>e \<in> set (cancel_sends cfg env request call rt). \<exists>sink m. e = Send_Text sink m"
    by (auto simp: cancel_sends_def case_prod_beta forward_in_dialog_def split: option.splits if_splits)
  moreover have "tracks rt (fst (cleanup_call cid (terminated cid call rt))) (snd (cleanup_call cid (terminated cid call rt)))"
    by (rule tracks_cong [OF tracks_cleanup]) (simp add: terminated_def)
  ultimately show ?thesis using tracks_sends ended by simp
qed (simp_all add: tracks_same)

lemma tracks_step:
  assumes "router_step cfg lib rt effs rt'" "router_inv lib rt"
  shows "tracks rt effs rt'"
  using assms
proof (induction rule: router_step.induct)
  case (invite env request sink from_addr ext rt r effs rt')
  then show ?case using tracks_invite [of rt cfg env request sink from_addr ext] by simp
next
  case (response env request rt u effs rt')
  then show ?case using tracks_response [of lib rt cfg env request] by simp
next
  case (ack env request rt u effs rt')
  then show ?case by (auto simp: handle_ack_def forward_in_dialog_def intro: tracks_same tracks_send split: option.splits if_splits)
next
  case (bye env request from_ext rt r effs rt')
  then show ?case using tracks_bye [of rt cfg env request from_ext] by simp
next
  case (cancel env request rt r effs rt')
  then show ?case using tracks_cancel [of rt cfg env request] by simp
qed (simp_all add: tracks_same register_writer_def unregister_writer_def)

lemma relay_history_tracked: "relay_history cfg lib running rt \<Longrightarrow> tracked running rt"
proof (induction rule: relay_history.induct)
  case (start port_start port_end addr)
  then show ?case by (simp add: tracked_def router_new_def manager_new_def)
next
  case (step running rt effs rt')
  then show ?case
    using tracks_step [OF step(2) router_reach_inv [OF relay_history_reach [OF step(1)]]] by (simp add: tracks_def)
qed

section \<open>A history\<close>

lemma relay_history_quiet:
  assumes "relay_history cfg lib {} rt" "router_step cfg lib rt effs rt'" "\<forall>e \<in> set effs. \<exists>sink m. e = Send_Text sink m"
  shows "relay_history cfg lib {} rt'"
proof -
  have "fresh_channels effs {}" using assms(3) by (auto simp: fresh_channels_def)
  moreover have "run_effects effs {} = {}" using assms(3) by (induction effs) auto
  ultimately show ?thesis using relay_history.step [OF assms(1,2)] by simp
qed

lemma ex_no_relay_ready: "relay_history ex_router_cfg ex_lib {} ex_ready"
proof -
  let ?rt = "\<lambda>reg. (router_new registrar_new (manager_new 20000 20100 ''0.0.0.0''))\<lparr>rt_registrar := reg\<rparr>"
  have "?rt registrar_new = router_new registrar_new (manager_new 20000 20100 ''0.0.0.0'')"
    by (simp add: router_new_def)
  then have "relay_history ex_router_cfg ex_lib {} (?rt registrar_new)" by (metis relay_history.start)
  moreover have "relay_history ex_router_cfg ex_lib {} (?rt (ex_signs_on ext seed nonce reg))"
    if "relay_history ex_router_cfg ex_lib {} (?rt reg)" for ext seed nonce reg
  proof -
    have "relay_history ex_router_cfg ex_lib {} (?rt (snd (handle_register ex_reg_cfg env req peer tp reg)))"
      if "relay_history ex_router_cfg ex_lib {} (?rt reg)" for env req peer tp reg
      using relay_history_quiet [OF that router_step.registrar [OF reg_step.handle]] by (simp add: ex_router_cfg_def)
    with that show ?thesis by (simp add: ex_signs_on_def Let_def)
  qed
  ultimately have "relay_history ex_router_cfg ex_lib {} (?rt ex_signed_on)" by (simp add: ex_signed_on_def)
  then show ?thesis unfolding ex_ready_def by (intro relay_history_quiet [OF _ router_step.writer]) simp_all
qed

lemma ex_no_relay_ringing: "relay_history ex_router_cfg ex_lib {} ex_ringing"
proof -
  obtain invite where "router_step ex_router_cfg ex_lib ex_ready [Send_Text (Stream 2) invite] ex_ringing"
    using ex_rings router_step.invite [OF ex_env_fields(2)] by metis
  from relay_history_quiet [OF ex_no_relay_ready this] show ?thesis by simp
qed

end
