(* ===== verification/Call_Media.thy ===== *)
theory Call_Media
  imports Call_Example
begin

text \<open>
  What a call gives its parties: the INVITE the callee gets and the keys it announces, the media
  of an answered call from end to end, what is released at its end, and how a call can be lost.
\<close>

section \<open>The INVITE of the callee\<close>

lemma refusals_not_100:
  "extract_status_code (build_response request 403 ''Forbidden'' tag) \<noteq> Some 100"
  "extract_status_code (build_response request 404 ''Not Found'' tag) \<noteq> Some 100"
  "extract_status_code (build_response request 480 ''Temporarily Unavailable'' tag) \<noteq> Some 100"
  "extract_status_code (build_response request 488 ''Not Acceptable Here'' tag) \<noteq> Some 100"
  "extract_status_code (build_response request 503 ''Service Unavailable'' tag) \<noteq> Some 100"
  "extract_status_code (build_response request 500 ''Internal Server Error'' tag) \<noteq> Some 100"
  by (subst built_status_plain; simp add: LF_def)+

text \<open>The entry and the message of an INVITE that was sent on.\<close>

definition invited ::
  "router_config \<Rightarrow> call_env \<Rightarrow> string \<Rightarrow> string \<Rightarrow> string \<Rightarrow> string \<Rightarrow> connection_sink \<Rightarrow> registrar
     \<Rightarrow> call_effect list \<Rightarrow> router \<Rightarrow> bool" where
  "invited cfg env request cid caller callee sink reg effs rt' \<longleftrightarrow>
     (\<exists>call session body csink cm gcm effs0 rt.
        hm_get (rt_calls rt') cid = Some call \<and> ci_state call = Trying \<and> ci_original_invite call = request \<and>
        ci_caller_sink call = sink \<and> ci_callee_sink call = Some csink \<and>
        hm_get (mm_sessions (rt_media rt')) cid = Some session \<and>
        ci_caller_relay_port call = rs_caller_port session \<and> ci_callee_relay_port call = rs_callee_port session \<and>
        ci_callee_local_crypto call = Some cm \<and> ci_callee_local_crypto_gcm call = Some gcm \<and>
        extract_body request = Some body \<and> rt_registrar rt = reg \<and>
        effs = effs0 @ [Send_Text csink (callee_invite cfg env request body caller callee csink
          (ci_callee_relay_port call) (callee_cryptos (ce_lib env) cm gcm) rt)])"

lemma connect_call_invites:
  assumes "connect_call cfg env request body cid caller callee sink csink tg crypto session rt = (Some answer, effs, rt')"
    and "extract_status_code answer = Some 100" "extract_body request = Some body"
    and "hm_get (mm_sessions (rt_media rt)) cid = Some session"
  shows "invited cfg env request cid caller callee sink (rt_registrar rt) effs rt'"
proof -
  obtain contact where c: "extract_contact_uri request = Some contact"
    using assms(1) by (auto simp: connect_call_def Let_def split: option.splits)
  let ?call = "new_call_info env request cid caller callee contact sink csink tg crypto
     (extract_audio_media_addr_from_sdp body) session"
  let ?cm = "srtp_new (ce_lib env) (ce_rnd env 1)" and ?gcm = "new_with_suite (ce_lib env) (ce_rnd env 2) AeadAes128Gcm"
  let ?invite = "callee_invite cfg env request body caller callee csink (rs_callee_port session)
     (callee_cryptos (ce_lib env) ?cm ?gcm) rt"
  have r: "effs = [Send_Text csink ?invite]" "rt' = rt\<lparr>rt_calls := hm_insert cid ?call (rt_calls rt)\<rparr>"
    using assms(1,2) c refusals_not_100 by (auto simp: connect_call_def Let_def case_prod_beta split: if_splits)
  have f: "ci_state ?call = Trying" "ci_original_invite ?call = request" "ci_caller_sink ?call = sink"
    "ci_callee_sink ?call = Some csink" "ci_caller_relay_port ?call = rs_caller_port session"
    "ci_callee_relay_port ?call = rs_callee_port session" "ci_callee_local_crypto ?call = Some ?cm"
    "ci_callee_local_crypto_gcm ?call = Some ?gcm"
    by (simp_all add: new_call_info_def)
  show ?thesis unfolding invited_def
    by (rule exI [of _ ?call], rule exI [of _ session], rule exI [of _ body], rule exI [of _ csink],
        rule exI [of _ ?cm], rule exI [of _ ?gcm], rule exI [of _ "[]"], rule exI [of _ rt])
      (use f r assms(3,4) in simp)
qed

lemma reach_callee_invites:
  assumes "reach_callee cfg env request cid caller callee sink rt = (Some answer, effs, rt')"
    and "extract_status_code answer = Some 100"
  shows "invited cfg env request cid caller callee sink (rt_registrar rt) effs rt'"
proof -
  obtain csink body tg crypto session mm where
    "extract_body request = Some body" "create_session cid (rt_media rt) = (Some session, mm)"
    "connect_call cfg env request body cid caller callee sink csink tg crypto session (rt\<lparr>rt_media := mm\<rparr>) =
       (Some answer, effs, rt')"
    using assms refusals_not_100
    by (auto simp: reach_callee_def Let_def split: option.splits if_splits prod.splits)
  from connect_call_invites [OF this(3) assms(2) this(1)] sessions.create_made [OF this(2)]
  show ?thesis by simp
qed

lemma invited_mono:
  "invited cfg env request cid caller callee sink reg effs rt' \<Longrightarrow>
   invited cfg env request cid caller callee sink reg (effs1 @ effs) rt'"
  unfolding invited_def by (metis append_assoc)

text \<open>A call is set up as announced. An INVITE answered with 100 leaves an entry with the relay
  ports of a session of its own, and as its last effect the INVITE for the callee, which names
  the callee's relay port and announces exactly the two keys the entry keeps for that side.\<close>

theorem callee_invited:
  assumes "handle_invite cfg env request sink from_addr ext rt = (Some answer, effs, rt')"
    and "extract_status_code answer = Some 100"
  shows "\<exists>caller callee. caller_extension request = Some caller \<and> extract_called_extension request = Some callee \<and>
     invited cfg env request (case extract_call_id request of Some i \<Rightarrow> i | None \<Rightarrow> []) caller
       (case callee of Some c \<Rightarrow> c | None \<Rightarrow> []) sink (rt_registrar rt) effs rt'"
proof (cases rule: handle_invite_cases [of cfg env request sink from_addr ext rt])
  case refused
  then show ?thesis using assms refusals_not_100(1) by auto
next
  case (placed caller callee)
  let ?cid = "case extract_call_id request of Some i \<Rightarrow> i | None \<Rightarrow> []"
  let ?callee = "case callee of Some c \<Rightarrow> c | None \<Rightarrow> []"
  let ?r = "reach_callee cfg env request ?cid caller ?callee sink (snd (cleanup_call ?cid rt))"
  have p: "fst ?r = Some answer" "effs = fst (cleanup_call ?cid rt) @ fst (snd ?r)" "rt' = snd (snd ?r)"
    using assms(1) placed(7) by (simp_all add: place_call_def Let_def case_prod_beta split: if_splits)
  then have "?r = (Some answer, fst (snd ?r), rt')" by (metis prod.collapse)
  from invited_mono [OF reach_callee_invites [OF this assms(2)]] p(2) placed(2,6) show ?thesis by auto
qed

theorem callee_invited_witness:
  "\<exists>effs. invited ex_router_cfg ex_call_env ex_call_invite ''c-1'' ''1001'' ''1002'' (Stream 1) ex_signed_on effs ex_ringing"
proof -
  obtain invite where i: "handle_invite ex_router_cfg ex_call_env ex_call_invite (Stream 1) ex_peer (Some ''1001'') ex_ready =
     (Some (build_response ex_call_invite 100 ''Trying'' ''t1''), [Send_Text (Stream 2) invite], ex_ringing)"
    using ex_rings by blast
  have "extract_status_code (build_response ex_call_invite 100 ''Trying'' ''t1'') = Some 100"
    by (rule built_status_plain) (simp_all add: LF_def)
  from callee_invited [OF i this] show ?thesis by (auto simp: ex_invite_fields ex_ready_fields)
qed

section \<open>Where a relay is started\<close>

lemma start_media_relay_effects:
  "Start_Relay cid p q st ch \<in> set (fst (start_media_relay env cid' rt)) \<longleftrightarrow>
     cid = cid' \<and> ch = ce_channel env \<and>
     (\<exists>call. hm_get (rt_calls rt) cid = Some call \<and> p = ci_caller_relay_port call \<and>
        q = ci_callee_relay_port call \<and> st = relay_contexts call)"
  by (auto simp: start_media_relay_def split: option.splits)

lemma start_media_relay_calls [simp]: "rt_calls (snd (start_media_relay env cid rt)) = rt_calls rt"
  by (simp add: start_media_relay_def split: option.split)

lemma relay_contexts_started [simp]: "relay_contexts (call\<lparr>ci_relay_started := b\<rparr>) = relay_contexts call"
  by (cases "ci_callee_remote_crypto call") (simp_all add: relay_contexts_def split: srtp_suite.split option.split)

lemma after_forwarding_effects:
  assumes "Start_Relay cid p q st ch \<in> set (fst (after_forwarding env status cid' rt))"
  obtains call where "cid = cid'" "status = 200" "ch = ce_channel env"
    "hm_get (rt_calls (snd (after_forwarding env status cid' rt))) cid = Some call"
    "ci_relay_started call" "ci_callee_remote_crypto call \<noteq> None" "p = ci_caller_relay_port call"
    "q = ci_callee_relay_port call" "st = relay_contexts call"
  using assms
  by (auto simp: after_forwarding_def cleanup_effects start_media_relay_effects split: if_splits option.splits)

lemma forward_response_effects:
  assumes "Start_Relay cid p q st ch \<in> set (fst (snd (forward_response cfg env status response cid' call rt)))"
  shows "snd (snd (forward_response cfg env status response cid' call rt)) = snd (after_forwarding env status cid' rt)"
    "Start_Relay cid p q st ch \<in> set (fst (after_forwarding env status cid' rt))"
  using assms
  by (auto simp: forward_response_def Let_def case_prod_beta cleanup_effects split: option.splits)

lemma handle_callee_response_effects:
  assumes "Start_Relay cid p q st ch \<in> set (fst (snd (handle_callee_response cfg env response rt)))"
  obtains call where "extract_status_code response = Some 200" "ch = ce_channel env"
    "hm_get (rt_calls (snd (snd (handle_callee_response cfg env response rt)))) cid = Some call"
    "ci_relay_started call" "ci_callee_remote_crypto call \<noteq> None" "p = ci_caller_relay_port call"
    "q = ci_callee_relay_port call" "st = relay_contexts call"
proof -
  obtain cid' status call0 call where c: "extract_call_id response = Some cid'"
    "extract_status_code response = Some status" "\<not> rt_poisoned rt" "hm_get (rt_calls rt) cid' = Some call0"
    "update_call (ce_lib env) status response call0 = Some call"
    "\<not> (status = 200 \<and> ci_callee_remote_crypto call = None)"
    using assms
    by (auto simp: handle_callee_response_def Let_def case_prod_beta cleanup_effects split: option.splits if_splits)
  let ?rt = "rt\<lparr>rt_calls := hm_insert cid' call (rt_calls rt)\<rparr>"
  have h: "handle_callee_response cfg env response rt = forward_response cfg env status response cid' call ?rt"
    using c by (auto simp: handle_callee_response_def Let_def)
  note f = forward_response_effects [OF assms [unfolded h]]
  from after_forwarding_effects [OF f(2)] c(2) that show ?thesis unfolding h f(1) by metis
qed

lemma handle_invite_no_start:
  "Start_Relay cid p q st ch \<notin> set (fst (snd (handle_invite cfg env request sink from_addr ext rt)))"
  by (cases rule: handle_invite_cases [of cfg env request sink from_addr ext rt])
    (simp_all add: place_call_effects(1))

lemma relay_origin:
  assumes "router_step cfg lib rt effs rt'" "Start_Relay cid p q st ch \<in> set effs"
  shows "\<exists>call. hm_get (rt_calls rt') cid = Some call \<and> ci_relay_started call \<and>
     ci_callee_remote_crypto call \<noteq> None \<and> p = ci_caller_relay_port call \<and>
     q = ci_callee_relay_port call \<and> st = relay_contexts call"
  using assms
proof (induction rule: router_step.induct)
  case (invite env request sink from_addr ext rt r effs rt')
  then show ?case using handle_invite_no_start [of cid p q st ch cfg env request sink from_addr ext rt] by simp
next
  case (response env request rt u effs rt')
  then have "Start_Relay cid p q st ch \<in> set (fst (snd (handle_callee_response cfg env request rt)))" by simp
  from handle_callee_response_effects [OF this] response(2) show ?case by (metis snd_conv)
next
  case (ack env request rt u effs rt')
  then show ?case by (auto simp: handle_ack_def forward_in_dialog_def split: option.splits if_splits)
next
  case (bye env request from_ext rt r effs rt')
  then show ?case
    by (cases rule: handle_bye_cases [of cfg env request from_ext rt])
      (auto simp: no_call_def cleanup_effects bye_sends_def case_prod_beta forward_in_dialog_def split: option.splits)
next
  case (cancel env request rt r effs rt')
  then show ?case
    by (cases rule: handle_cancel_cases [of cfg env request rt])
      (auto simp: no_call_def cleanup_effects cancel_sends_def forward_in_dialog_def split: option.splits)
qed simp_all

section \<open>The media of an answered call\<close>

text \<open>The context the server announced to the callee for a suite.\<close>

definition callee_context :: "call_info \<Rightarrow> srtp_suite \<Rightarrow> srtp_context option" where
  "callee_context call su =
     (case su of AesCm128HmacSha180 \<Rightarrow> ci_callee_local_crypto call
      | AeadAes128Gcm \<Rightarrow> ci_callee_local_crypto_gcm call)"

lemma relay_contexts_ok:
  assumes "call_keys lib call" "ci_callee_remote_crypto call = Some cr"
  shows "\<exists>c e d. offered lib call c \<and> callee_context call (sc_suite cr) = Some e \<and>
     sc_suite e = sc_suite cr \<and> ci_caller_local_crypto call = Some d \<and> sc_suite d = sc_suite c \<and>
     relay_contexts call = run_relay_start (Some c) (Some e) (Some cr) (Some d)
       (ci_caller_media_addr call) (ci_callee_media_addr call)"
proof -
  obtain c r1 r2 r3 where k: "ci_caller_remote_crypto call = Some c" "offered lib call c"
    "ci_caller_local_crypto call = Some (new_with_suite lib r1 (sc_suite c))"
    "ci_callee_local_crypto call = Some (new_with_suite lib r2 AesCm128HmacSha180)"
    "ci_callee_local_crypto_gcm call = Some (new_with_suite lib r3 AeadAes128Gcm)"
    using assms(1) by (auto simp: call_keys_def)
  have s: "sc_suite (new_with_suite lib r su) = su" for r su by (simp add: new_with_suite_def)
  show ?thesis
    by (cases "sc_suite cr"; rule exI [of _ c]; simp add: k s relay_contexts_def callee_context_def assms(2))
qed

lemma started_relay_ok:
  assumes inv: "router_inv lib rt'"
    and call: "hm_get (rt_calls rt') cid = Some call" "ci_relay_started call" "ci_callee_remote_crypto call = Some cr"
    and st: "p = ci_caller_relay_port call" "q = ci_callee_relay_port call" "st = relay_contexts call"
  shows "\<exists>c e d. call_keys lib call \<and> offered lib call c \<and>
     callee_context call (sc_suite cr) = Some e \<and> sc_suite e = sc_suite cr \<and>
     ci_caller_local_crypto call = Some d \<and> sc_suite d = sc_suite c \<and>
     st = run_relay_start (Some c) (Some e) (Some cr) (Some d)
       (ci_caller_media_addr call) (ci_callee_media_addr call) \<and>
     (\<exists>s. hm_get (mm_sessions (rt_media rt')) cid = Some s \<and> rs_caller_port s = p \<and> rs_callee_port s = q) \<and>
     hm_get (mm_shutdown_senders (rt_media rt')) cid \<noteq> None"
proof -
  have ok: "call_keys lib call" "call_ports (rt_media rt') cid call"
    using router_inv_call [OF inv call(1)] by (simp_all add: call_ok_def)
  have "hm_get (mm_shutdown_senders (rt_media rt')) cid \<noteq> None"
    using router_inv_sender [OF inv, of cid] call(1,2) by blast
  with relay_contexts_ok [OF ok(1) call(3)] st ok show ?thesis by (auto simp: call_ports_def)
qed

text \<open>Reading back an announced key gives the very context the server keeps.\<close>

lemma announced_key_read:
  assumes "b64_laws lib" "tag < 2 ^ 32"
  shows "crypto_of_line lib (crypto_to_line (context_key lib tag (new_with_suite lib rnd su))) =
     Some (tag, su, new_with_suite lib rnd su)"
proof -
  let ?s = "new_with_suite lib rnd su" and ?t = "of_nat tag :: u32"
  have t: "unat ?t = tag" using assms(2) by (simp add: unat_of_nat)
  let ?l = "''a=crypto:'' @ show_nat (unat ?t) @ '' '' @ sdp_name su @ '' inline:'' @ to_sdes_key lib ?s"
  have s: "sc_suite ?s = su" by (simp add: new_with_suite_def)
  have l: "crypto_to_line (context_key lib tag ?s) = ?l"
    using t s by (simp add: crypto_to_line_def context_key_def)
  note k = new_with_suite_sdes [OF assms(1), where rnd = rnd and su = su]
  have tr: "trim ?l = ?l" using b64_no_sep(2) [OF k(1,2)] k(2) by (intro trim_id) (simp_all add: is_ws_def)
  have "crypto_line ?l" using crypto_line_of [of "context_key lib tag ?s"] by (simp only: l)
  then have lo: "starts_with (to_lower ?l) ''a=crypto''"
    unfolding crypto_line_def tr by (rule starts_with_trans) simp
  show ?thesis unfolding l crypto_of_line_def Let_def tr
    using lo parse_crypto_line [OF k(1,2), of ?t su] sdp_name_facts(1) k(3) t by simp
qed

text \<open>The relay treats its two sides alike: seen with the sides exchanged it is a relay again, so
  \<open>call_media\<close> on the exchanged relay is what the caller hears of the callee.\<close>

definition swap_ends :: "relay_state \<Rightarrow> relay_state" where
  "swap_ends st = \<lparr>caller_leg = callee_leg st, callee_leg = caller_leg st\<rparr>"

fun swap_event :: "relay_event \<Rightarrow> relay_event" where
  "swap_event (From_Caller a d) = From_Callee a d"
| "swap_event (From_Callee a d) = From_Caller a d"

fun swap_output :: "relay_output \<Rightarrow> relay_output" where
  "swap_output (To_Callee a d) = To_Caller a d"
| "swap_output (To_Caller a d) = To_Callee a d"

lemma relay_step_swap:
  "relay_step lib (swap_event ev) (swap_ends st) =
     (map swap_output (fst (relay_step lib ev st)), swap_ends (snd (relay_step lib ev st)))"
  by (cases ev) (simp_all add: swap_ends_def caller_task_def callee_task_def case_prod_beta split: option.split)

lemma run_relay_swap:
  "run_relay lib (map swap_event evs) (swap_ends st) =
     (map swap_output (fst (run_relay lib evs st)), swap_ends (snd (run_relay lib evs st)))"
  by (induction evs arbitrary: st) (simp_all add: relay_step_swap case_prod_beta)

text \<open>What the two parties of such a relay hear.\<close>

lemma call_media_both_ways:
  assumes keys: "call_keys lib call" "offered lib call c" "callee_context call (sc_suite cr) = Some rx"
      "ci_caller_local_crypto call = Some d"
    and st: "st = run_relay_start (Some c) (Some rx) (Some cr) (Some d)
       (ci_caller_media_addr call) (ci_callee_media_addr call)"
    and laws: "cipher_laws lib" "b64_laws lib"
  shows "(\<forall>tag < 2 ^ 32. crypto_of_line lib (crypto_to_line (context_key lib tag rx)) = Some (tag, sc_suite cr, rx) \<and>
        crypto_of_line lib (crypto_to_line (context_key lib tag d)) = Some (tag, sc_suite c, d)) \<and>
     (\<forall>evs. ci_callee_media_addr call \<noteq> None \<and> list_all short_packet evs \<and> injected_rejected lib evs c st \<longrightarrow>
        call_media lib evs c st rx = concat (map spoken evs)) \<and>
     (\<forall>evs. ci_caller_media_addr call \<noteq> None \<and> list_all short_packet evs \<and>
        injected_rejected lib evs cr (swap_ends st) \<longrightarrow>
        call_media lib evs cr (swap_ends st) d = concat (map spoken evs))"
proof -
  have sync: "in_sync lib x x" for x using laws(1) by (simp add: in_sync_def same_keys_def)
  obtain r where r: "rx = new_with_suite lib r (sc_suite cr)"
    using keys(1,3) by (cases "sc_suite cr") (auto simp: call_keys_def callee_context_def)
  obtain r' where r': "d = new_with_suite lib r' (sc_suite c)"
    using keys(1,2,4) by (auto simp: call_keys_def offered_def)
  have "crypto_of_line lib (crypto_to_line (context_key lib tag rx)) = Some (tag, sc_suite cr, rx) \<and>
      crypto_of_line lib (crypto_to_line (context_key lib tag d)) = Some (tag, sc_suite c, d)"
    if "tag < 2 ^ 32" for tag
    unfolding r r' using announced_key_read [OF laws(2) that] by blast
  moreover have "call_media lib evs c st rx = concat (map spoken evs)"
    if m: "ci_callee_media_addr call \<noteq> None" "list_all short_packet evs" "injected_rejected lib evs c st" for evs
  proof -
    obtain dest where "ci_callee_media_addr call = Some dest" using m(1) by blast
    then show ?thesis
      by (intro media_path [OF sync sync _ _ _ m(2,3)]) (simp_all add: st run_relay_start_def)
  qed
  moreover have "call_media lib evs cr (swap_ends st) d = concat (map spoken evs)"
    if m: "ci_caller_media_addr call \<noteq> None" "list_all short_packet evs" "injected_rejected lib evs cr (swap_ends st)"
    for evs
  proof -
    obtain dest where "ci_caller_media_addr call = Some dest" using m(1) by blast
    then show ?thesis
      by (intro media_path [OF sync sync _ _ _ m(2,3)]) (simp_all add: st run_relay_start_def swap_ends_def)
  qed
  ultimately show ?thesis by blast
qed

end
