(* ===== verification/Call_Lifetime.thy ===== *)
theory Call_Lifetime
  imports Call_Example
begin

text \<open>
  Who can set up and end a call of \<open>src/sip/router.rs\<close>, what a BYE, a failure response and a second
  INVITE of the same \<open>Call-ID\<close> release.
\<close>

section \<open>Who can set up and end a call\<close>

text \<open>The hang-up and the cancellation of the example call, and a refusal by the callee.\<close>

definition ex_in_dialog :: "string \<Rightarrow> string" where
  "ex_in_dialog meth = unlines
     [meth @ '' sip:1002@pbx SIP/2.0'', ''Via: SIP/2.0/TLS 10.0.0.7:5060;branch=z9hG4bKa2'',
      ''From: <sip:1001@pbx>;tag=77'', ''To: <sip:1002@pbx>;tag=88'', ''Call-ID: c-1'', ''CSeq: 2 '' @ meth] @ CRLF"

definition ex_busy :: string where
  "ex_busy = unlines
     [''SIP/2.0 486 Busy Here'', ''Via: SIP/2.0/TLS 9.9.9.9:5061;branch=z9hG4bKb1'',
      ''From: <sip:1001@pbx>;tag=77'', ''To: <sip:1002@pbx>;tag=88'', ''Call-ID: c-1'', ''CSeq: 1 INVITE''] @ CRLF"

lemma ex_ending_fields:
  "extract_call_id (ex_in_dialog ''BYE'') = Some ''c-1''" "from_tag_of (ex_in_dialog ''BYE'') = Some ''77''"
  "extract_call_id (ex_in_dialog ''CANCEL'') = Some ''c-1''" "from_tag_of (ex_in_dialog ''CANCEL'') = Some ''77''"
  "extract_call_id ex_busy = Some ''c-1''" "extract_status_code ex_busy = Some 486"
  by code_simp+

lemma ex_bye:
  "\<exists>effs rt'. handle_bye ex_router_cfg ex_call_env (ex_in_dialog ''BYE'') ''1001'' ex_talking =
     (Some (build_response (ex_in_dialog ''BYE'') 200 ''OK'' ''t1''), effs, rt') \<and> effs \<noteq> []"
proof -
  have "ci_callee_sink ex_answered = Some (Stream 2)" "ci_callee_remote_contact ex_answered = Some ''sip:1002@10.0.0.8''"
    "ci_caller_ext ex_answered = ''1001''" "ci_callee_ext ex_answered = ''1002''"
    by (simp_all add: ex_answered_def ex_call_def new_call_info_def)
  then show ?thesis
    by (simp add: handle_bye_def ex_ending_fields ex_talking_fields ex_env_fields bye_from_caller_side_def
        bye_from_callee_side_def bye_target_def case_prod_beta)
qed

lemma ex_cancel:
  "\<exists>effs rt'. handle_cancel ex_router_cfg ex_call_env (ex_in_dialog ''CANCEL'') ex_talking =
     (Some (build_response (ex_in_dialog ''CANCEL'') 200 ''OK'' ''t1''), effs, rt') \<and> effs \<noteq> []"
proof -
  have "ci_callee_sink ex_answered = Some (Stream 2)" by (simp add: ex_answered_def ex_call_def new_call_info_def)
  then show ?thesis
    by (simp add: handle_cancel_def ex_ending_fields ex_talking_fields ex_env_fields case_prod_beta Let_def)
qed

text \<open>C5: no caller spoofing. An INVITE that changes the table of calls or sends anything comes from an
  address that is not blocked and names a registered caller, and its connection is
  authenticated as that caller or, over UDP, comes from the address the caller registered
  from; what is sent goes to the outlet of a registered callee.\<close>

theorem invite_authenticated:
  assumes "handle_invite cfg env request sink from_addr ext rt = (r, effs, rt')"
    and "rt_calls rt' \<noteq> rt_calls rt \<or> effs \<noteq> []"
  shows "\<not> is_blocked (rc_reg cfg) (ip_text from_addr) (rt_registrar rt) \<and>
     (\<exists>caller. caller_extension request = Some caller \<and> caller \<noteq> [] \<and>
        is_registered (ce_now env) caller (rt_registrar rt) \<and>
        (ext = Some caller \<or> ext = None \<and> sink_transport sink = Udp \<and>
           (\<exists>reg. lookup (ce_now env) caller (rt_registrar rt) = Some reg \<and>
              ip_text (reg_addr reg) = ip_text from_addr))) \<and>
     (\<forall>s t. Send_Text s t \<in> set effs \<longrightarrow>
        (\<exists>callee. is_registered (ce_now env) callee (rt_registrar rt) \<and>
           call_outbound cfg (ce_now env) callee rt = Some s))"
proof (cases rule: handle_invite_cases [of cfg env request sink from_addr ext rt])
  case refused
  then show ?thesis using assms by simp
next
  case (placed caller callee)
  have "effs = fst (snd (place_call cfg env request caller (case callee of Some c \<Rightarrow> c | None \<Rightarrow> []) sink rt))"
    using assms(1) placed(7) by simp
  then have "\<forall>s t. Send_Text s t \<in> set effs \<longrightarrow> (\<exists>callee. is_registered (ce_now env) callee (rt_registrar rt) \<and>
      call_outbound cfg (ce_now env) callee rt = Some s)"
    using place_call_effects(2) by blast
  moreover have "ext = Some caller \<or> ext = None \<and> sink_transport sink = Udp \<and>
      (\<exists>reg. lookup (ce_now env) caller (rt_registrar rt) = Some reg \<and> ip_text (reg_addr reg) = ip_text from_addr)"
    using placed(5) by (auto simp: connection_may_call_def split: option.splits)
  ultimately show ?thesis using placed(1-4) by blast
qed

theorem invite_authenticated_witness:
  "\<exists>caller. caller_extension ex_call_invite = Some caller \<and> is_registered 1000 caller ex_signed_on"
proof -
  obtain invite where i: "handle_invite ex_router_cfg ex_call_env ex_call_invite (Stream 1) ex_peer (Some ''1001'') ex_ready =
     (Some (build_response ex_call_invite 100 ''Trying'' ''t1''), [Send_Text (Stream 2) invite], ex_ringing)"
    using ex_rings by blast
  show ?thesis using invite_authenticated [OF i] by (auto simp: ex_env_fields ex_ready_fields)
qed



section \<open>What the end of a call releases\<close>

text \<open>Call \<open>cid\<close> is over: its entry, its ports' session and its stop channel are gone, the relay was
  told to stop if it ran, and no other call is touched.\<close>

definition call_released :: "string \<Rightarrow> call_info \<Rightarrow> router \<Rightarrow> call_effect list \<Rightarrow> router \<Rightarrow> bool" where
  "call_released cid call rt effs rt' \<longleftrightarrow>
     hm_get (rt_calls rt') cid = None \<and>
     hm_get (mm_sessions (rt_media rt')) cid = None \<and>
     hm_get (mm_shutdown_senders (rt_media rt')) cid = None \<and>
     (ci_relay_started call \<longrightarrow>
        (\<exists>ch. hm_get (mm_shutdown_senders (rt_media rt)) cid = Some ch \<and> Stop_Relay ch \<in> set effs)) \<and>
     (\<forall>i. i \<noteq> cid \<longrightarrow> hm_get (rt_calls rt') i = hm_get (rt_calls rt) i \<and>
        hm_get (mm_sessions (rt_media rt')) i = hm_get (mm_sessions (rt_media rt)) i)"

lemma cleanup_call_releases:
  assumes inv: "router_inv lib rt" and call: "hm_get (rt_calls rt) cid = Some call"
    and rt1: "rt1 = rt\<lparr>rt_calls := hm_insert cid call1 (rt_calls rt)\<rparr> \<or> rt1 = rt"
    and effs: "set (fst (cleanup_call cid rt1)) \<subseteq> set effs"
  shows "call_released cid call rt effs (snd (cleanup_call cid rt1))"
proof -
  have m: "rt_media rt1 = rt_media rt" "hm_get (rt_calls rt1) cid \<noteq> None"
    "\<And>i. i \<noteq> cid \<Longrightarrow> hm_get (rt_calls rt1) i = hm_get (rt_calls rt) i" using rt1 call by auto
  obtain c1 where c1: "hm_get (rt_calls rt1) cid = Some c1" using m(2) by blast
  have ch: "ci_relay_started call \<longrightarrow> (\<exists>ch. hm_get (mm_shutdown_senders (rt_media rt)) cid = Some ch)"
    using router_inv_sender [OF inv, of cid] call by auto
  show ?thesis using effs ch m
    by (auto simp: call_released_def cleanup_call_def c1 remove_session_def stop_effects_def split: option.splits)
qed

text \<open>C10: a hang-up releases everything. A BYE that is answered with 200 removes the call it names, its
  relay session and its stop channel, stops the relay if it ran, and leaves every other call
  alone.\<close>

theorem bye_releases:
  assumes "router_reach cfg lib rt"
    and "handle_bye cfg env request from_ext rt = (Some answer, effs, rt')"
    and "extract_status_code answer = Some 200"
  shows "\<exists>cid call. extract_call_id request = Some cid \<and> hm_get (rt_calls rt) cid = Some call \<and>
     call_released cid call rt effs rt'"
proof (cases rule: handle_bye_cases [of cfg env request from_ext rt])
  case refused
  have "LF \<notin> set ''Call/Transaction Does Not Exist''" by (simp add: LF_def)
  from built_status_plain [OF this, of 481 request "ce_tag env"] refused assms(2,3) show ?thesis
    by (simp add: no_call_def)
next
  case panic
  then show ?thesis using assms(2) by simp
next
  case (ended cid call)
  with assms(2) cleanup_call_releases [OF router_reach_inv [OF assms(1)] ended(2), of rt call effs]
  show ?thesis by auto
qed

theorem bye_releases_witness:
  "\<exists>effs rt'. call_released ''c-1'' ex_answered ex_talking effs rt'"
proof -
  obtain effs rt' where b: "handle_bye ex_router_cfg ex_call_env (ex_in_dialog ''BYE'') ''1001'' ex_talking =
     (Some (build_response (ex_in_dialog ''BYE'') 200 ''OK'' ''t1''), effs, rt')"
    using ex_bye by blast
  have "LF \<notin> set ''OK''" by (simp add: LF_def)
  then have "extract_status_code (build_response (ex_in_dialog ''BYE'') 200 ''OK'' ''t1'') = Some 200"
    by (rule built_status_plain) simp
  from bye_releases [OF ex_reach_talking b this] show ?thesis
    by (auto simp: ex_ending_fields ex_talking_fields)
qed

text \<open>C32: a refused call is released. A response with a status of 400 or more that names an active call
  ends it, whichever connection the response came on, and everything the call held is released.\<close>

theorem failure_response_ends_call:
  assumes "router_reach cfg lib rt" "\<not> rt_poisoned rt"
    and "extract_call_id response = Some cid" "hm_get (rt_calls rt) cid = Some call"
    and "extract_status_code response = Some status" "400 \<le> status"
  shows "\<exists>effs rt'. handle_callee_response cfg env response rt = (Some (), effs, rt') \<and>
     call_released cid call rt effs rt' \<and>
     (\<exists>m. Send_Text (ci_caller_sink call) m \<in> set effs)"
proof -
  let ?call = "call\<lparr>ci_state := Call_Terminated\<rparr>"
  let ?rt = "rt\<lparr>rt_calls := hm_insert cid ?call (rt_calls rt)\<rparr>"
  have u: "update_call (ce_lib env) status response call = Some ?call" using assms(6) by (simp add: update_call_def)
  have h: "handle_callee_response cfg env response rt = forward_response cfg env status response cid ?call ?rt"
    using assms u by (simp add: handle_callee_response_def Let_def)
  have a: "after_forwarding env status cid ?rt = cleanup_call cid ?rt" using assms(6) by (simp add: after_forwarding_def)
  have "\<exists>m. forward_response cfg env status response cid ?call ?rt =
      (Some (), Send_Text (ci_caller_sink call) m # fst (cleanup_call cid ?rt), snd (cleanup_call cid ?rt))"
    by (simp add: forward_response_def Let_def a case_prod_beta split: option.split)
  then obtain m where f: "forward_response cfg env status response cid ?call ?rt =
      (Some (), Send_Text (ci_caller_sink call) m # fst (cleanup_call cid ?rt), snd (cleanup_call cid ?rt))" ..
  have "call_released cid call rt (Send_Text (ci_caller_sink call) m # fst (cleanup_call cid ?rt)) (snd (cleanup_call cid ?rt))"
    by (rule cleanup_call_releases [OF router_reach_inv [OF assms(1)] assms(4), of ?rt]) auto
  with f h show ?thesis by auto
qed

theorem failure_response_ends_call_witness:
  "\<exists>effs rt'. handle_callee_response ex_router_cfg ex_call_env ex_busy ex_talking = (Some (), effs, rt') \<and>
     call_released ''c-1'' ex_answered ex_talking effs rt'"
  using failure_response_ends_call [OF ex_reach_talking ex_talking_fields(2) ex_ending_fields(5)
      ex_talking_fields(1) ex_ending_fields(6), where env = ex_call_env] by auto

section \<open>A second INVITE\<close>

lemma connect_call_entry:
  "hm_get (rt_calls (snd (snd (connect_call cfg env request body cid caller callee sink sink' tg crypto session rt)))) cid
     \<in> {hm_get (rt_calls rt) cid, None} \<union> Some ` {call. ci_original_invite call = request}"
  by (simp add: connect_call_def Let_def case_prod_beta new_call_info_def split: option.split)

lemma reach_callee_entry:
  "hm_get (rt_calls (snd (snd (reach_callee cfg env request cid caller callee sink rt)))) cid
     \<in> {hm_get (rt_calls rt) cid, None} \<union> Some ` {call. ci_original_invite call = request}"
proof -
  have "hm_get (rt_calls (snd (snd (connect_call cfg env request body cid caller callee sink sink' tg crypto session
        (rt\<lparr>rt_media := mm\<rparr>))))) cid
     \<in> {hm_get (rt_calls rt) cid, None} \<union> Some ` {call. ci_original_invite call = request}"
    for body sink' tg crypto session mm
    using connect_call_entry [of cfg env request body cid caller callee sink sink' tg crypto session "rt\<lparr>rt_media := mm\<rparr>"]
    by simp
  then show ?thesis by (simp add: reach_callee_def Let_def split: option.split prod.split)
qed

text \<open>C33: an INVITE tears down the call it names. An INVITE that passes the checks of the caller and
  carries the \<open>Call-ID\<close> of an active call, a re-INVITE of that call or one of another extension,
  removes the old entry and stops its relay before anything else is looked at: what
  is left is no call or a new one, even if the INVITE is then refused.\<close>

theorem invite_replaces_call:
  assumes "router_reach cfg lib rt" "\<not> rt_poisoned rt"
    and "\<not> is_blocked (rc_reg cfg) (ip_text from_addr) (rt_registrar rt)"
    and "caller_extension request = Some caller" "caller \<noteq> []"
    and "is_registered (ce_now env) caller (rt_registrar rt)"
    and "connection_may_call (ce_now env) caller sink from_addr ext (rt_registrar rt)"
    and "extract_called_extension request = Some callee"
    and "from_tag_of request = Some tag"
    and "extract_call_id request = Some cid" "hm_get (rt_calls rt) cid = Some call"
    and "handle_invite cfg env request sink from_addr ext rt = (r, effs, rt')"
  shows "(hm_get (rt_calls rt') cid = None \<or>
       (\<exists>new. hm_get (rt_calls rt') cid = Some new \<and> ci_original_invite new = request)) \<and>
     (ci_relay_started call \<longrightarrow>
        (\<exists>ch. hm_get (mm_shutdown_senders (rt_media rt)) cid = Some ch \<and> Stop_Relay ch \<in> set effs))"
proof -
  let ?rt0 = "snd (cleanup_call cid rt)"
  let ?r = "reach_callee cfg env request cid caller (case callee of Some c \<Rightarrow> c | None \<Rightarrow> []) sink ?rt0"
  have p: "handle_invite cfg env request sink from_addr ext rt =
      (fst ?r, fst (cleanup_call cid rt) @ fst (snd ?r), snd (snd ?r))"
    using assms by (simp add: handle_invite_def Let_def place_call_def case_prod_beta)
  have "call_released cid call rt effs ?rt0"
    by (rule cleanup_call_releases [OF router_reach_inv [OF assms(1)] assms(11), of rt]) (use p assms(12) in auto)
  moreover have "hm_get (rt_calls rt') cid \<in> {None} \<union> Some ` {call. ci_original_invite call = request}"
    using reach_callee_entry [of cfg env request cid caller "case callee of Some c \<Rightarrow> c | None \<Rightarrow> []" sink ?rt0,
        unfolded cleanup_call_gone] p assms(12)
    by simp
  ultimately show ?thesis by (auto simp: call_released_def)
qed

theorem invite_replaces_call_witness:
  "\<exists>effs rt' r ch. handle_invite ex_router_cfg ex_call_env ex_call_invite (Stream 1) ex_peer (Some ''1001'') ex_talking =
     (r, effs, rt') \<and> Stop_Relay ch \<in> set effs"
proof -
  have on: "is_registered (ce_now ex_call_env) ''1001'' (rt_registrar ex_talking)"
     "\<not> is_blocked (rc_reg ex_router_cfg) (ip_text ex_peer) (rt_registrar ex_talking)"
    using ex_signed_on_facts by (simp_all add: Let_def ex_talking_fields ex_env_fields ex_peer_def)
  obtain r effs rt' where i: "handle_invite ex_router_cfg ex_call_env ex_call_invite (Stream 1) ex_peer (Some ''1001'')
     ex_talking = (r, effs, rt')" by (cases "handle_invite ex_router_cfg ex_call_env ex_call_invite (Stream 1) ex_peer
       (Some ''1001'') ex_talking")
  have "''1001'' \<noteq> []" by simp
  from invite_replaces_call [OF ex_reach_talking ex_talking_fields(2) on(2) ex_invite_fields(1) this on(1)
      ex_connection ex_invite_fields(2,4,3) ex_talking_fields(1) i] i ex_talking_fields(4)
  show ?thesis by auto
qed

end
