(* ===== verification/Call_Poison.thy ===== *)
theory Call_Poison
  imports Call_Lifetime
begin

text \<open>
  Panics of \<open>src/sip/router.rs\<close> while a handler holds the write lock of the table of calls. The lock is
  poisoned then, and every handler that takes it afterwards panics.
\<close>

section \<open>A poisoned table\<close>

lemma place_call_poisoned: "rt_poisoned rt \<Longrightarrow> place_call cfg env request caller callee sink rt = (None, [], rt)"
  by (simp add: place_call_def)

lemma poisoned_stays:
  assumes "router_step cfg lib rt effs rt'" "rt_poisoned rt"
  shows "rt_poisoned rt'"
  using assms
proof (induction rule: router_step.induct)
  case (invite env request sink from_addr ext rt r effs rt')
  then have "rt' = snd (snd (handle_invite cfg env request sink from_addr ext rt))" by simp
  with invite(3) show ?case
    by (simp add: handle_invite_def Let_def refuse_caller_def place_call_poisoned split: option.split)
next
  case (response env request rt u effs rt')
  then show ?case by (auto simp: handle_callee_response_def split: option.splits)
next
  case (ack env request rt u effs rt')
  then show ?case by (auto simp: handle_ack_def split: option.splits)
next
  case (bye env request from_ext rt r effs rt')
  then show ?case by (auto simp: handle_bye_def no_call_def split: option.splits)
next
  case (cancel env request rt r effs rt')
  then show ?case by (auto simp: handle_cancel_def no_call_def split: option.splits)
qed (simp_all add: register_writer_def unregister_writer_def)

inductive router_steps :: "router_config \<Rightarrow> crypto_lib \<Rightarrow> router \<Rightarrow> router \<Rightarrow> bool" for cfg lib where
  none: "router_steps cfg lib rt rt"
| more: "router_steps cfg lib rt rt1 \<Longrightarrow> router_step cfg lib rt1 effs rt' \<Longrightarrow> router_steps cfg lib rt rt'"

lemma poisoned_stays_steps: "router_steps cfg lib rt rt' \<Longrightarrow> rt_poisoned rt \<Longrightarrow> rt_poisoned rt'"
  by (induction rule: router_steps.induct) (auto intro: poisoned_stays)

text \<open>No call can be made, answered, acknowledged, hung up or cancelled: every handler that reaches the
  table panics.\<close>

definition calls_stopped :: "router_config \<Rightarrow> router \<Rightarrow> bool" where
  "calls_stopped cfg rt \<longleftrightarrow>
     (\<forall>env request. extract_call_id request \<noteq> None \<longrightarrow>
        (\<forall>from_ext. fst (handle_bye cfg env request from_ext rt) = None) \<and>
        fst (handle_cancel cfg env request rt) = None \<and> fst (handle_ack cfg env request rt) = None \<and>
        (extract_status_code request \<noteq> None \<longrightarrow> fst (handle_callee_response cfg env request rt) = None)) \<and>
     (\<forall>env request sink from_addr ext caller.
        \<not> is_blocked (rc_reg cfg) (ip_text from_addr) (rt_registrar rt) \<longrightarrow>
        caller_extension request = Some caller \<longrightarrow> caller \<noteq> [] \<longrightarrow>
        is_registered (ce_now env) caller (rt_registrar rt) \<longrightarrow>
        connection_may_call (ce_now env) caller sink from_addr ext (rt_registrar rt) \<longrightarrow>
        fst (handle_invite cfg env request sink from_addr ext rt) = None)"

lemma poisoned_stops_calls:
  assumes p: "rt_poisoned rt"
  shows "calls_stopped cfg rt"
proof -
  have "fst (handle_bye cfg env request from_ext rt) = None" "fst (handle_cancel cfg env request rt) = None"
    "fst (handle_ack cfg env request rt) = None"
    "extract_status_code request \<noteq> None \<Longrightarrow> fst (handle_callee_response cfg env request rt) = None"
    if "extract_call_id request \<noteq> None" for env request from_ext
    using that p by (auto simp: handle_bye_def handle_cancel_def handle_ack_def handle_callee_response_def split: option.split)
  moreover have "fst (handle_invite cfg env request sink from_addr ext rt) = None"
    if "\<not> is_blocked (rc_reg cfg) (ip_text from_addr) (rt_registrar rt)" "caller_extension request = Some caller"
      "caller \<noteq> []" "is_registered (ce_now env) caller (rt_registrar rt)"
      "connection_may_call (ce_now env) caller sink from_addr ext (rt_registrar rt)"
    for env request sink from_addr ext caller
    using that p by (cases "extract_called_extension request") (simp_all add: handle_invite_def Let_def place_call_poisoned)
  ultimately show ?thesis unfolding calls_stopped_def by blast
qed

text \<open>One malformed answer stops all calls. A 200 response to an active call whose \<open>Contact\<close> makes
  \<open>extract_contact_uri\<close> panic does so under the write lock of the table of calls. From
  then on, in every later state, every BYE, CANCEL, ACK and response that names a call panics,
  and so does every INVITE that passes the checks of the caller.\<close>

theorem malformed_contact_poisons:
  assumes "extract_call_id response = Some cid" "extract_status_code response = Some 200"
    and "hm_get (rt_calls rt) cid = Some call" "ci_callee_remote_contact call = None"
    and "extract_contact_uri response = None"
    and "router_steps cfg lib (snd (snd (handle_callee_response cfg env response rt))) rt'"
  shows "fst (handle_callee_response cfg env response rt) = None \<and> calls_stopped cfg rt'"
proof -
  have "update_call (ce_lib env) 200 response call = None"
    using assms(4,5) by (auto simp: update_call_def learn_callee_tag_def split: option.split)
  then have h: "fst (handle_callee_response cfg env response rt) = None"
    "rt_poisoned (snd (snd (handle_callee_response cfg env response rt)))"
    using assms(1-3) by (simp_all add: handle_callee_response_def)
  with poisoned_stops_calls [OF poisoned_stays_steps [OF assms(6) h(2)]] show ?thesis by blast
qed

theorem malformed_contact_poisons_witness:
  "fst (handle_callee_response ex_router_cfg ex_call_env (ex_answer ''>sip:1002@10.0.0.8<'') ex_ringing) = None"
proof -
  let ?r = "ex_answer ''>sip:1002@10.0.0.8<''"
  have r: "extract_call_id ?r = Some ''c-1''" "extract_status_code ?r = Some 200" "extract_contact_uri ?r = None"
    by code_simp+
  have "hm_get (rt_calls ex_ringing) ''c-1'' = Some ex_call" by (simp add: ex_ringing_def)
  moreover have "ci_callee_remote_contact ex_call = None" by (simp add: ex_call_def new_call_info_def)
  ultimately show ?thesis
    using malformed_contact_poisons [OF r(1,2) _ _ r(3) router_steps.none] by blast
qed

section \<open>A letter that grows in lower case\<close>

text \<open>The capital I with a dot above. Each one before a parameter moves the offset that is found in the
  lower case line one byte too far in the line itself.\<close>

definition dotted_I :: string where "dotted_I = [CHR 0xC4, CHR 0xB0]"

abbreviation dots :: "nat \<Rightarrow> string" where "dots n \<equiv> concat (replicate n dotted_I)"

lemma dots_lower: "to_lowercase (dots n @ s) = concat (replicate n [CHR ''i'', CHR 0xCC, CHR 0x87]) @ to_lowercase s"
  by (induction n) (simp_all add: dotted_I_def)

lemma to_lowercase_Cons: "CHR 0xC4 \<noteq> c \<Longrightarrow> to_lowercase (c # s) = to_lower_char c # to_lowercase s"
  by (cases s) (auto simp: to_lower_def)

lemma to_lowercase_append: "CHR 0xC4 \<notin> set p \<Longrightarrow> to_lowercase (p @ s) = to_lower p @ to_lowercase s"
  by (induction p) (simp_all add: to_lowercase_Cons to_lower_def)

text \<open>The first occurrence of a key that ends with a character that does not come before.\<close>

lemma find_str_key:
  assumes "x \<notin> set a" "x \<notin> set q"
  shows "find_str (q @ [x]) (a @ q @ x # b) = Some (length a)"
  using assms(1)
proof (induction a)
  case Nil
  have "starts_with (q @ x # b) (q @ [x])" by (auto simp: starts_with_iff)
  then show ?case by (cases "q @ x # b") auto
next
  case (Cons c a)
  have "\<not> starts_with (c # a @ q @ x # b) (q @ [x])"
  proof
    assume "starts_with (c # a @ q @ x # b) (q @ [x])"
    then obtain t where "c # a @ q @ x # b = q @ x # t" by (auto simp: starts_with_iff)
    then have "takeWhile (\<lambda>d. d \<noteq> x) ((c # a @ q) @ x # b) = takeWhile (\<lambda>d. d \<noteq> x) (q @ x # t)" by simp
    moreover have "takeWhile (\<lambda>d. d \<noteq> x) (u @ x # v) = u" if "x \<notin> set u" for u v
      using that by (induction u) auto
    ultimately have "c # a @ q = q" using Cons.prems assms(2) by (metis Un_iff list.set_intros set_ConsD set_append)
    then have "length (c # a @ q) = length q" by (rule arg_cong)
    then show False by simp
  qed
  then show ?case using Cons by simp
qed

definition grown_line :: "string \<Rightarrow> nat \<Rightarrow> string \<Rightarrow> string \<Rightarrow> string" where
  "grown_line name n uri tag = name @ '': '' @ dots n @ uri @ ''tag='' @ tag"

lemma to_lower_char_equals: "to_lower_char c = CHR ''='' \<longleftrightarrow> c = CHR ''=''"
proof -
  have "(of_char (char_of (n + 32) :: char) :: nat) \<noteq> 61" if "65 \<le> n" "n \<le> 90" for n :: nat using that by simp
  moreover have "(of_char (CHR ''='') :: nat) = 61" by simp
  ultimately have "char_of (n + 32) \<noteq> CHR ''=''" if "65 \<le> n" "n \<le> 90" for n :: nat using that by metis
  then show ?thesis by (auto simp: to_lower_char.simps Let_def)
qed

lemma equals_to_lower: "CHR ''='' \<in> set (to_lower s) \<longleftrightarrow> CHR ''='' \<in> set s"
  unfolding to_lower_def set_map image_iff using to_lower_char_equals by metis

lemma grown_offset:
  assumes "name \<in> {''From'', ''To''}" "CHR ''='' \<notin> set uri" "CHR 0xC4 \<notin> set uri" "CHR 0xC4 \<notin> set tag"
  shows "find_str ''tag='' (to_lowercase (grown_line name n uri tag)) = Some (length name + 2 + 3 * n + length uri)"
    "length (grown_line name n uri tag) = length name + 2 + 2 * n + length uri + 4 + length tag"
proof -
  let ?a = "to_lower (name @ '': '') @ concat (replicate n [CHR ''i'', CHR 0xCC, CHR 0x87]) @ to_lower uri"
  have n: "CHR 0xC4 \<notin> set (name @ '': '')" "CHR ''='' \<notin> set (name @ '': '')" using assms(1) by auto
  have "to_lowercase tag = to_lower tag" using to_lowercase_append [OF assms(4), of "[]"] by simp
  then have l: "to_lowercase (grown_line name n uri tag) = ?a @ ''tag'' @ CHR ''='' # to_lower tag"
    using to_lowercase_append [OF n(1), of "dots n @ uri @ ''tag='' @ tag"]
      to_lowercase_append [OF assms(3), of "''tag='' @ tag"] to_lowercase_append [of "''tag=''" tag]
    by (simp add: grown_line_def dots_lower) (simp add: to_lower_def to_lower_char.simps)
  have a: "CHR ''='' \<notin> set ?a" using n(2) assms(2) by (simp add: equals_to_lower)
  have "length ?a = length name + 2 + 3 * n + length uri"
    by (simp add: length_concat sum_list_replicate)
  then show "find_str ''tag='' (to_lowercase (grown_line name n uri tag)) = Some (length name + 2 + 3 * n + length uri)"
    using find_str_key [OF a, of "''tag''" "to_lower tag"] unfolding l by simp
  show "length (grown_line name n uri tag) = length name + 2 + 2 * n + length uri + 4 + length tag"
    by (simp add: grown_line_def dotted_I_def length_concat sum_list_replicate)
qed

lemma grown_param_panics:
  assumes "name \<in> {''From'', ''To''}" "CHR ''='' \<notin> set uri" "CHR 0xC4 \<notin> set uri" "CHR 0xC4 \<notin> set tag"
    and "tag \<noteq> []" "\<not> is_ws (last tag)" "length tag < n"
    and "\<forall>l \<in> set before. \<not> starts_with (to_lowercase (trim l)) h1 \<and> \<not> starts_with (to_lowercase (trim l)) h2"
    and "h1 = to_lower name @ '':''"
  shows "header_param h1 h2 ''tag='' (before @ grown_line name n uri tag # rest) = None"
  using assms(8)
proof (induction before)
  case Nil
  let ?l = "grown_line name n uri tag"
  have "hd ?l \<in> {CHR ''F'', CHR ''T''}" "last ?l = last tag" "?l \<noteq> []"
    using assms(1,5) by (auto simp: grown_line_def)
  then have t: "trim ?l = ?l" using assms(6) by (intro trim_id) (auto simp: is_ws_def)
  have "CHR 0xC4 \<notin> set (name @ '': '')" using assms(1) by auto
  from to_lowercase_append [OF this, of "dots n @ uri @ ''tag='' @ tag"]
  have "to_lowercase ?l = to_lower (name @ '': '') @ to_lowercase (dots n @ uri @ ''tag='' @ tag)"
    by (simp add: grown_line_def)
  moreover have "to_lower (name @ '': '') = h1 @ '' ''"
    using assms(1,9) by (auto simp: to_lower_def to_lower_char.simps)
  ultimately have h: "starts_with (to_lowercase ?l) h1" by simp
  show ?case using t h assms(7)
    by (simp add: grown_offset [OF assms(1-4)] slice_from_beyond)
next
  case (Cons l before)
  then show ?case by (simp add: Let_def)
qed


definition ex_grown_cancel :: string where
  "ex_grown_cancel = unlines
     [''CANCEL sip:1002@pbx SIP/2.0'', grown_line ''From'' 2 '' <sip:9@x>;'' ''1'', ''Call-ID: c-1'', ''CSeq: 1 CANCEL''] @ CRLF"


end
