(* ===== verification/Call_Tasks.thy ===== *)
theory Call_Tasks
  imports Call_Relays Call_Media Call_Lifetime
begin

text \<open>
  The handlers of \<open>src/sip/router.rs\<close> as tasks. A handler gives up control while it waits for a
  send, and the channel of a TLS connection holds only 64 messages, so a slow peer can keep a
  handler there for long; whatever other tasks do meanwhile, the rest of the handler runs
  afterwards. Here each handler is cut at its awaits: a beginning, which ends with a send, and
  what is pending after it. The handlers of \<open>Call_Router\<close> are these parts run without interference;
  the invariants hold however the parts interleave.
\<close>

section \<open>What is left of a handler\<close>

text \<open>
  A pending task waits for its last send. The list is what it will answer to its request: the
  response, or nothing for the handlers that have no answer. \<open>Ended None\<close> is a panic.
\<close>

datatype pending =
  Ended "string list may_panic"
| Then_Cleanup string "string list"
| Then_Response nat string
| Then_Cancel string string "string list"

type_synonym task_result = "call_effect list \<times> router \<times> pending"

text \<open>The next part of a task, up to its next send or its end.\<close>

fun resume :: "call_env \<Rightarrow> pending \<Rightarrow> router \<Rightarrow> task_result" where
  "resume env (Ended a) rt = ([], rt, Ended a)"
| "resume env (Then_Cleanup call_id answer) rt =
     (if rt_poisoned rt then ([], rt, Ended None)
      else case cleanup_call call_id rt of (effs, rt1) \<Rightarrow> (effs, rt1, Ended (Some answer)))"
| "resume env (Then_Response status call_id) rt =
     (if rt_poisoned rt \<and> (status = 200 \<or> 400 \<le> status) then ([], rt, Ended None)
      else case after_forwarding env status call_id rt of (effs, rt1) \<Rightarrow> (effs, rt1, Ended (Some [])))"
| "resume env (Then_Cancel call_id original_invite answer) rt =
     (if rt_poisoned rt then ([], rt, Ended None)
      else
        (case hm_get (rt_calls rt) call_id of
           Some call \<Rightarrow>
             ([Send_Text (ci_caller_sink call)
                 (build_response original_invite 487 ''Request Terminated'' (ce_tag2 env))],
              rt, Then_Cleanup call_id answer)
         | None \<Rightarrow> ([], rt, Ended (Some answer))))"

section \<open>The beginnings\<close>

text \<open>
  INVITE: the call is entered into the table before its INVITE is sent, so up to there nothing
  depends on how the send ends. When it fails the clean-up is pending.
\<close>

definition begin_invite ::
  "router_config \<Rightarrow> call_env \<Rightarrow> string \<Rightarrow> connection_sink \<Rightarrow> socket_addr \<Rightarrow> string option \<Rightarrow> router
     \<Rightarrow> task_result" where
  "begin_invite cfg env request caller_sink from_addr connection_ext rt =
     (case handle_invite cfg (env\<lparr>ce_send := (\<lambda>sink m. True)\<rparr>) request caller_sink from_addr connection_ext rt of
        (answer, effs, rt1) \<Rightarrow>
          (effs, rt1,
           (case rev effs of
              Send_Text sink invite # _ \<Rightarrow>
                if ce_send env sink invite then Ended (map_option (\<lambda>a. [a]) answer)
                else Then_Cleanup (case extract_call_id request of Some i \<Rightarrow> i | None \<Rightarrow> [])
                       [build_response request 500 ''Internal Server Error'' (ce_tag env)]
            | _ \<Rightarrow> Ended (map_option (\<lambda>a. [a]) answer))))"

text \<open>What the caller is sent for a response of the callee, and what follows.\<close>

definition forwarded_response ::
  "router_config \<Rightarrow> call_env \<Rightarrow> nat \<Rightarrow> string \<Rightarrow> string \<Rightarrow> call_info \<Rightarrow> string \<times> pending" where
  "forwarded_response cfg env status response call_id call =
     (let contact = server_contact_uri (ci_callee_ext call) (rc_domain cfg) (sink_transport (ci_caller_sink call));
          forwarded = build_forwarded_invite_response (ci_original_invite call) response status
      in case extract_body response of
           Some body \<Rightarrow>
             (case ci_caller_local_crypto call of
                None \<Rightarrow>
                  (build_response (ci_original_invite call) 500 ''Internal Server Error'' (ce_tag2 env),
                   Then_Cleanup call_id [])
              | Some caller_crypto \<Rightarrow>
                  (forwarded (reason_with_body status response) contact
                     (answer_sdp cfg (ce_lib env) call caller_crypto body),
                   Then_Response status call_id))
         | None \<Rightarrow> (forwarded (reason_without_body status response) contact [], Then_Response status call_id))"

definition begin_response :: "router_config \<Rightarrow> call_env \<Rightarrow> string \<Rightarrow> router \<Rightarrow> task_result" where
  "begin_response cfg env response rt =
     (case extract_call_id response of
        None \<Rightarrow> ([], rt, Ended (Some []))
      | Some call_id \<Rightarrow>
          (case extract_status_code response of
             None \<Rightarrow> ([], rt, Ended (Some []))
           | Some status \<Rightarrow>
               if rt_poisoned rt then ([], rt, Ended None)
               else
                 (case hm_get (rt_calls rt) call_id of
                    None \<Rightarrow> ([], rt, Ended (Some []))
                  | Some call0 \<Rightarrow>
                      (case update_call (ce_lib env) status response call0 of
                         None \<Rightarrow> ([], rt\<lparr>rt_poisoned := True\<rparr>, Ended None)
                       | Some call \<Rightarrow>
                           (case (if status = 200 \<and> ci_callee_remote_crypto call = None
                                  then (build_response (ci_original_invite call) 488 ''Not Acceptable Here'' (ce_tag2 env),
                                        Then_Cleanup call_id [])
                                  else forwarded_response cfg env status response call_id call) of
                              (sent, left) \<Rightarrow>
                                ([Send_Text (ci_caller_sink call) sent],
                                 rt\<lparr>rt_calls := hm_insert call_id call (rt_calls rt)\<rparr>, left))))))"

definition begin_bye :: "router_config \<Rightarrow> call_env \<Rightarrow> string \<Rightarrow> string \<Rightarrow> router \<Rightarrow> task_result" where
  "begin_bye cfg env request from_extension rt =
     (let refuse = ([], rt, Ended (Some [build_response request 481 ''Call/Transaction Does Not Exist'' (ce_tag env)]));
          ok = [build_response request 200 ''OK'' (ce_tag env)]
      in case extract_call_id request of
           None \<Rightarrow> refuse
         | Some call_id \<Rightarrow>
             (case from_tag_of request of
                None \<Rightarrow> ([], rt, Ended None)
              | Some from_tag \<Rightarrow>
                  if rt_poisoned rt then ([], rt, Ended None)
                  else
                    (case hm_get (rt_calls rt) call_id of
                       None \<Rightarrow> refuse
                     | Some call \<Rightarrow>
                         if \<not> bye_from_caller_side from_tag from_extension call \<and>
                            \<not> bye_from_callee_side from_tag from_extension call
                         then refuse
                         else
                           (case bye_target cfg (ce_now env) from_tag from_extension call rt of
                              (Some sink, target) \<Rightarrow>
                                ([forward_in_dialog cfg env request target sink], rt, Then_Cleanup call_id ok)
                            | (None, target) \<Rightarrow> resume env (Then_Cleanup call_id ok) rt))))"

definition begin_cancel :: "router_config \<Rightarrow> call_env \<Rightarrow> string \<Rightarrow> router \<Rightarrow> task_result" where
  "begin_cancel cfg env request rt =
     (let refuse = ([], rt, Ended (Some [build_response request 481 ''Call/Transaction Does Not Exist'' (ce_tag env)]));
          ok = [build_response request 200 ''OK'' (ce_tag env)]
      in case extract_call_id request of
           None \<Rightarrow> refuse
         | Some call_id \<Rightarrow>
             if rt_poisoned rt then ([], rt, Ended None)
             else
               (case hm_get (rt_calls rt) call_id of
                  None \<Rightarrow> refuse
                | Some call0 \<Rightarrow>
                    (case from_tag_of request of
                       None \<Rightarrow> ([], rt\<lparr>rt_poisoned := True\<rparr>, Ended None)
                     | Some from_tag \<Rightarrow>
                     if from_tag = [] \<or> from_tag \<noteq> ci_caller_tag call0 then refuse
                     else
                       (let call = call0\<lparr>ci_state := Call_Terminated\<rparr>;
                            rt1 = rt\<lparr>rt_calls := hm_insert call_id call (rt_calls rt)\<rparr>;
                            target = remote_target cfg (ce_now env) (ci_callee_remote_contact call)
                                       (ci_callee_ext call) rt1
                        in case ci_callee_sink call of
                             Some sink \<Rightarrow>
                               ([forward_in_dialog cfg env request target sink], rt1,
                                Then_Cancel call_id (ci_original_invite call) ok)
                           | None \<Rightarrow> resume env (Then_Cleanup call_id ok) rt1))))"

section \<open>Run alone, the parts are the handlers\<close>

text \<open>A task resumed until its end, nothing in between: there are at most two more parts.\<close>

definition run_task :: "call_env \<Rightarrow> task_result \<Rightarrow> pending \<times> call_effect list \<times> router" where
  "run_task env r =
     (case r of (effs, rt, p) \<Rightarrow>
        (case resume env p rt of (effs1, rt1, p1) \<Rightarrow>
           (case resume env p1 rt1 of (effs2, rt2, p2) \<Rightarrow> (p2, effs @ effs1 @ effs2, rt2))))"

definition answered :: "('a \<Rightarrow> string list) \<Rightarrow> 'a handled \<Rightarrow> pending \<times> call_effect list \<times> router" where
  "answered f h = (case h of (r, effs, rt) \<Rightarrow> (Ended (map_option f r), effs, rt))"

lemma cleanup_poisoned: "rt_poisoned (snd (cleanup_call cid rt)) = rt_poisoned rt"
  by simp

lemma response_alone:
  "run_task env (begin_response cfg env response rt) = answered (\<lambda>u. []) (handle_callee_response cfg env response rt)"
  by (auto simp: begin_response_def handle_callee_response_def forwarded_response_def forward_response_def
      run_task_def answered_def Let_def split: option.splits prod.splits if_splits)

lemma bye_alone:
  "run_task env (begin_bye cfg env request from_ext rt) = answered (\<lambda>a. [a]) (handle_bye cfg env request from_ext rt)"
  by (auto simp: begin_bye_def handle_bye_def no_call_def run_task_def answered_def Let_def
      split: option.splits prod.splits if_splits)

lemma cancel_alone:
  "run_task env (begin_cancel cfg env request rt) = answered (\<lambda>a. [a]) (handle_cancel cfg env request rt)"
  by (auto simp: begin_cancel_def handle_cancel_def no_call_def run_task_def answered_def Let_def
      split: option.splits prod.splits if_splits)

text \<open>The INVITE: only the outcome of the send to the callee is left open.\<close>

abbreviation any_send :: "call_env \<Rightarrow> call_env" where
  "any_send env \<equiv> env\<lparr>ce_send := (\<lambda>sink m. True)\<rparr>"

lemma any_send_frame:
  "callee_invite cfg (any_send env) = callee_invite cfg env" "new_call_info (any_send env) = new_call_info env"
  "refuse_caller cfg (any_send env) = refuse_caller cfg env"
  by (simp_all add: fun_eq_iff callee_invite_def new_call_info_def refuse_caller_def)

text \<open>How a part of the INVITE handler relates to the part with its send left open.\<close>

definition send_left_open :: "call_env \<Rightarrow> string \<Rightarrow> string \<Rightarrow> string handled \<Rightarrow> string handled \<Rightarrow> bool" where
  "send_left_open env request call_id left whole \<longleftrightarrow>
     (case left of (answer, effs, rt) \<Rightarrow>
        (case rev effs of
           Send_Text sink invite # _ \<Rightarrow>
             \<not> rt_poisoned rt \<and>
             whole = (if ce_send env sink invite then left
               else (Some (build_response request 500 ''Internal Server Error'' (ce_tag env)),
                     effs @ fst (cleanup_call call_id rt), snd (cleanup_call call_id rt)))
         | _ \<Rightarrow> whole = left))"

lemma connect_open:
  assumes "\<not> rt_poisoned rt"
  shows "send_left_open env request cid
     (connect_call cfg (any_send env) request body cid caller callee sink sink' tg crypto session rt)
     (connect_call cfg env request body cid caller callee sink sink' tg crypto session rt)"
  using assms by (simp add: send_left_open_def connect_call_def any_send_frame Let_def case_prod_beta split: option.split)

lemma open_same: "rev effs = [] \<or> (\<exists>ch r. rev effs = Stop_Relay ch # r) \<Longrightarrow> send_left_open env request cid (a, effs, rt) (a, effs, rt)"
  by (auto simp: send_left_open_def)

lemma reach_open:
  assumes "\<not> rt_poisoned rt"
  shows "send_left_open env request cid (reach_callee cfg (any_send env) request cid caller callee sink rt)
     (reach_callee cfg env request cid caller callee sink rt)"
proof -
  have c: "send_left_open env request cid
     (connect_call cfg (any_send env) request body cid caller callee sink sink' tg crypto session (rt\<lparr>rt_media := mm\<rparr>))
     (connect_call cfg env request body cid caller callee sink sink' tg crypto session (rt\<lparr>rt_media := mm\<rparr>))"
    for body sink' tg crypto session mm
    by (rule connect_open) (simp add: assms)
  show ?thesis
    using c by (auto simp: reach_callee_def Let_def intro: open_same split: option.split prod.split)
qed

lemma open_prefix:
  assumes "send_left_open env request cid (a, effs, rt) (b, effs', rt')" "\<And>s m. Send_Text s m \<notin> set effs0"
  shows "send_left_open env request cid (a, effs0 @ effs, rt) (b, effs0 @ effs', rt')"
proof (cases "effs = []")
  case True
  then have "(b, effs', rt') = (a, effs, rt)" using assms(1) by (simp add: send_left_open_def)
  moreover have "hd (rev effs0) \<noteq> Send_Text s m" if "effs0 \<noteq> []" for s m
    using assms(2) [of s m] that by (metis hd_rev last_in_set)
  ultimately show ?thesis using True
    by (cases "rev effs0") (auto simp: send_left_open_def split: call_effect.split)
next
  case False
  then obtain e r where "rev effs = e # r" by (cases "rev effs") auto
  with assms(1) show ?thesis by (cases e) (auto simp: send_left_open_def split: if_splits)
qed

lemma place_open:
  "send_left_open env request (case extract_call_id request of Some i \<Rightarrow> i | None \<Rightarrow> [])
     (place_call cfg (any_send env) request caller callee sink rt) (place_call cfg env request caller callee sink rt)"
proof (cases "from_tag_of request = None \<or> rt_poisoned rt")
  case True
  then show ?thesis by (auto simp: place_call_def open_same)
next
  case False
  let ?cid = "case extract_call_id request of Some i \<Rightarrow> i | None \<Rightarrow> []"
  let ?rt = "snd (cleanup_call ?cid rt)"
  obtain tag where tag: "from_tag_of request = Some tag" using False by (cases "from_tag_of request") auto
  have r: "send_left_open env request ?cid (reach_callee cfg (any_send env) request ?cid caller callee sink ?rt)
      (reach_callee cfg env request ?cid caller callee sink ?rt)"
    by (rule reach_open) (use False in simp)
  obtain a effs rt1 b effs' rt2 where
    "reach_callee cfg (any_send env) request ?cid caller callee sink ?rt = (a, effs, rt1)"
    "reach_callee cfg env request ?cid caller callee sink ?rt = (b, effs', rt2)"
    by (metis prod_cases3)
  with r False tag open_prefix [OF _ cleanup_effects(2)] show ?thesis
    by (simp add: place_call_def Let_def case_prod_beta)
qed

lemma invite_open:
  "send_left_open env request (case extract_call_id request of Some i \<Rightarrow> i | None \<Rightarrow> [])
     (handle_invite cfg (any_send env) request sink from_addr ext rt) (handle_invite cfg env request sink from_addr ext rt)"
    (is "send_left_open _ _ ?cid _ _")
proof -
  obtain cid where cid: "?cid = cid" by blast
  have "send_left_open env request cid (place_call cfg (any_send env) request caller callee sink rt)
     (place_call cfg env request caller callee sink rt)" for caller callee
    using place_open [of env request] unfolding cid .
  then show ?thesis unfolding cid
    by (simp add: handle_invite_def any_send_frame refuse_caller_def Let_def open_same split: option.split)
qed

lemma invite_alone:
  "run_task env (begin_invite cfg env request sink from_addr ext rt) =
     answered (\<lambda>a. [a]) (handle_invite cfg env request sink from_addr ext rt)"
proof -
  obtain a effs rt1 where l: "handle_invite cfg (any_send env) request sink from_addr ext rt = (a, effs, rt1)"
    by (metis prod_cases3)
  show ?thesis
  proof (cases "rev effs")
    case Nil
    then show ?thesis using invite_open [of env request cfg sink from_addr ext rt] l
      by (simp add: begin_invite_def send_left_open_def run_task_def answered_def)
  next
    case (Cons e r)
    then show ?thesis using invite_open [of env request cfg sink from_addr ext rt] l
      by (cases e) (simp_all add: begin_invite_def send_left_open_def run_task_def answered_def case_prod_beta)
  qed
qed


section \<open>Histories in which the parts interleave\<close>

text \<open>
  The state and the tasks that wait. A handler begins at any time and any waiting task may be
  the next to go on; \<open>whole\<close> are the operations that never wait and the handlers that did not have
  to.
\<close>

inductive task_step ::
  "router_config \<Rightarrow> crypto_lib \<Rightarrow> router \<Rightarrow> pending list \<Rightarrow> call_effect list \<Rightarrow> router \<Rightarrow> pending list \<Rightarrow> bool"
  for cfg lib where
  whole: "router_step cfg lib rt effs rt' \<Longrightarrow> task_step cfg lib rt ps effs rt' ps"
| invite: "ce_lib env = lib \<Longrightarrow> begin_invite cfg env request sink from_addr ext rt = (effs, rt', p) \<Longrightarrow>
     task_step cfg lib rt ps effs rt' (p # ps)"
| response: "ce_lib env = lib \<Longrightarrow> begin_response cfg env response rt = (effs, rt', p) \<Longrightarrow>
     task_step cfg lib rt ps effs rt' (p # ps)"
| bye: "begin_bye cfg env request from_ext rt = (effs, rt', p) \<Longrightarrow> task_step cfg lib rt ps effs rt' (p # ps)"
| cancel: "begin_cancel cfg env request rt = (effs, rt', p) \<Longrightarrow> task_step cfg lib rt ps effs rt' (p # ps)"
| goes_on: "p \<in> set ps \<Longrightarrow> resume env p rt = (effs, rt', p') \<Longrightarrow>
     task_step cfg lib rt ps effs rt' (p' # remove1 p ps)"

inductive task_reach :: "router_config \<Rightarrow> crypto_lib \<Rightarrow> router \<Rightarrow> pending list \<Rightarrow> bool" for cfg lib where
  start: "task_reach cfg lib (router_new registrar_new (manager_new port_start port_end addr)) []"
| step: "task_reach cfg lib rt ps \<Longrightarrow> task_step cfg lib rt ps effs rt' ps' \<Longrightarrow> task_reach cfg lib rt' ps'"

text \<open>With the relays that run, as in \<open>relay_history\<close>.\<close>

inductive task_history ::
  "router_config \<Rightarrow> crypto_lib \<Rightarrow> nat set \<Rightarrow> router \<Rightarrow> pending list \<Rightarrow> bool" for cfg lib where
  start: "task_history cfg lib {} (router_new registrar_new (manager_new port_start port_end addr)) []"
| step: "task_history cfg lib running rt ps \<Longrightarrow> task_step cfg lib rt ps effs rt' ps' \<Longrightarrow>
     fresh_channels effs running \<Longrightarrow> task_history cfg lib (run_effects effs running) rt' ps'"

section \<open>Every part keeps the invariant and tells the truth about the relays\<close>

definition part_ok :: "crypto_lib \<Rightarrow> router \<Rightarrow> call_effect list \<Rightarrow> router \<Rightarrow> bool" where
  "part_ok lib rt effs rt' \<longleftrightarrow> (router_inv lib rt \<longrightarrow> router_inv lib rt' \<and> tracks rt effs rt') \<and>
     (\<forall>cid p q st ch. Start_Relay cid p q st ch \<in> set effs \<longrightarrow>
        (\<exists>call. hm_get (rt_calls rt') cid = Some call \<and> ci_callee_remote_crypto call \<noteq> None \<and>
           ci_relay_started call \<and> p = ci_caller_relay_port call \<and> q = ci_callee_relay_port call \<and>
           st = relay_contexts call))"

lemma part_same: "part_ok lib rt [] rt"
  by (simp add: part_ok_def tracks_same)

lemma part_panic: "part_ok lib rt [] (rt\<lparr>rt_poisoned := True\<rparr>)"
proof -
  have "router_inv lib rt \<Longrightarrow> router_inv lib (rt\<lparr>rt_poisoned := True\<rparr>)"
    by (rule router_inv_cong [of rt]) simp_all
  then show ?thesis by (auto simp: part_ok_def tracks_same)
qed

lemma part_cleanup: "part_ok lib rt (fst (cleanup_call cid rt)) (snd (cleanup_call cid rt))"
  using cleanup_effects(1) cleanup_call_inv tracks_cleanup by (auto simp: part_ok_def)

lemma part_send:
  assumes "router_inv lib rt \<Longrightarrow> router_inv lib rt'" "senders rt' = senders rt"
  shows "part_ok lib rt [Send_Text sink m] rt'"
  using assms by (simp add: part_ok_def tracks_send tracks_same)

lemma part_after: "part_ok lib rt (fst (after_forwarding env status cid rt)) (snd (after_forwarding env status cid rt))"
  using after_forwarding_inv [of lib rt env status cid] tracks_after [of lib rt env status cid] cleanup_effects(1)
  by (auto simp: part_ok_def after_forwarding_def start_media_relay_def relay_contexts_def split: option.splits if_splits)

lemma part_resume:
  assumes "resume env p rt = (effs, rt', p')"
  shows "part_ok lib rt effs rt'"
  using assms part_same part_cleanup [of lib rt] part_after [of lib rt env] part_send [of lib rt rt]
  by (cases p) (auto simp: case_prod_beta split: if_splits option.splits)

lemma part_invite:
  assumes "begin_invite cfg env request sink from_addr ext rt = (effs, rt', p)" "ce_lib env = lib"
  shows "part_ok lib rt effs rt'"
proof -
  let ?h = "handle_invite cfg (any_send env) request sink from_addr ext rt"
  have "effs = fst (snd ?h)" "rt' = snd (snd ?h)" using assms(1) by (auto simp: begin_invite_def case_prod_beta)
  moreover have "Start_Relay cid a b st ch \<notin> set (fst (snd ?h))" for cid a b st ch
    by (rule handle_invite_no_start)
  ultimately show ?thesis
    using handle_invite_inv [of "any_send env" rt cfg request sink from_addr ext] assms(2)
      tracks_invite [of rt cfg "any_send env" request sink from_addr ext]
    by (auto simp: part_ok_def)
qed

lemma part_response:
  assumes "begin_response cfg env response rt = (effs, rt', p)"
  shows "part_ok lib rt effs rt'"
proof (cases "effs = []")
  case True
  then have "rt' = rt \<or> rt' = rt\<lparr>rt_poisoned := True\<rparr>"
    using assms by (auto simp: begin_response_def split: option.splits if_splits prod.splits)
  then show ?thesis using True part_same part_panic by blast
next
  case False
  then obtain cid call0 status call m sink where "hm_get (rt_calls rt) cid = Some call0"
    "update_call (ce_lib env) status response call0 = Some call" "effs = [Send_Text sink m]"
    "rt' = rt\<lparr>rt_calls := hm_insert cid call (rt_calls rt)\<rparr>"
    using assms by (auto simp: begin_response_def split: option.splits if_splits prod.splits)
  then show ?thesis using updated_call_inv [of lib rt cid call0 "ce_lib env" status response call] by (auto intro: part_send)
qed

lemma part_bye:
  assumes "begin_bye cfg env request from_ext rt = (effs, rt', p)"
  shows "part_ok lib rt effs rt'"
  using assms part_same part_send [of lib rt rt] part_cleanup [of lib rt]
  by (auto simp: begin_bye_def forward_in_dialog_def Let_def case_prod_beta split: option.splits if_splits prod.splits)

lemma part_cancel:
  assumes "begin_cancel cfg env request rt = (effs, rt', p)"
  shows "part_ok lib rt effs rt'"
proof -
  have c: "part_ok lib rt (fst (cleanup_call cid rt1)) (snd (cleanup_call cid rt1))" and s: "part_ok lib rt [Send_Text sink m] rt1"
    if "hm_get (rt_calls rt) cid = Some call" "rt1 = terminated cid call rt" for cid call rt1 sink m
  proof -
    have i: "router_inv lib rt \<Longrightarrow> router_inv lib rt1" and n: "senders rt1 = senders rt"
      using terminated_inv [OF _ that(1)] that(2) by (simp_all add: terminated_def)
    then show "part_ok lib rt [Send_Text sink m] rt1" by (rule part_send)
    show "part_ok lib rt (fst (cleanup_call cid rt1)) (snd (cleanup_call cid rt1))"
      using i cleanup_call_inv tracks_cong [OF tracks_cleanup n] cleanup_effects(1) by (auto simp: part_ok_def)
  qed
  show ?thesis
    using assms c s part_same part_panic
    by (auto simp: begin_cancel_def forward_in_dialog_def terminated_def Let_def case_prod_beta
        split: option.splits if_splits)
qed

lemma part_step:
  assumes "task_step cfg lib rt ps effs rt' ps'"
  shows "part_ok lib rt effs rt'"
  using assms
proof (cases rule: task_step.cases)
  case whole
  then show ?thesis using router_step_inv [OF whole(2)] tracks_step [OF whole(2)] relay_origin [OF whole(2)]
    unfolding part_ok_def by blast
qed (auto intro: part_invite part_response part_bye part_cancel part_resume)

lemma task_reach_inv: "task_reach cfg lib rt ps \<Longrightarrow> router_inv lib rt"
proof (induction rule: task_reach.induct)
  case (start port_start port_end addr)
  then show ?case by (rule router_inv_new)
next
  case (step rt ps effs rt' ps')
  then show ?case using part_step [OF step(2)] by (simp add: part_ok_def)
qed

lemma task_history_reach: "task_history cfg lib running rt ps \<Longrightarrow> task_reach cfg lib rt ps"
  by (induction rule: task_history.induct) (auto intro: task_reach.intros)

lemma router_reach_task: "router_reach cfg lib rt \<Longrightarrow> task_reach cfg lib rt []"
  by (induction rule: router_reach.induct) (auto intro: task_reach.intros task_step.whole)

lemma relay_history_task: "relay_history cfg lib running rt \<Longrightarrow> task_history cfg lib running rt []"
  by (induction rule: relay_history.induct) (auto intro: task_history.intros task_step.whole)

lemma task_history_tracked: "task_history cfg lib running rt ps \<Longrightarrow> tracked running rt"
proof (induction rule: task_history.induct)
  case (start port_start port_end addr)
  then show ?case by (simp add: tracked_def router_new_def manager_new_def)
next
  case (step running rt ps effs rt' ps')
  then show ?case using part_step [OF step(2)] task_reach_inv [OF task_history_reach [OF step(1)]]
    by (simp add: part_ok_def tracks_def)
qed

text \<open>A relay that is started belongs to an answered call.\<close>

lemma task_relay_ok:
  assumes "task_reach cfg lib rt ps" "task_step cfg lib rt ps effs rt' ps'" "Start_Relay cid p q st ch \<in> set effs"
  shows "\<exists>call c cr e d. hm_get (rt_calls rt') cid = Some call \<and> call_keys lib call \<and>
     ci_callee_remote_crypto call = Some cr \<and> offered lib call c \<and>
     callee_context call (sc_suite cr) = Some e \<and> sc_suite e = sc_suite cr \<and>
     ci_caller_local_crypto call = Some d \<and> sc_suite d = sc_suite c \<and>
     st = run_relay_start (Some c) (Some e) (Some cr) (Some d)
       (ci_caller_media_addr call) (ci_callee_media_addr call) \<and>
     (\<exists>s. hm_get (mm_sessions (rt_media rt')) cid = Some s \<and> rs_caller_port s = p \<and> rs_callee_port s = q) \<and>
     hm_get (mm_shutdown_senders (rt_media rt')) cid \<noteq> None"
proof -
  note part = part_step [OF assms(2), unfolded part_ok_def]
  obtain call cr where call: "hm_get (rt_calls rt') cid = Some call" "ci_relay_started call"
    "ci_callee_remote_crypto call = Some cr" "p = ci_caller_relay_port call" "q = ci_callee_relay_port call"
    "st = relay_contexts call"
    using part assms(3) by blast
  have "router_inv lib rt'" using part task_reach_inv [OF assms(1)] by blast
  from started_relay_ok [OF this call] call(1,3) show ?thesis by blast
qed

section \<open>The example call, cut at its awaits\<close>

text \<open>The answer has been entered into the table and is on its way to the caller; the relay starts when
  it has been sent.\<close>

definition ex_accepted :: router where
  "ex_accepted = ex_ringing\<lparr>rt_calls := hm_insert ''c-1'' (ex_answered\<lparr>ci_relay_started := False\<rparr>) hm_empty\<rparr>"

lemma ex_answer_begins:
  "\<exists>m. begin_response ex_router_cfg ex_call_env (ex_answer ''<sip:1002@10.0.0.8>'') ex_ringing =
     ([Send_Text (Stream 1) m], ex_accepted, Then_Response 200 ''c-1'')"
proof -
  have r: "rt_calls ex_ringing = hm_insert ''c-1'' ex_call hm_empty" "\<not> rt_poisoned ex_ringing"
    by (simp_all add: ex_ringing_def ex_ready_fields)
  have c: "ci_callee_remote_crypto ex_answered = Some ex_peer_context" "ci_caller_sink ex_answered = Stream 1"
    "\<exists>k. ci_caller_local_crypto ex_answered = Some k"
    by (simp_all add: ex_answered_def ex_call_def new_call_info_def)
  obtain k where k: "ci_caller_local_crypto ex_answered = Some k" using c(3) ..
  show ?thesis
    by (simp add: begin_response_def ex_answer_fields r ex_env_fields ex_update c forwarded_response_def
        k ex_accepted_def hm_insert_twice Let_def)
qed

lemma ex_answer_ends:
  "resume ex_call_env (Then_Response 200 ''c-1'') ex_accepted =
     ([Start_Relay ''c-1'' 20000 20002 (relay_contexts ex_answered) 5], ex_talking, Ended (Some []))"
proof -
  have r: "rt_calls ex_accepted = hm_insert ''c-1'' (ex_answered\<lparr>ci_relay_started := False\<rparr>) hm_empty" "\<not> rt_poisoned ex_accepted"
    by (simp_all add: ex_accepted_def ex_ringing_def ex_ready_fields)
  have c: "ci_callee_remote_crypto ex_answered = Some ex_peer_context"
    "ci_caller_relay_port ex_answered = 20000" "ci_callee_relay_port ex_answered = 20002"
    by (simp_all add: ex_answered_def ex_call_def new_call_info_def ex_session_def)
  have upd: "ex_answered\<lparr>ci_relay_started := True\<rparr> = ex_answered" by (simp add: ex_answered_def)
  have "ex_accepted\<lparr>rt_calls := hm_insert ''c-1'' ex_answered hm_empty,
      rt_media := register_shutdown ''c-1'' 5 (rt_media ex_accepted)\<rparr> = ex_talking"
    by (simp add: ex_accepted_def ex_talking_def)
  then show ?thesis
    by (simp add: r after_forwarding_def start_media_relay_def c upd ex_env_fields hm_insert_twice)
qed

lemma ex_answer_waits: "task_history ex_router_cfg ex_lib {} ex_accepted [Then_Response 200 ''c-1'']"
proof -
  obtain m where b: "begin_response ex_router_cfg ex_call_env (ex_answer ''<sip:1002@10.0.0.8>'') ex_ringing =
     ([Send_Text (Stream 1) m], ex_accepted, Then_Response 200 ''c-1'')" using ex_answer_begins by blast
  have h: "task_history ex_router_cfg ex_lib {} ex_ringing []" by (rule relay_history_task [OF ex_no_relay_ringing])
  from task_history.step [OF h task_step.response [OF ex_env_fields(2) b]] show ?thesis
    by (simp add: fresh_channels_def)
qed

lemma ex_answer_goes_on:
  "task_step ex_router_cfg ex_lib ex_accepted [Then_Response 200 ''c-1'']
     [Start_Relay ''c-1'' 20000 20002 (relay_contexts ex_answered) 5] ex_talking [Ended (Some [])]"
  using task_step.goes_on [OF _ ex_answer_ends, of "[Then_Response 200 ''c-1'']"] by simp

section \<open>Properties of every interleaving\<close>

text \<open>C4: media never passes unencrypted. Whatever led to it, with the
  parts of all handlers in any order, a relay is only ever started with an SRTP
  context for each of the four directions: the caller's key is one it offered in its INVITE,
  and towards each side the relay encrypts with a key of the server, in the suite this side
  itself uses; the ports are those of the call's session, and the relay can be stopped.\<close>

theorem relay_always_encrypted:
  assumes "task_reach cfg lib rt ps" "task_step cfg lib rt ps effs rt' ps'" "Start_Relay cid p q st ch \<in> set effs"
  shows "\<exists>call c cr e d. hm_get (rt_calls rt') cid = Some call \<and> offered lib call c \<and>
     leg_decrypt (caller_leg st) = Some c \<and> leg_encrypt (caller_leg st) = Some e \<and>
     leg_decrypt (callee_leg st) = Some cr \<and> leg_encrypt (callee_leg st) = Some d \<and>
     e \<in> {the (ci_callee_local_crypto call), the (ci_callee_local_crypto_gcm call)} \<and>
     d = the (ci_caller_local_crypto call) \<and> sc_suite e = sc_suite cr \<and> sc_suite d = sc_suite c \<and>
     (\<exists>s. hm_get (mm_sessions (rt_media rt')) cid = Some s \<and> rs_caller_port s = p \<and> rs_callee_port s = q) \<and>
     hm_get (mm_shutdown_senders (rt_media rt')) cid \<noteq> None"
proof -
  have "e \<in> {the (ci_callee_local_crypto call), the (ci_callee_local_crypto_gcm call)}"
    if "callee_context call su = Some e" for call su e
    using that by (cases su) (simp_all add: callee_context_def)
  with task_relay_ok [OF assms] show ?thesis
    by (fastforce simp: run_relay_start_def)
qed

theorem relay_always_encrypted_witness:
  "\<exists>call. hm_get (rt_calls ex_talking) ''c-1'' = Some call \<and>
     leg_encrypt (caller_leg (relay_contexts ex_answered)) \<noteq> None"
  using relay_always_encrypted [OF task_history_reach [OF ex_answer_waits] ex_answer_goes_on, where cid = "''c-1''"]
  by (metis list.set_intros(1) option.discI)





section \<open>A late hang-up\<close>

lemma hangup_waits:
  assumes "begin_bye cfg env bye from_ext rt = (effs, rt1, Then_Cleanup cid ok)"
  shows "rt1 = rt" "\<not> rt_poisoned rt"
  using assms by (auto simp: begin_bye_def Let_def case_prod_beta split: option.splits if_splits prod.splits)

lemma connect_poisoned:
  "rt_poisoned (snd (snd (connect_call cfg env request body cid caller callee sink sink' tg crypto session rt))) = rt_poisoned rt"
  by (simp add: connect_call_def Let_def case_prod_beta split: option.split)

lemma reach_poisoned:
  "rt_poisoned (snd (snd (reach_callee cfg env request cid caller callee sink rt))) = rt_poisoned rt"
  by (auto simp: reach_callee_def Let_def connect_poisoned split: option.split prod.split)

lemma invite_poisoned:
  "rt_poisoned (snd (snd (handle_invite cfg env request sink from_addr ext rt))) = rt_poisoned rt"
  by (simp add: handle_invite_def refuse_caller_def place_call_def Let_def case_prod_beta reach_poisoned split: option.split)

text \<open>C35: a hang-up can end the next call. While a BYE is being sent to the other party, a new INVITE
  with the same \<open>Call-ID\<close> is accepted and answered 100. When the BYE has been sent, its handler
  removes the call of this id without looking whether it is still the one hung up: the new call
  loses its entry and its ports, nobody is told, and every response of its callee is dropped.\<close>

theorem late_hangup_ends_new_call:
  assumes "begin_bye cfg env bye from_ext rt = (effs, rt1, Then_Cleanup cid ok)"
    and "handle_invite cfg env1 invite sink from_addr ext rt1 = (Some answer, effs1, rt2)"
    and "extract_status_code answer = Some 100" "extract_call_id invite = Some cid"
    and "resume env2 (Then_Cleanup cid ok) rt2 = (effs2, rt3, p)"
  shows "(\<exists>new. hm_get (rt_calls rt2) cid = Some new \<and> ci_original_invite new = invite) \<and>
     hm_get (rt_calls rt3) cid = None \<and> hm_get (mm_sessions (rt_media rt3)) cid = None \<and>
     p = Ended (Some ok) \<and> (\<forall>s m. Send_Text s m \<notin> set effs2) \<and>
     (\<forall>env3 response status. extract_call_id response = Some cid \<and> extract_status_code response = Some status \<longrightarrow>
        handle_callee_response cfg env3 response rt3 = (Some (), [], rt3))"
proof -
  obtain new where new: "hm_get (rt_calls rt2) cid = Some new" "ci_original_invite new = invite"
    using callee_invited [OF assms(2,3)] assms(4) by (auto simp: invited_def)
  have "\<not> rt_poisoned rt2"
    using invite_poisoned [of cfg env1 invite sink from_addr ext rt1] assms(2) hangup_waits [OF assms(1)] by simp
  then have c: "effs2 = fst (cleanup_call cid rt2)" "rt3 = snd (cleanup_call cid rt2)" "p = Ended (Some ok)"
      "\<not> rt_poisoned rt3"
    using assms(5) by (auto simp: case_prod_beta)
  have "hm_get (mm_sessions (rt_media rt3)) cid = None" and g: "hm_get (rt_calls rt3) cid = None"
    using new(1) by (simp_all add: c(2) cleanup_call_def remove_session_def case_prod_beta split: option.split)
  moreover have "handle_callee_response cfg env3 response rt3 = (Some (), [], rt3)"
    if "extract_call_id response = Some cid" "extract_status_code response = Some status" for env3 response status
    using that g c(4) by (simp add: handle_callee_response_def)
  ultimately show ?thesis using new c(1,3) cleanup_effects(2) by auto
qed

lemma ex_bye_waits:
  "\<exists>effs. begin_bye ex_router_cfg ex_call_env (ex_in_dialog ''BYE'') ''1001'' ex_talking =
     (effs, ex_talking, Then_Cleanup ''c-1'' [build_response (ex_in_dialog ''BYE'') 200 ''OK'' ''t1''])"
proof -
  have "ci_callee_sink ex_answered = Some (Stream 2)" "ci_callee_remote_contact ex_answered = Some ''sip:1002@10.0.0.8''"
    "ci_caller_ext ex_answered = ''1001''" "ci_callee_ext ex_answered = ''1002''"
    by (simp_all add: ex_answered_def ex_call_def new_call_info_def)
  then show ?thesis
    by (simp add: begin_bye_def ex_ending_fields ex_talking_fields ex_env_fields bye_from_caller_side_def
        bye_from_callee_side_def bye_target_def case_prod_beta)
qed

lemma ex_second_session:
  "\<not> Option.is_none (fst (create_session ''c-1'' (rt_media (snd (cleanup_call ''c-1'' ex_talking)))))"
proof -
  have c: "rt_media (snd (cleanup_call ''c-1'' ex_talking)) = snd (snd (remove_session ''c-1'' (rt_media ex_talking)))"
    by (simp add: cleanup_call_def ex_talking_fields case_prod_beta)
  show ?thesis unfolding c
    by (simp add: ex_talking_def ex_ringing_def ex_ready_def register_writer_def router_new_def) code_simp
qed

lemma ex_second_invite:
  "\<exists>effs rt'. handle_invite ex_router_cfg ex_call_env ex_call_invite (Stream 1) ex_peer (Some ''1001'') ex_talking =
     (Some (build_response ex_call_invite 100 ''Trying'' ''t1''), effs, rt')"
proof -
  have on: "is_registered 1000 ''1001'' ex_signed_on" "is_registered 1000 ''1002'' ex_signed_on"
     "\<not> is_blocked ex_reg_cfg ''10.0.0.7'' ex_signed_on"
    using ex_signed_on_facts by (simp_all add: Let_def)
  have peer: "ip_text ex_peer = ''10.0.0.7''" by (simp add: ex_peer_def)
  obtain effs rt' where clean: "cleanup_call ''c-1'' ex_talking = (effs, rt')" by (cases "cleanup_call ''c-1'' ex_talking")
  have "hm_get (rt_writers ex_ready) ''1002'' = Some (Stream 2)" by (simp add: ex_ready_def register_writer_def)
  then have "call_outbound ex_router_cfg 1000 ''1002'' (snd (cleanup_call ''c-1'' ex_talking)) = Some (Stream 2)"
    by (simp add: cleanup_call_def ex_talking_fields case_prod_beta call_outbound_def ex_talking_def ex_ringing_def)
  moreover have "rt_registrar (snd (cleanup_call ''c-1'' ex_talking)) = ex_signed_on" by (simp add: ex_talking_fields)
  ultimately have r: "call_outbound ex_router_cfg 1000 ''1002'' rt' = Some (Stream 2)" "rt_registrar rt' = ex_signed_on"
    using clean by simp_all
  obtain session mm where mm: "create_session ''c-1'' (rt_media rt') = (Some session, mm)"
    using ex_second_session clean by (cases "create_session ''c-1'' (rt_media rt')") (auto simp: Option.is_none_def)
  show ?thesis
    by (simp add: handle_invite_def place_call_def reach_callee_def connect_call_def Let_def ex_talking_fields
        ex_env_fields ex_invite_fields ex_connection on clean mm peer ex_sdp_key ex_sdp_addr r)
qed

theorem late_hangup_ends_new_call_witness:
  "\<exists>effs rt2 effs2 rt3. handle_invite ex_router_cfg ex_call_env ex_call_invite (Stream 1) ex_peer (Some ''1001'') ex_talking =
       (Some (build_response ex_call_invite 100 ''Trying'' ''t1''), effs, rt2) \<and>
     hm_get (rt_calls rt2) ''c-1'' \<noteq> None \<and>
     resume ex_call_env (Then_Cleanup ''c-1'' [build_response (ex_in_dialog ''BYE'') 200 ''OK'' ''t1'']) rt2 =
       (effs2, rt3, Ended (Some [build_response (ex_in_dialog ''BYE'') 200 ''OK'' ''t1''])) \<and>
     hm_get (rt_calls rt3) ''c-1'' = None"
proof -
  let ?ok = "[build_response (ex_in_dialog ''BYE'') 200 ''OK'' ''t1'']"
  obtain effs where b: "begin_bye ex_router_cfg ex_call_env (ex_in_dialog ''BYE'') ''1001'' ex_talking =
     (effs, ex_talking, Then_Cleanup ''c-1'' ?ok)" using ex_bye_waits by blast
  obtain effs1 rt2 where i: "handle_invite ex_router_cfg ex_call_env ex_call_invite (Stream 1) ex_peer (Some ''1001'') ex_talking =
     (Some (build_response ex_call_invite 100 ''Trying'' ''t1''), effs1, rt2)" using ex_second_invite by blast
  obtain effs2 rt3 p where r: "resume ex_call_env (Then_Cleanup ''c-1'' ?ok) rt2 = (effs2, rt3, p)" by (metis prod_cases3)
  have "extract_status_code (build_response ex_call_invite 100 ''Trying'' ''t1'') = Some 100"
    by (rule built_status_plain) (simp_all add: LF_def)
  from late_hangup_ends_new_call [OF b i this ex_invite_fields(3) r] i r show ?thesis by auto
qed

end
