(* ===== verification/Server.thy ===== *)
theory Server
  imports Sip_Framing Message_Service Call_Router
begin

text \<open>
  The server of \<open>src/sip/server.rs\<close>: the table of connections, the dispatch of a message to the
  registrar, the router and the message service, the task of a TLS connection and the UDP
  listener. As in the other components code between two awaits runs as one step. The state of
  a task is here too: a connection task that panics ends without its clean-up, and a panic of
  the UDP listener ends it for good.
\<close>

section \<open>State\<close>

definition MAX_CONNECTIONS :: nat where "MAX_CONNECTIONS = 1024"

record connection_state =
  cs_peer :: socket_addr
  cs_extension :: "string option"
  cs_sink :: connection_sink

text \<open>A running connection task: its channel and the bytes it has not framed yet.\<close>

record connection_task =
  ct_channel :: nat
  ct_buffer :: string

record server_state =
  sv_router :: router
  sv_messages :: message_state
  sv_connections :: "(socket_addr, connection_state) hashmap"
  sv_pending :: nat
  sv_tasks :: "(socket_addr, connection_task) hashmap"
  sv_udp_alive :: bool

record serving_config =
  svc_router :: router_config
  svc_messages :: message_config
  svc_lib :: crypto_lib

record server_env =
  se_reg :: reg_env
  se_call :: call_env

datatype server_effect =
  Reply connection_sink string
| In_Call call_effect
| Deliver string

type_synonym 'r served = "'r may_panic \<times> server_effect list \<times> server_state"

definition server_new :: "registrar \<Rightarrow> media_manager \<Rightarrow> bool \<Rightarrow> server_state" where
  "server_new reg mm udp =
     \<lparr>sv_router = router_new reg mm, sv_messages = message_new, sv_connections = hm_empty,
      sv_pending = 0, sv_tasks = hm_empty, sv_udp_alive = udp\<rparr>"

section \<open>The table of connections\<close>

definition register_connection :: "socket_addr \<Rightarrow> connection_sink \<Rightarrow> server_state \<Rightarrow> server_state" where
  "register_connection peer sink st =
     st\<lparr>sv_connections := hm_insert peer \<lparr>cs_peer = peer, cs_extension = None, cs_sink = sink\<rparr> (sv_connections st)\<rparr>"

definition put_extension :: "socket_addr \<Rightarrow> string option \<Rightarrow> server_state \<Rightarrow> server_state" where
  "put_extension peer ext st =
     (case hm_get (sv_connections st) peer of
        None \<Rightarrow> st
      | Some conn \<Rightarrow>
          st\<lparr>sv_connections := hm_insert peer (conn\<lparr>cs_extension := ext\<rparr>) (sv_connections st)\<rparr>)"

definition set_connection_extension :: "socket_addr \<Rightarrow> string \<Rightarrow> server_state \<Rightarrow> server_state" where
  "set_connection_extension peer extension st = put_extension peer (Some extension) st"

definition clear_connection_extension :: "socket_addr \<Rightarrow> server_state \<Rightarrow> server_state" where
  "clear_connection_extension peer st = put_extension peer None st"

definition has_connection_for_extension :: "string \<Rightarrow> server_state \<Rightarrow> bool" where
  "has_connection_for_extension ext st \<longleftrightarrow>
     list_ex (\<lambda>conn. cs_extension conn = Some ext) (hm_values (sv_connections st))"

definition get_connection_extension :: "socket_addr \<Rightarrow> server_state \<Rightarrow> string option" where
  "get_connection_extension peer st = Option.bind (hm_get (sv_connections st) peer) cs_extension"

definition remove_connection :: "socket_addr \<Rightarrow> server_state \<Rightarrow> string option \<times> server_state" where
  "remove_connection peer st =
     (get_connection_extension peer st, st\<lparr>sv_connections := hm_remove peer (sv_connections st)\<rparr>)"

section \<open>One message\<close>

text \<open>After a REGISTER: the identity of the connection, and whose stored messages to deliver.\<close>

definition associate_connection ::
  "string \<Rightarrow> socket_addr \<Rightarrow> connection_sink \<Rightarrow> transport \<Rightarrow> string \<Rightarrow> server_state
     \<Rightarrow> (string option \<times> server_state) may_panic" where
  "associate_connection msg peer sink tp response st =
     (if valid_utf8 response \<and> extract_status_code response = Some 200 then
        (case extract_uri_from_header msg ''To'' of
           None \<Rightarrow> None
         | Some None \<Rightarrow> Some (None, st)
         | Some (Some uri) \<Rightarrow>
             (case extract_extension uri of
                None \<Rightarrow> None
              | Some None \<Rightarrow> Some (None, st)
              | Some (Some ext) \<Rightarrow>
                  (case extract_expires msg of
                     None \<Rightarrow> None
                   | Some expires \<Rightarrow>
                       if expires = Some 0 then
                         (let st1 = clear_connection_extension peer st
                          in Some (None, st1\<lparr>sv_router := unregister_writer ext (sv_router st1)\<rparr>))
                       else
                         (let st1 = set_connection_extension peer ext st
                          in Some (Some ext, if tp = Tls
                               then st1\<lparr>sv_router := register_writer ext sink (sv_router st1)\<rparr> else st1)))))
      else Some (None, st))"

definition serve_register ::
  "serving_config \<Rightarrow> server_env \<Rightarrow> string \<Rightarrow> socket_addr \<Rightarrow> connection_sink \<Rightarrow> transport \<Rightarrow> server_state
     \<Rightarrow> unit served" where
  "serve_register cfg env msg peer sink tp st =
     (case handle_register (rc_reg (svc_router cfg)) (se_reg env) msg peer tp (rt_registrar (sv_router st)) of
        (answer, reg) \<Rightarrow>
          (let st1 = st\<lparr>sv_router := (sv_router st)\<lparr>rt_registrar := reg\<rparr>\<rparr> in
           case answer of
             None \<Rightarrow> (None, [], st1)
           | Some response \<Rightarrow>
               (case associate_connection msg peer sink tp response st1 of
                  None \<Rightarrow> (None, [], st1)
                | Some (delivery, st2) \<Rightarrow>
                    (Some (), Reply sink response #
                       (case delivery of Some ext \<Rightarrow> [Deliver ext] | None \<Rightarrow> []), st2))))"

text \<open>What a handler of the router did, with its answer sent back.\<close>

definition from_router :: "connection_sink \<Rightarrow> server_state \<Rightarrow> string handled \<Rightarrow> unit served" where
  "from_router sink st h =
     (case h of (answer, effs, rt) \<Rightarrow>
        (let st1 = st\<lparr>sv_router := rt\<rparr> in
         case answer of
           None \<Rightarrow> (None, map In_Call effs, st1)
         | Some response \<Rightarrow> (Some (), map In_Call effs @ [Reply sink response], st1)))"

definition from_router_silent :: "server_state \<Rightarrow> unit handled \<Rightarrow> unit served" where
  "from_router_silent st h =
     (case h of (answer, effs, rt) \<Rightarrow> (answer, map In_Call effs, st\<lparr>sv_router := rt\<rparr>))"

definition message_env_of :: "server_env \<Rightarrow> router \<Rightarrow> message_env" where
  "message_env_of env rt =
     \<lparr>me_now = ce_now (se_call env), me_branch = ce_branch (se_call env), me_tag = ce_tag (se_call env),
      me_writers = rt_writers rt, me_registrar = rt_registrar rt, me_send = ce_send (se_call env)\<rparr>"

definition serve_message ::
  "serving_config \<Rightarrow> server_env \<Rightarrow> string \<Rightarrow> socket_addr \<Rightarrow> connection_sink \<Rightarrow> server_state \<Rightarrow> unit served" where
  "serve_message cfg env msg peer sink st =
     (let sender = (case get_connection_extension peer st of Some e \<Rightarrow> e | None \<Rightarrow> []) in
      case handle_message (svc_messages cfg) (message_env_of env (sv_router st)) msg sender (sv_messages st) of
        None \<Rightarrow> (None, [], st)
      | Some (response, sent, ms) \<Rightarrow>
          (Some (), map (\<lambda>(s, t). In_Call (Send_Text s t)) sent @ [Reply sink response],
           st\<lparr>sv_messages := ms\<rparr>))"

definition options_answer :: "string \<Rightarrow> string \<Rightarrow> string" where
  "options_answer msg tag =
     build_response_with_headers msg 200 ''OK''
       [(''Allow'', ''INVITE, ACK, BYE, CANCEL, REGISTER, OPTIONS, MESSAGE''),
        (''Accept'', ''application/sdp'')] tag"

definition serve_request ::
  "serving_config \<Rightarrow> server_env \<Rightarrow> string \<Rightarrow> string \<Rightarrow> socket_addr \<Rightarrow> connection_sink \<Rightarrow> transport
     \<Rightarrow> server_state \<Rightarrow> unit served" where
  "serve_request cfg env meth msg peer sink tp st =
     (let rc = svc_router cfg; ce = se_call env;
          identity = get_connection_extension peer st;
          from_ext = (case identity of Some e \<Rightarrow> e | None \<Rightarrow> [])
      in if meth = ''REGISTER'' then serve_register cfg env msg peer sink tp st
         else if meth = ''INVITE'' then from_router sink st (handle_invite rc ce msg sink peer identity (sv_router st))
         else if meth = ''ACK'' then from_router_silent st (handle_ack rc ce msg (sv_router st))
         else if meth = ''BYE'' then from_router sink st (handle_bye rc ce msg from_ext (sv_router st))
         else if meth = ''CANCEL'' then from_router sink st (handle_cancel rc ce msg (sv_router st))
         else if meth = ''MESSAGE'' then serve_message cfg env msg peer sink st
         else if meth = ''OPTIONS'' then (Some (), [Reply sink (options_answer msg (ce_tag ce))], st)
         else (Some (), [Reply sink (build_response msg 405 ''Method Not Allowed'' (ce_tag ce))], st))"

definition process_sip_message ::
  "serving_config \<Rightarrow> server_env \<Rightarrow> string \<Rightarrow> socket_addr \<Rightarrow> connection_sink \<Rightarrow> transport \<Rightarrow> server_state
     \<Rightarrow> unit served" where
  "process_sip_message cfg env msg peer sink tp st =
     (if trim msg = [] then (Some (), [], st)
      else if is_request msg then
        (case extract_method msg of
           None \<Rightarrow> (Some (), [], st)
         | Some meth \<Rightarrow> serve_request cfg env meth msg peer sink tp st)
      else if is_response msg \<and> extract_cseq_method msg = Some ''INVITE'' then
        from_router_silent st (handle_callee_response (svc_router cfg) (se_call env) msg (sv_router st))
      else (Some (), [], st))"

section \<open>TLS connections\<close>

text \<open>A new TCP connection: refused at the limit, else its handshake is counted.\<close>

definition accept_connection :: "server_state \<Rightarrow> bool \<times> server_state" where
  "accept_connection st =
     (if MAX_CONNECTIONS \<le> hm_len (sv_connections st) + sv_pending st then (False, st)
      else (True, st\<lparr>sv_pending := sv_pending st + 1\<rparr>))"

definition handshake_failed :: "server_state \<Rightarrow> server_state" where
  "handshake_failed st = st\<lparr>sv_pending := sv_pending st - 1\<rparr>"

definition handshake_done :: "socket_addr \<Rightarrow> nat \<Rightarrow> server_state \<Rightarrow> server_state" where
  "handshake_done peer ch st =
     (let st1 = register_connection peer (Stream ch) (st\<lparr>sv_pending := sv_pending st - 1\<rparr>)
      in st1\<lparr>sv_tasks := hm_insert peer \<lparr>ct_channel = ch, ct_buffer = []\<rparr> (sv_tasks st1)\<rparr>)"

text \<open>The end of a connection that did not panic.\<close>

definition close_connection :: "socket_addr \<Rightarrow> server_state \<Rightarrow> server_state" where
  "close_connection peer st0 =
     (case remove_connection peer (st0\<lparr>sv_tasks := hm_remove peer (sv_tasks st0)\<rparr>) of
        (extension, st) \<Rightarrow>
          (case extension of
             None \<Rightarrow> st
           | Some ext \<Rightarrow>
               if has_connection_for_extension ext st then st
               else st\<lparr>sv_router := unregister_writer ext (sv_router st)\<rparr>))"

fun run_messages ::
  "serving_config \<Rightarrow> (nat \<Rightarrow> server_env) \<Rightarrow> socket_addr \<Rightarrow> connection_sink \<Rightarrow> string list \<Rightarrow> server_state
     \<Rightarrow> unit served" where
  "run_messages cfg envs peer sink [] st = (Some (), [], st)"
| "run_messages cfg envs peer sink (m # ms) st =
     (if valid_utf8 m then
        (case process_sip_message cfg (envs 0) m peer sink Tls st of
           (None, effs, st1) \<Rightarrow> (None, effs, st1)
         | (Some u, effs, st1) \<Rightarrow>
             (case run_messages cfg (\<lambda>i. envs (Suc i)) peer sink ms st1 of
                (r, effs', st2) \<Rightarrow> (r, effs @ effs', st2)))
      else run_messages cfg envs peer sink ms st)"

text \<open>The bytes of one read. A panic ends the task at once, without \<open>close_connection\<close>.\<close>

definition connection_read ::
  "serving_config \<Rightarrow> (nat \<Rightarrow> server_env) \<Rightarrow> socket_addr \<Rightarrow> connection_task \<Rightarrow> string \<Rightarrow> server_state
     \<Rightarrow> server_effect list \<times> server_state" where
  "connection_read cfg envs peer task chunk st =
     (case read_round (ct_buffer task) chunk of
        (ms, rest, closed) \<Rightarrow>
          (case run_messages cfg envs peer (Stream (ct_channel task)) ms st of
             (None, effs, st1) \<Rightarrow> (effs, st1\<lparr>sv_tasks := hm_remove peer (sv_tasks st1)\<rparr>)
           | (Some u, effs, st1) \<Rightarrow>
               if closed then (effs, close_connection peer st1)
               else (effs, st1\<lparr>sv_tasks := hm_insert peer (task\<lparr>ct_buffer := rest\<rparr>) (sv_tasks st1)\<rparr>)))"

section \<open>UDP\<close>

definition udp_datagram ::
  "serving_config \<Rightarrow> server_env \<Rightarrow> socket_addr \<Rightarrow> string \<Rightarrow> server_state \<Rightarrow> server_effect list \<times> server_state" where
  "udp_datagram cfg env peer data st =
     (if valid_utf8 data then
        (case process_sip_message cfg env data peer (Udp_Sink peer) Udp st of
           (None, effs, st1) \<Rightarrow> (effs, st1\<lparr>sv_udp_alive := False\<rparr>)
         | (Some u, effs, st1) \<Rightarrow> (effs, st1))
      else ([], st))"

definition udp_session_cleanup :: "u64 \<Rightarrow> server_state \<Rightarrow> server_state" where
  "udp_session_cleanup now st =
     st\<lparr>sv_connections := hm_retain (\<lambda>addr conn.
        sink_transport (cs_sink conn) = Tls \<or>
        (case cs_extension conn of
           Some ext \<Rightarrow> is_registered now ext (rt_registrar (sv_router st)) | None \<Rightarrow> False))
        (sv_connections st)\<rparr>"

section \<open>Histories\<close>

inductive server_step :: "serving_config \<Rightarrow> server_state \<Rightarrow> server_effect list \<Rightarrow> server_state \<Rightarrow> bool" for cfg where
  accept: "accept_connection st = (accepted, st') \<Longrightarrow> server_step cfg st [] st'"
| no_handshake: "0 < sv_pending st \<Longrightarrow> server_step cfg st [] (handshake_failed st)"
| handshake: "0 < sv_pending st \<Longrightarrow> hm_get (sv_tasks st) peer = None \<Longrightarrow>
     server_step cfg st [] (handshake_done peer ch st)"
| read: "hm_get (sv_tasks st) peer = Some task \<Longrightarrow>
     connection_read cfg envs peer task chunk st = (effs, st') \<Longrightarrow>
     \<forall>i. ce_lib (se_call (envs i)) = svc_lib cfg \<Longrightarrow> server_step cfg st effs st'"
| close: "hm_get (sv_tasks st) peer \<noteq> None \<Longrightarrow> server_step cfg st [] (close_connection peer st)"
| datagram: "sv_udp_alive st \<Longrightarrow> udp_datagram cfg env peer data st = (effs, st') \<Longrightarrow>
     ce_lib (se_call env) = svc_lib cfg \<Longrightarrow> server_step cfg st effs st'"
| udp_cleanup: "server_step cfg st [] (udp_session_cleanup now st)"
| reg_cleanup: "server_step cfg st []
     (st\<lparr>sv_router := (sv_router st)\<lparr>rt_registrar := cleanup_expired now (rt_registrar (sv_router st))\<rparr>\<rparr>)"
| take_stored: "server_step cfg st [] (st\<lparr>sv_messages := snd (take_messages now ext (sv_messages st))\<rparr>)"
| send_stored: "server_step cfg st [In_Call (Send_Text sink m)] st"
| put_stored: "server_step cfg st [] (st\<lparr>sv_messages := put_back ext pending (sv_messages st)\<rparr>)"

inductive server_reach :: "serving_config \<Rightarrow> server_state \<Rightarrow> bool" for cfg where
  start: "server_reach cfg (server_new registrar_new (manager_new port_start port_end addr) udp)"
| step: "server_reach cfg st \<Longrightarrow> server_step cfg st effs st' \<Longrightarrow> server_reach cfg st'"

inductive server_steps :: "serving_config \<Rightarrow> server_state \<Rightarrow> server_state \<Rightarrow> bool" for cfg where
  none: "server_steps cfg st st"
| more: "server_steps cfg st st1 \<Longrightarrow> server_step cfg st1 effs st' \<Longrightarrow> server_steps cfg st st'"

end
