(* ===== verification/Serving.thy ===== *)
theory Serving
  imports Server Call_Example
begin

text \<open>
  What holds of the whole server of \<open>src/sip/server.rs\<close> in every history: how many connections it
  keeps, what gives a connection its identity, that every request is answered once, and what is
  left behind by a panic, by UDP clients and by the second connection of an extension.
\<close>

section \<open>What one message leaves alone\<close>

lemma put_extension_frame [simp]:
  "sv_router (put_extension peer ext st) = sv_router st" "sv_messages (put_extension peer ext st) = sv_messages st"
  "sv_pending (put_extension peer ext st) = sv_pending st" "sv_tasks (put_extension peer ext st) = sv_tasks st"
  "sv_udp_alive (put_extension peer ext st) = sv_udp_alive st"
  by (simp_all add: put_extension_def split: option.split)

lemma put_extension_get:
  "hm_get (sv_connections (put_extension peer ext st)) p =
     (if p = peer then map_option (\<lambda>c. c\<lparr>cs_extension := ext\<rparr>) (hm_get (sv_connections st) p)
      else hm_get (sv_connections st) p)"
  by (simp add: put_extension_def split: option.split)

lemma put_extension_len [simp]: "hm_len (sv_connections (put_extension peer ext st)) = hm_len (sv_connections st)"
  by (simp add: put_extension_def hm.len_insert split: option.split)

lemma put_extension_router [simp]:
  "sv_connections (put_extension peer ext (st\<lparr>sv_router := rt\<rparr>)) = sv_connections (put_extension peer ext st)"
  by (simp add: put_extension_def split: option.split)

text \<open>Two states that differ in what a message can change: at most the identity of its connection.\<close>

definition same_tasks :: "socket_addr \<Rightarrow> server_state \<Rightarrow> server_state \<Rightarrow> bool" where
  "same_tasks peer st st' \<longleftrightarrow>
     sv_pending st' = sv_pending st \<and> sv_tasks st' = sv_tasks st \<and> sv_udp_alive st' = sv_udp_alive st \<and>
     (sv_connections st' = sv_connections st \<or>
      (\<exists>ext. sv_connections st' = sv_connections (put_extension peer ext st)))"

lemma same_tasks_refl [simp]: "same_tasks peer st st" "same_tasks peer st (st\<lparr>sv_router := rt\<rparr>)"
  "same_tasks peer st (st\<lparr>sv_messages := ms\<rparr>)"
  by (simp_all add: same_tasks_def)

lemma associate_same:
  "associate_connection msg peer sink tp response (st\<lparr>sv_router := rt\<rparr>) = Some (d, st') \<Longrightarrow> same_tasks peer st st'"
  by (auto simp: associate_connection_def same_tasks_def set_connection_extension_def clear_connection_extension_def
      Let_def split: if_splits option.splits)

lemma serve_register_same: "same_tasks peer st (snd (snd (serve_register cfg env msg peer sink tp st)))"
proof -
  obtain a reg where h: "handle_register (rc_reg (svc_router cfg)) (se_reg env) msg peer tp (rt_registrar (sv_router st)) = (a, reg)"
    by (cases "handle_register (rc_reg (svc_router cfg)) (se_reg env) msg peer tp (rt_registrar (sv_router st))")
  let ?st = "st\<lparr>sv_router := (sv_router st)\<lparr>rt_registrar := reg\<rparr>\<rparr>"
  show ?thesis
  proof (cases a)
    case (Some r)
    show ?thesis
    proof (cases "associate_connection msg peer sink tp r ?st")
      case None
      then show ?thesis using Some h by (simp add: serve_register_def Let_def)
    next
      case (Some x)
      obtain d st' where "x = (d, st')" by (cases x)
      with Some have a: "associate_connection msg peer sink tp r ?st = Some (d, st')" by simp
      from associate_same [OF this] \<open>a = Some r\<close> h a show ?thesis by (simp add: serve_register_def Let_def)
    qed
  qed (simp add: serve_register_def h Let_def)
qed

lemma from_router_same:
  "same_tasks peer st (snd (snd (from_router sink st h)))" "same_tasks peer st (snd (snd (from_router_silent st g)))"
  by (simp_all add: from_router_def from_router_silent_def Let_def split: prod.split option.split)

lemma serve_message_same: "same_tasks peer st (snd (snd (serve_message cfg env msg peer sink st)))"
  by (simp add: serve_message_def Let_def split: prod.split option.split)

lemma serve_request_same: "same_tasks peer st (snd (snd (serve_request cfg env meth msg peer sink tp st)))"
  by (simp add: serve_request_def Let_def serve_register_same serve_message_same from_router_same)

lemma process_same: "same_tasks peer st (snd (snd (process_sip_message cfg env msg peer sink tp st)))"
  by (simp add: process_sip_message_def serve_request_same from_router_same split: option.split)

lemma same_tasks_get:
  assumes "same_tasks peer st st'"
  shows "sv_pending st' = sv_pending st" "sv_tasks st' = sv_tasks st" "sv_udp_alive st' = sv_udp_alive st"
    "hm_len (sv_connections st') = hm_len (sv_connections st)"
    "map_option cs_peer (hm_get (sv_connections st') p) = map_option cs_peer (hm_get (sv_connections st) p)"
    "map_option cs_sink (hm_get (sv_connections st') p) = map_option cs_sink (hm_get (sv_connections st) p)"
    "p \<noteq> peer \<Longrightarrow> hm_get (sv_connections st') p = hm_get (sv_connections st) p"
  using assms by (auto simp: same_tasks_def put_extension_get option.map_comp comp_def)

lemma same_tasks_trans: 
  assumes "same_tasks peer st st1" "same_tasks peer st1 st2"
  shows "same_tasks peer st st2"
proof -
  have p: "sv_connections (put_extension peer e st1) = sv_connections (put_extension peer e st)"
    if "sv_connections st1 = sv_connections st" for e
    using that by (simp add: put_extension_def split: option.split)
  have q: "sv_connections (put_extension peer e st1) = sv_connections (put_extension peer e st)"
    if "sv_connections st1 = sv_connections (put_extension peer d st)" for e d
    using that by (auto simp: put_extension_def hm_insert_twice split: option.split)
  show ?thesis using assms p q unfolding same_tasks_def by metis
qed

lemma run_messages_same: "same_tasks peer st (snd (snd (run_messages cfg envs peer sink ms st)))"
proof (induction ms arbitrary: envs st)
  case (Cons m ms)
  obtain r effs st1 where p: "process_sip_message cfg (envs 0) m peer sink Tls st = (r, effs, st1)"
    by (cases "process_sip_message cfg (envs 0) m peer sink Tls st")
  have s: "same_tasks peer st st1" using process_same [of peer st cfg "envs 0" m sink Tls] p by simp
  have "same_tasks peer st (snd (snd (run_messages cfg (\<lambda>i. envs (Suc i)) peer sink ms st1)))"
    by (rule same_tasks_trans [OF s Cons])
  with p s Cons show ?case by (cases r) (simp_all add: case_prod_beta)
qed simp

section \<open>The table of connections\<close>

definition server_inv :: "server_state \<Rightarrow> bool" where
  "server_inv st \<longleftrightarrow>
     hm_len (sv_connections st) + sv_pending st \<le> MAX_CONNECTIONS \<and>
     (\<forall>p c. hm_get (sv_connections st) p = Some c \<longrightarrow> cs_peer c = p \<and> (\<exists>ch. cs_sink c = Stream ch)) \<and>
     (\<forall>p. hm_get (sv_tasks st) p \<noteq> None \<longrightarrow> hm_get (sv_connections st) p \<noteq> None)"

lemma same_tasks_inv: "same_tasks peer st st' \<Longrightarrow> server_inv st \<Longrightarrow> server_inv st'"
  unfolding server_inv_def by (fastforce simp: same_tasks_def put_extension_get split: if_splits)

lemma close_frame [simp]:
  "sv_connections (close_connection peer st) = hm_remove peer (sv_connections st)"
  "sv_tasks (close_connection peer st) = hm_remove peer (sv_tasks st)"
  "sv_pending (close_connection peer st) = sv_pending st"
  "sv_udp_alive (close_connection peer st) = sv_udp_alive st"
  by (simp_all add: close_connection_def remove_connection_def split: option.split)

lemma close_inv: "server_inv st \<Longrightarrow> server_inv (close_connection peer st)"
  by (auto simp: server_inv_def hm.len_remove)

lemma read_inv:
  assumes "server_inv st" "hm_get (sv_tasks st) peer = Some task"
    and "connection_read cfg envs peer task chunk st = (effs, st')"
  shows "server_inv st'"
proof -
  obtain ms rest closed where rd: "read_round (ct_buffer task) chunk = (ms, rest, closed)"
    by (cases "read_round (ct_buffer task) chunk")
  obtain r es st1 where run: "run_messages cfg envs peer (Stream (ct_channel task)) ms st = (r, es, st1)"
    by (cases "run_messages cfg envs peer (Stream (ct_channel task)) ms st")
  have same: "same_tasks peer st st1"
    using run_messages_same [of peer st cfg envs "Stream (ct_channel task)" ms] run by simp
  have inv: "server_inv st1" by (rule same_tasks_inv [OF same assms(1)])
  have conn: "hm_get (sv_connections st1) peer \<noteq> None"
    using inv assms(2) same_tasks_get(2) [OF same] by (simp add: server_inv_def)
  show ?thesis using assms(3) rd run inv conn close_inv [OF inv]
    by (cases r; cases closed) (auto simp: connection_read_def server_inv_def split: if_splits)
qed

text \<open>With TLS entries only, the clean-up of UDP sessions never finds anything to do.\<close>

lemma hm_retain_all:
  assumes "\<And>k v. hm_get m k = Some v \<Longrightarrow> P k v"
  shows "hm_retain P m = m"
proof -
  have "hm_entries (hm_retain P m) = hm_entries m"
    using assms by (auto simp: hm_entries_retain hm_get_entries filter_id_conv)
  then show ?thesis by (simp add: hm_entries_def DAList.impl_of_inject)
qed

lemma udp_cleanup_idle: "server_inv st \<Longrightarrow> udp_session_cleanup now st = st"
  unfolding udp_session_cleanup_def server_inv_def by (subst hm_retain_all) fastforce+

lemma server_step_inv:
  assumes "server_step cfg st effs st'" "server_inv st"
  shows "server_inv st'"
  using assms
proof (induction rule: server_step.induct)
  case (accept st accepted st')
  then show ?case by (auto simp: accept_connection_def server_inv_def split: if_splits)
next
  case (no_handshake st)
  then show ?case by (auto simp: handshake_failed_def server_inv_def)
next
  case (handshake st peer ch)
  then show ?case
    by (auto simp: handshake_done_def register_connection_def server_inv_def Let_def hm.len_insert split: if_splits)
next
  case (read st peer task envs chunk effs st')
  then show ?case using read_inv by blast
next
  case (close st peer)
  then show ?case using close_inv by blast
next
  case (datagram st env peer data effs st')
  have "same_tasks peer st (snd (snd (process_sip_message cfg env data peer (Udp_Sink peer) Udp st)))"
    by (rule process_same)
  from same_tasks_inv [OF this datagram(4)] datagram(2,4) show ?case
    by (auto simp: udp_datagram_def server_inv_def split: if_splits option.splits prod.splits)
next
  case (udp_cleanup st now)
  then show ?case by (simp add: udp_cleanup_idle)
qed (simp_all add: server_inv_def)

lemma server_reach_inv: "server_reach cfg st \<Longrightarrow> server_inv st"
proof (induction rule: server_reach.induct)
  case (start port_start port_end addr udp)
  then show ?case by (simp add: server_inv_def server_new_def)
next
  case (step st effs st')
  then show ?case by (blast intro: server_step_inv)
qed

lemma stream_is_tls: "(\<exists>ch. s = Stream ch) \<longleftrightarrow> sink_transport s = Tls"
  by (cases s) simp_all



section \<open>What a panic leaves behind\<close>

text \<open>A history in which no task of the peer runs: it does not connect again from the same address and port.\<close>

inductive steps_without :: "serving_config \<Rightarrow> socket_addr \<Rightarrow> server_state \<Rightarrow> server_state \<Rightarrow> bool" for cfg peer where
  none: "steps_without cfg peer st st"
| more: "steps_without cfg peer st st1 \<Longrightarrow> server_step cfg st1 effs st' \<Longrightarrow>
     hm_get (sv_tasks st') peer = None \<Longrightarrow> steps_without cfg peer st st'"

lemma step_keeps_entry:
  assumes "server_step cfg st effs st'" "server_inv st" "hm_get (sv_tasks st) peer = None"
    and "hm_get (sv_tasks st') peer = None" "hm_get (sv_connections st) peer = Some c"
  shows "\<exists>c'. hm_get (sv_connections st') peer = Some c'"
  using assms
proof (induction rule: server_step.induct)
  case (accept st accepted st')
  then show ?case by (auto simp: accept_connection_def split: if_splits)
next
  case (no_handshake st)
  then show ?case by (simp add: handshake_failed_def)
next
  case (handshake st p ch)
  then show ?case by (auto simp: handshake_done_def register_connection_def Let_def)
next
  case (read st p task envs chunk effs st')
  obtain ms rest closed where rd: "read_round (ct_buffer task) chunk = (ms, rest, closed)"
    by (cases "read_round (ct_buffer task) chunk")
  obtain r es st1 where run: "run_messages cfg envs p (Stream (ct_channel task)) ms st = (r, es, st1)"
    by (cases "run_messages cfg envs p (Stream (ct_channel task)) ms st")
  have same: "same_tasks p st st1"
    using run_messages_same [of p st cfg envs "Stream (ct_channel task)" ms] run by simp
  have p: "peer \<noteq> p" using read(1,5) by auto
  show ?case using read(2,7) rd run p same_tasks_get(7) [OF same p]
    by (cases r; cases closed) (auto simp: connection_read_def)
next
  case (close st p)
  then show ?case by (cases "p = peer") auto
next
  case (datagram st env p data effs st')
  have "same_tasks p st (snd (snd (process_sip_message cfg env data p (Udp_Sink p) Udp st)))"
    by (rule process_same)
  from same_tasks_get(5) [OF this, of peer] datagram(2,7) show ?case
    by (auto simp: udp_datagram_def split: if_splits option.splits prod.splits)
next
  case (udp_cleanup st now)
  then show ?case by (simp add: udp_cleanup_idle)
qed simp_all

lemma leaked_entry_stays:
  assumes "steps_without cfg peer st st'" "server_inv st" "hm_get (sv_tasks st) peer = None"
    and "hm_get (sv_connections st) peer \<noteq> None"
  shows "hm_get (sv_connections st') peer \<noteq> None \<and> server_inv st' \<and> hm_get (sv_tasks st') peer = None"
  using assms
proof (induction rule: steps_without.induct)
  case (more st1 effs st')
  then show ?case using step_keeps_entry [OF more(2)] server_step_inv [OF more(2)] by blast
qed simp

text \<open>When a message makes the task of a TLS connection panic, its entry stays in the table in every
  later state, as long as the peer does not connect again from the same address and port,
  although no task serves it: it counts against the limit for ever.\<close>

theorem panic_leaks_connection:
  assumes "server_reach cfg st" "hm_get (sv_tasks st) peer = Some task"
    and "read_round (ct_buffer task) chunk = (ms, rest, closed)"
    and "fst (run_messages cfg envs peer (Stream (ct_channel task)) ms st) = None"
    and "steps_without cfg peer (snd (connection_read cfg envs peer task chunk st)) st'"
  shows "hm_get (sv_connections st') peer \<noteq> None \<and> hm_get (sv_tasks st') peer = None"
proof -
  obtain es st1 where run: "run_messages cfg envs peer (Stream (ct_channel task)) ms st = (None, es, st1)"
    using assms(4) by (cases "run_messages cfg envs peer (Stream (ct_channel task)) ms st") simp
  have same: "same_tasks peer st st1"
    using run_messages_same [of peer st cfg envs "Stream (ct_channel task)" ms] run by simp
  have rd: "connection_read cfg envs peer task chunk st = (es, st1\<lparr>sv_tasks := hm_remove peer (sv_tasks st1)\<rparr>)"
    by (simp add: connection_read_def assms(3) run)
  have inv: "server_inv st" by (rule server_reach_inv [OF assms(1)])
  have inv1: "server_inv (snd (connection_read cfg envs peer task chunk st))"
    by (rule read_inv [OF inv assms(2) prod.collapse [symmetric]])
  have "hm_get (sv_connections st) peer \<noteq> None" using inv assms(2) by (simp add: server_inv_def)
  then have "hm_get (sv_connections st1) peer \<noteq> None" using same_tasks_get(5) [OF same, of peer] by auto
  then have "hm_get (sv_connections (snd (connection_read cfg envs peer task chunk st))) peer \<noteq> None"
    "hm_get (sv_tasks (snd (connection_read cfg envs peer task chunk st))) peer = None" by (simp_all add: rd)
  from leaked_entry_stays [OF assms(5) inv1 this(2,1)] show ?thesis by blast
qed

text \<open>The UDP listener is one task for all clients, and nothing starts it again.\<close>

lemma step_keeps_udp_dead:
  assumes "server_step cfg st effs st'" "\<not> sv_udp_alive st"
  shows "\<not> sv_udp_alive st'"
  using assms
proof (induction rule: server_step.induct)
  case (read st peer task envs chunk effs st')
  have "same_tasks peer st (snd (snd (run_messages cfg envs peer (Stream (ct_channel task))
      (fst (read_round (ct_buffer task) chunk)) st)))" by (rule run_messages_same)
  from same_tasks_get(3) [OF this] read(2,4) show ?case
    by (auto simp: connection_read_def split: if_splits option.splits prod.splits)
qed (auto simp: accept_connection_def handshake_failed_def handshake_done_def register_connection_def
    udp_session_cleanup_def Let_def split: if_splits)

lemma udp_stays_dead: "server_steps cfg st st' \<Longrightarrow> \<not> sv_udp_alive st \<Longrightarrow> \<not> sv_udp_alive st'"
  by (induction rule: server_steps.induct) (auto dest: step_keeps_udp_dead)

text \<open>C36: a panic outlives its task. A message that makes the task of a TLS connection panic leaves
  the entry of the connection in the table: it counts against the limit in every later state, as
  long as the peer does not connect again from the same address and port. A datagram that makes
  the UDP listener panic ends UDP for every client, in every later state.\<close>

theorem panic_outlives_task:
  assumes "server_reach cfg st"
  shows "(\<forall>peer task chunk ms rest closed envs st'. hm_get (sv_tasks st) peer = Some task \<and>
       read_round (ct_buffer task) chunk = (ms, rest, closed) \<and>
       fst (run_messages cfg envs peer (Stream (ct_channel task)) ms st) = None \<and>
       steps_without cfg peer (snd (connection_read cfg envs peer task chunk st)) st' \<longrightarrow>
       hm_get (sv_connections st') peer \<noteq> None \<and> hm_get (sv_tasks st') peer = None) \<and>
     (\<forall>peer data env st'. valid_utf8 data \<and> fst (process_sip_message cfg env data peer (Udp_Sink peer) Udp st) = None \<and>
       server_steps cfg (snd (udp_datagram cfg env peer data st)) st' \<longrightarrow>
       \<not> sv_udp_alive st')"
proof -
  have "\<not> sv_udp_alive (snd (udp_datagram cfg env peer data st))"
    if "valid_utf8 data" "fst (process_sip_message cfg env data peer (Udp_Sink peer) Udp st) = None" for peer data env
    using that by (auto simp: udp_datagram_def split: prod.split)
  then show ?thesis using panic_leaks_connection [OF assms] udp_stays_dead by blast
qed

section \<open>What gives a connection its identity\<close>

lemma reject_not_200:
  "reason \<in> {''Bad Request'', ''Forbidden''} \<Longrightarrow> code \<in> {400, 403} \<Longrightarrow>
   fst (reject cfg env msg ip code reason st) = Some r \<Longrightarrow> extract_status_code r \<noteq> Some 200"
  using built_status_plain [of reason code msg "env_tag env"] by (auto simp: reject_def LF_def)

lemma challenge_not_200:
  "extract_status_code (fst (digest_challenge cfg now rnd tag msg ip st)) \<noteq> Some 200"
proof -
  have "LF \<notin> set ''Unauthorized''" by (simp add: LF_def)
  from built_status [OF this, of 401] show ?thesis by (simp add: digest_challenge_def Let_def)
qed

lemma with_auth_200:
  assumes "extract_header_value msg ''Authorization'' = Some av"
    and "fst (register_with_auth cfg env msg ext ip peer tp av st) = Some r" "extract_status_code r = Some 200"
  shows "credentials_ok cfg env msg ip st ext"
proof (cases "parse_authorization av")
  case None
  then show ?thesis using assms challenge_not_200 by (auto simp: register_with_auth_def case_prod_beta)
next
  case (Some params)
  show ?thesis
  proof (cases "d_username params = ext \<and> fst (validate_nonce (env_now env) (d_nonce params) ip
      (Option.bind (d_nc params) (parse_hex 64)) (d_qop params) st) \<and>
      validate_digest (env_md5 env) (reg_password cfg ext) ''REGISTER'' params")
    case True
    then show ?thesis using Some assms(1) by (simp add: credentials_ok_def validate_nonce_iff nc_value_def)
  next
    case False
    then show ?thesis using Some assms(2,3) challenge_not_200 reject_not_200 [of "''Forbidden''" 403]
      by (cases "validate_nonce (env_now env) (d_nonce params) ip (Option.bind (d_nc params) (parse_hex 64)) (d_qop params) st";
          cases "fst (validate_nonce (env_now env) (d_nonce params) ip (Option.bind (d_nc params) (parse_hex 64)) (d_qop params) st)")
        (auto simp: register_with_auth_def case_prod_beta split: if_splits)
  qed
qed

lemma register_200_authorised:
  assumes "fst (handle_register cfg env msg peer tp st) = Some r" "extract_status_code r = Some 200"
  shows "\<exists>ext. register_extension msg = Some (Some ext) \<and> authorised cfg env msg peer tp st ext"
proof -
  have "LF \<notin> set ''Forbidden''" by (simp add: LF_def)
  note blocked = built_status_plain [OF this, of 403 msg "env_tag env"]
  have nb: "\<not> is_blocked cfg (ip_text peer) st"
    using assms blocked by (auto simp: handle_register_def Let_def)
  have no: "fst (reject cfg env msg (ip_text peer) 400 ''Bad Request'' st) \<noteq> Some r"
    "fst (reject cfg env msg (ip_text peer) 403 ''Forbidden'' st) \<noteq> Some r"
    using assms(2) reject_not_200 by blast+
  obtain ext n where e: "register_extension msg = Some (Some ext)" "parse_uint 32 ext = Some n"
    "\<not> (n < r_range_start cfg \<or> r_range_end cfg < n)" "\<not> (tp = Udp \<and> ext \<notin> set (r_insecure_extensions cfg))"
    using assms(1) nb no by (auto simp: handle_register_def Let_def split: option.splits if_splits)
  have "extract_header_value msg ''Authorization'' \<noteq> None"
    using assms nb e challenge_not_200
    by (cases "extract_header_value msg ''Authorization''") (auto simp: handle_register_def Let_def case_prod_beta)
  then obtain av where av: "extract_header_value msg ''Authorization'' = Some av" by blast
  have "fst (register_with_auth cfg env msg ext (ip_text peer) peer tp av st) = Some r"
    using assms(1) nb e av by (simp add: handle_register_def Let_def)
  from with_auth_200 [OF av this assms(2)] nb e show ?thesis
    by (auto simp: authorised_def extension_ok_def)
qed

lemma associate_identity:
  assumes "associate_connection msg peer sink tp r st = Some (d, st')"
    and "get_connection_extension p st' = Some ext" "get_connection_extension p st \<noteq> Some ext"
  shows "p = peer \<and> extract_status_code r = Some 200 \<and>
     (\<exists>uri. extract_uri_from_header msg ''To'' = Some (Some uri) \<and> extract_extension uri = Some (Some ext))"
  using assms
  by (auto simp: associate_connection_def get_connection_extension_def set_connection_extension_def
      clear_connection_extension_def put_extension_get Let_def bind_eq_Some_conv split: if_splits option.splits)

lemma identity_router [simp]:
  "get_connection_extension p (st\<lparr>sv_router := rt\<rparr>) = get_connection_extension p st"
  "get_connection_extension p (st\<lparr>sv_messages := ms\<rparr>) = get_connection_extension p st"
  by (simp_all add: get_connection_extension_def)

lemma serve_register_identity:
  assumes "get_connection_extension p (snd (snd (serve_register cfg env msg peer sink tp st))) = Some ext"
    and "get_connection_extension p st \<noteq> Some ext"
  shows "p = peer \<and> authorised (rc_reg (svc_router cfg)) (se_reg env) msg peer tp (rt_registrar (sv_router st)) ext"
proof -
  obtain a reg where h: "handle_register (rc_reg (svc_router cfg)) (se_reg env) msg peer tp (rt_registrar (sv_router st)) = (a, reg)"
    by (cases "handle_register (rc_reg (svc_router cfg)) (se_reg env) msg peer tp (rt_registrar (sv_router st))")
  let ?st = "st\<lparr>sv_router := (sv_router st)\<lparr>rt_registrar := reg\<rparr>\<rparr>"
  obtain r d st' where a: "a = Some r" "associate_connection msg peer sink tp r ?st = Some (d, st')"
    "get_connection_extension p st' = Some ext"
    using assms h by (auto simp: serve_register_def Let_def split: option.splits)
  have "get_connection_extension p ?st \<noteq> Some ext" using assms(2) by simp
  from associate_identity [OF a(2,3) this] obtain uri where u: "p = peer" "extract_status_code r = Some 200"
    "extract_uri_from_header msg ''To'' = Some (Some uri)" "extract_extension uri = Some (Some ext)" by blast
  have "fst (handle_register (rc_reg (svc_router cfg)) (se_reg env) msg peer tp (rt_registrar (sv_router st))) = Some r"
    using h a(1) by simp
  from register_200_authorised [OF this u(2)] u show ?thesis by (auto simp: register_extension_def)
qed

lemma other_methods_identity:
  assumes "meth \<noteq> ''REGISTER''"
  shows "sv_connections (snd (snd (serve_request cfg env meth msg peer sink tp st))) = sv_connections st"
  using assms
  by (simp add: serve_request_def serve_message_def from_router_def from_router_silent_def Let_def
      split: prod.split option.split)

text \<open>C6: where the identity of a connection comes from. A message gives a connection the identity of
  an extension only if it arrived on this very connection and is a REGISTER that is authorised
  for that extension.\<close>

theorem identity_from_register:
  assumes "process_sip_message cfg env msg peer sink tp st = (r, effs, st')"
    and "get_connection_extension p st' = Some ext" "get_connection_extension p st \<noteq> Some ext"
  shows "p = peer \<and> extract_method msg = Some ''REGISTER'' \<and>
     authorised (rc_reg (svc_router cfg)) (se_reg env) msg peer tp (rt_registrar (sv_router st)) ext"
proof -
  have st': "st' = snd (snd (process_sip_message cfg env msg peer sink tp st))" using assms(1) by simp
  have same: "\<not> sv_connections st' = sv_connections st"
    using assms(2,3) by (auto simp: get_connection_extension_def)
  obtain meth where m: "extract_method msg = Some meth" "is_request msg" "\<not> trim msg = []"
    using same st' by (auto simp: process_sip_message_def from_router_silent_def split: if_splits option.splits prod.splits)
  then have s: "st' = snd (snd (serve_request cfg env meth msg peer sink tp st))"
    using st' by (simp add: process_sip_message_def)
  then have meth: "meth = ''REGISTER''" using same other_methods_identity by blast
  then have "st' = snd (snd (serve_register cfg env msg peer sink tp st))" using s by (simp add: serve_request_def Let_def)
  with serve_register_identity assms(2,3) m meth show ?thesis by blast
qed

text \<open>No call under another identity. What an INVITE on a TLS connection sends goes out only
  when the connection has the identity of the caller that its From header names.\<close>

theorem tls_call_identity:
  assumes "process_sip_message cfg env msg peer (Stream ch) Tls st = (r, effs, st')"
    and "extract_method msg = Some ''INVITE''" "In_Call e \<in> set effs" "is_request msg"
  shows "\<exists>caller. caller_extension msg = Some caller \<and> caller \<noteq> [] \<and>
     get_connection_extension peer st = Some caller \<and>
     is_registered (ce_now (se_call env)) caller (rt_registrar (sv_router st))"
proof -
  let ?h = "handle_invite (svc_router cfg) (se_call env) msg (Stream ch) peer (get_connection_extension peer st) (sv_router st)"
  have "\<not> trim msg = []" using assms(1,3) by (auto simp: process_sip_message_def split: if_splits)
  then have "(r, effs, st') = from_router (Stream ch) st ?h"
    using assms(1,2,4) by (simp add: process_sip_message_def serve_request_def Let_def)
  then have e: "e \<in> set (fst (snd ?h))"
    using assms(3) by (auto simp: from_router_def Let_def split: prod.splits option.splits)
  show ?thesis
  proof (cases rule: handle_invite_cases [of "svc_router cfg" "se_call env" msg "Stream ch" peer
        "get_connection_extension peer st" "sv_router st"])
    case refused
    then show ?thesis using e by simp
  next
    case (placed caller callee)
    have "get_connection_extension peer st = Some caller"
      using placed(5) by (auto simp: connection_may_call_def split: option.splits)
    with placed show ?thesis by blast
  qed
qed

section \<open>Answers\<close>

fun is_reply :: "server_effect \<Rightarrow> bool" where
  "is_reply (Reply sink m) \<longleftrightarrow> True"
| "is_reply (In_Call e) \<longleftrightarrow> False"
| "is_reply (Deliver ext) \<longleftrightarrow> False"

lemma no_replies [simp]: "filter is_reply (map In_Call effs) = []" "filter is_reply (map (\<lambda>(s, t). In_Call (Send_Text s t)) sent) = []"
  by (auto simp: filter_empty_conv)

text \<open>C13: every request is answered once. A request that is served without a panic gets exactly one
  answer, on the outlet it came with; an ACK gets none.\<close>

theorem request_answered_once:
  assumes "process_sip_message cfg env msg peer sink tp st = (Some (), effs, st')"
    and "trim msg \<noteq> []" "is_request msg" "extract_method msg = Some meth"
  shows "if meth = ''ACK'' then filter is_reply effs = []
     else \<exists>answer. filter is_reply effs = [Reply sink answer]"
  using assms
  by (auto simp: process_sip_message_def serve_request_def serve_register_def serve_message_def from_router_def
      from_router_silent_def Let_def split: if_splits option.splits prod.splits)

section \<open>UDP clients\<close>

lemma step_without_entry:
  assumes "server_step cfg st effs st'" "server_inv st" "hm_get (sv_connections st) peer = None"
    and "hm_get (sv_tasks st') peer = None"
  shows "hm_get (sv_connections st') peer = None"
  using assms
proof (induction rule: server_step.induct)
  case (accept st accepted st')
  then show ?case by (auto simp: accept_connection_def split: if_splits)
next
  case (no_handshake st)
  then show ?case by (simp add: handshake_failed_def)
next
  case (handshake st p ch)
  then show ?case by (auto simp: handshake_done_def register_connection_def Let_def split: if_splits)
next
  case (read st p task envs chunk effs st')
  obtain ms rest closed where rd: "read_round (ct_buffer task) chunk = (ms, rest, closed)"
    by (cases "read_round (ct_buffer task) chunk")
  obtain r es st1 where run: "run_messages cfg envs p (Stream (ct_channel task)) ms st = (r, es, st1)"
    by (cases "run_messages cfg envs p (Stream (ct_channel task)) ms st")
  have same: "same_tasks p st st1"
    using run_messages_same [of p st cfg envs "Stream (ct_channel task)" ms] run by simp
  have "hm_get (sv_connections st1) peer = None" using same_tasks_get(5) [OF same, of peer] read(5) by simp
  then show ?case using read(2) rd run by (cases r; cases closed) (auto simp: connection_read_def)
next
  case (close st p)
  then show ?case by simp
next
  case (datagram st env p data effs st')
  have "same_tasks p st (snd (snd (process_sip_message cfg env data p (Udp_Sink p) Udp st)))"
    by (rule process_same)
  from same_tasks_get(5) [OF this, of peer] datagram(2,5) show ?case
    by (auto simp: udp_datagram_def split: if_splits option.splits prod.splits)
next
  case (udp_cleanup st now)
  then show ?case by (simp add: udp_cleanup_idle)
qed simp_all

lemma steps_without_entry:
  assumes "steps_without cfg peer st st'" "server_inv st" "hm_get (sv_connections st) peer = None"
  shows "hm_get (sv_connections st') peer = None \<and> server_inv st'"
  using assms
proof (induction rule: steps_without.induct)
  case (more st1 effs st')
  then show ?case using step_without_entry [OF more(2)] server_step_inv [OF more(2)] by blast
qed simp

text \<open>C37: UDP clients cannot send messages. Whatever a client without a TLS connection does, its
  registration included, it never gets an entry in the table of connections; so every MESSAGE it
  sends by UDP is refused with 403 and neither forwarded nor stored.\<close>

theorem udp_sender_refused:
  assumes "server_reach cfg st" "hm_get (sv_connections st) peer = None" "steps_without cfg peer st st'"
    and "valid_utf8 msg" "trim msg \<noteq> []" "is_request msg" "extract_method msg = Some ''MESSAGE''"
  shows "udp_datagram cfg env peer msg st' =
     ([Reply (Udp_Sink peer) (build_response msg 403 ''Forbidden'' (ce_tag (se_call env)))], st')"
proof -
  have none: "hm_get (sv_connections st') peer = None"
    using steps_without_entry [OF assms(3) server_reach_inv [OF assms(1)] assms(2)] by blast
  then have "get_connection_extension peer st' = None" by (simp add: get_connection_extension_def)
  then have "serve_message cfg env msg peer (Udp_Sink peer) st' =
      (Some (), [Reply (Udp_Sink peer) (build_response msg 403 ''Forbidden'' (ce_tag (se_call env)))], st')"
    by (simp add: serve_message_def handle_message_def message_env_of_def)
  with assms(4-7) show ?thesis
    by (simp add: udp_datagram_def process_sip_message_def serve_request_def Let_def)
qed

section \<open>Two connections of one extension\<close>

text \<open>C38: a closed outlet stays in use. When an extension is connected twice and the connection that
  signed on last closes, its closed channel remains the outlet of the extension: calls and
  messages go to it and not to the connection that is left.\<close>

theorem stale_outlet:
  assumes "hm_get (sv_connections st) p = Some c" "cs_extension c = Some ext"
    and "hm_get (sv_connections st) q = Some d" "cs_extension d = Some ext" "q \<noteq> p"
    and "hm_get (rt_writers (sv_router st)) ext = Some (cs_sink c)"
  shows "hm_get (sv_connections (close_connection p st)) p = None \<and>
     hm_get (sv_connections (close_connection p st)) q = Some d \<and>
     call_outbound cfg now ext (sv_router (close_connection p st)) = Some (cs_sink c) \<and>
     get_outbound mcfg now (rt_writers (sv_router (close_connection p st))) reg ext = Some (cs_sink c)"
proof -
  have q: "hm_get (hm_remove p (sv_connections st)) q = Some d" using assms(3,5) by simp
  then have "d \<in> set (hm_values (hm_remove p (sv_connections st)))" unfolding hm_values_get by blast
  then have "list_ex (\<lambda>conn. cs_extension conn = Some ext) (hm_values (hm_remove p (sv_connections st)))"
    using assms(4) by (auto simp: list_ex_iff)
  then have "sv_router (close_connection p st) = sv_router st"
    by (simp add: close_connection_def remove_connection_def get_connection_extension_def assms(1,2)
        has_connection_for_extension_def)
  with q assms(6) show ?thesis by (simp add: call_outbound_def get_outbound_def)
qed

section \<open>The properties at work\<close>

definition ex_server_cfg :: serving_config where
  "ex_server_cfg = \<lparr>svc_router = ex_router_cfg, svc_messages = ex_message_cfg, svc_lib = ex_lib\<rparr>"

definition ex_server_env :: server_env where
  "ex_server_env = \<lparr>se_reg = ex_env, se_call = ex_call_env\<rparr>"

definition ex_connected :: server_state where
  "ex_connected = handshake_done ex_peer 1
     (snd (accept_connection (server_new registrar_new (manager_new 20000 20100 ''0.0.0.0'') True)))"

lemma ex_connected_reach: "server_reach cfg ex_connected"
proof -
  let ?st = "server_new registrar_new (manager_new 20000 20100 ''0.0.0.0'') True"
  have "server_step cfg ?st [] (snd (accept_connection ?st))"
    by (rule server_step.accept) (rule prod.collapse [symmetric])
  from server_reach.step [OF server_reach.start this]
  have "server_reach cfg (snd (accept_connection ?st))" .
  moreover have "server_step cfg (snd (accept_connection ?st)) [] ex_connected"
    unfolding ex_connected_def by (rule server_step.handshake)
      (simp_all add: accept_connection_def server_new_def MAX_CONNECTIONS_def)
  ultimately show ?thesis by (rule server_reach.step)
qed

definition ex_bad_register :: string where
  "ex_bad_register = unlines [''REGISTER sip:pbx SIP/2.0'', ''To: >x<'', ''Content-Length: 0''] @ CRLF"

lemma ex_bad_register_panics:
  "valid_utf8 ex_bad_register"
  "hm_get (sv_tasks ex_connected) ex_peer = Some \<lparr>ct_channel = 1, ct_buffer = []\<rparr>"
  "read_round [] ex_bad_register = ([ex_bad_register], [], False)"
  "fst (process_sip_message ex_server_cfg ex_server_env ex_bad_register ex_peer sink tp ex_connected) = None"
  "fst (run_messages ex_server_cfg (\<lambda>i. ex_server_env) ex_peer sink [ex_bad_register] ex_connected) = None"
proof -
  show v: "valid_utf8 ex_bad_register" and "read_round [] ex_bad_register = ([ex_bad_register], [], False)" by code_simp+
  show "hm_get (sv_tasks ex_connected) ex_peer = Some \<lparr>ct_channel = 1, ct_buffer = []\<rparr>"
    by (simp add: ex_connected_def handshake_done_def register_connection_def Let_def)
  have m: "trim ex_bad_register \<noteq> []" "is_request ex_bad_register"
    "extract_method ex_bad_register = Some ''REGISTER''" "register_extension ex_bad_register = None"
    by code_simp+
  have b: "\<not> is_blocked (rc_reg (svc_router ex_server_cfg)) (ip_text ex_peer) (rt_registrar (sv_router ex_connected))"
    by code_simp
  show p: "fst (process_sip_message ex_server_cfg ex_server_env ex_bad_register ex_peer sink tp ex_connected) = None" for tp
    using m b by (simp add: process_sip_message_def serve_request_def serve_register_def handle_register_def Let_def)
  show "fst (run_messages ex_server_cfg (\<lambda>i. ex_server_env) ex_peer sink [ex_bad_register] ex_connected) = None"
    using p [of Tls] v by (auto split: prod.split option.split)
qed

theorem panic_outlives_task_witness:
  "hm_get (sv_connections (snd (connection_read ex_server_cfg (\<lambda>i. ex_server_env) ex_peer
     \<lparr>ct_channel = 1, ct_buffer = []\<rparr> ex_bad_register ex_connected))) ex_peer \<noteq> None \<and>
   sv_udp_alive ex_connected \<and>
   \<not> sv_udp_alive (snd (udp_datagram ex_server_cfg ex_server_env ex_peer ex_bad_register ex_connected))"
proof -
  have "sv_udp_alive ex_connected"
    by (simp add: ex_connected_def handshake_done_def accept_connection_def register_connection_def server_new_def Let_def)
  moreover have "read_round (ct_buffer \<lparr>ct_channel = 1, ct_buffer = []\<rparr>) ex_bad_register = ([ex_bad_register], [], False)"
    "fst (run_messages ex_server_cfg (\<lambda>i. ex_server_env) ex_peer (Stream (ct_channel \<lparr>ct_channel = 1, ct_buffer = []\<rparr>))
       [ex_bad_register] ex_connected) = None"
    by (simp_all only: connection_task.simps ex_bad_register_panics)
  ultimately show ?thesis
    using panic_outlives_task [OF ex_connected_reach, of ex_server_cfg] ex_bad_register_panics(1,2,4)
      steps_without.none server_steps.none by blast
qed

definition ex_on_line :: server_state where
  "ex_on_line = (set_connection_extension ex_peer ''1001'' ex_connected)\<lparr>sv_router := ex_ready\<rparr>"

lemma ex_on_line_identity: "get_connection_extension ex_peer ex_on_line = Some ''1001''"
  by (simp add: ex_on_line_def get_connection_extension_def set_connection_extension_def put_extension_get
      ex_connected_def handshake_done_def register_connection_def Let_def)

theorem tls_call_identity_witness:
  "caller_extension ex_call_invite = get_connection_extension ex_peer ex_on_line"
proof -
  obtain invite where i: "handle_invite ex_router_cfg ex_call_env ex_call_invite (Stream 1) ex_peer (Some ''1001'') ex_ready =
     (Some (build_response ex_call_invite 100 ''Trying'' ''t1''), [Send_Text (Stream 2) invite], ex_ringing)"
    using ex_rings by blast
  have m: "trim ex_call_invite \<noteq> []" "is_request ex_call_invite" "extract_method ex_call_invite = Some ''INVITE''"
    by code_simp+
  have r: "sv_router ex_on_line = ex_ready" by (simp add: ex_on_line_def)
  have "process_sip_message ex_server_cfg ex_server_env ex_call_invite ex_peer (Stream 1) Tls ex_on_line =
     (Some (), [In_Call (Send_Text (Stream 2) invite), Reply (Stream 1) (build_response ex_call_invite 100 ''Trying'' ''t1'')],
      ex_on_line\<lparr>sv_router := ex_ringing\<rparr>)"
    using m i r ex_on_line_identity
    by (simp add: process_sip_message_def serve_request_def from_router_def ex_server_cfg_def ex_server_env_def)
  from tls_call_identity [OF this m(3) _ m(2), of "Send_Text (Stream 2) invite"] show ?thesis by auto
qed

definition ex_challenged_server :: server_state where
  "ex_challenged_server = ex_connected\<lparr>sv_router := (sv_router ex_connected)\<lparr>rt_registrar :=
     snd (handle_register ex_reg_cfg ex_env (ex_sip_register ''1001'' []) ex_peer Tls registrar_new)\<rparr>\<rparr>"

definition ex_signing_on :: string where
  "ex_signing_on = ex_sip_register ''1001'' [ex_sip_auth ''1001'' ''6162'']"

theorem identity_from_register_witness:
  "authorised ex_reg_cfg ex_env ex_signing_on ex_peer Tls (rt_registrar (sv_router ex_challenged_server)) ''1001''"
proof -
  let ?r = "process_sip_message ex_server_cfg ex_server_env ex_signing_on ex_peer (Stream 1) Tls ex_challenged_server"
  have "get_connection_extension ex_peer (snd (snd ?r)) = Some ''1001''" by code_simp
  moreover have "get_connection_extension ex_peer ex_challenged_server \<noteq> Some ''1001''"
    by (simp add: ex_challenged_server_def get_connection_extension_def ex_connected_def handshake_done_def
        register_connection_def Let_def)
  moreover have "?r = (fst ?r, fst (snd ?r), snd (snd ?r))" by simp
  ultimately show ?thesis using identity_from_register [of ex_server_cfg ex_server_env ex_signing_on ex_peer "Stream 1" Tls
      ex_challenged_server "fst ?r" "fst (snd ?r)" "snd (snd ?r)" ex_peer "''1001''"]
    by (simp add: ex_server_cfg_def ex_server_env_def ex_router_cfg_def)
qed

definition ex_options :: string where
  "ex_options = unlines [''OPTIONS sip:pbx SIP/2.0'', ''Via: SIP/2.0/TLS 10.0.0.7;branch=z9hG4bK1'',
     ''Call-ID: o1'', ''CSeq: 1 OPTIONS''] @ CRLF"

theorem request_answered_once_witness:
  "\<exists>answer. filter is_reply (fst (snd (process_sip_message ex_server_cfg ex_server_env ex_options ex_peer
     (Stream 1) Tls ex_connected))) = [Reply (Stream 1) answer]"
proof -
  have m: "trim ex_options \<noteq> []" "is_request ex_options" "extract_method ex_options = Some ''OPTIONS''"
    by code_simp+
  then obtain effs where o: "process_sip_message ex_server_cfg ex_server_env ex_options ex_peer (Stream 1) Tls ex_connected =
      (Some (), effs, ex_connected)"
    by (simp add: process_sip_message_def serve_request_def Let_def)
  from request_answered_once [OF this m] o show ?thesis by simp
qed

definition ex_udp_message :: string where
  "ex_udp_message = unlines [''MESSAGE sip:1002@pbx SIP/2.0'', ''From: <sip:1001@pbx>;tag=1'',
     ''To: <sip:1002@pbx>'', ''Content-Length: 2''] @ CRLF @ ''hi''"

theorem udp_sender_refused_witness:
  "snd (udp_datagram ex_server_cfg ex_server_env ex_peer ex_udp_message
     (server_new registrar_new (manager_new 20000 20100 ''0.0.0.0'') True)) =
     server_new registrar_new (manager_new 20000 20100 ''0.0.0.0'') True"
proof -
  let ?st = "server_new registrar_new (manager_new 20000 20100 ''0.0.0.0'') True"
  have m: "valid_utf8 ex_udp_message" "trim ex_udp_message \<noteq> []" "is_request ex_udp_message"
    "extract_method ex_udp_message = Some ''MESSAGE''"
    by code_simp+
  have "hm_get (sv_connections ?st) ex_peer = None" by (simp add: server_new_def)
  from udp_sender_refused [OF server_reach.start this steps_without.none m] show ?thesis by simp
qed

text \<open>Two connections of extension 1001; the second one signed on last.\<close>

definition ex_twice :: server_state where
  "ex_twice =
     (let a = ex_addr 1; b = ex_addr 2;
          st = handshake_done b 2 (handshake_done a 1 (server_new registrar_new (manager_new 20000 20100 ''0.0.0.0'') True));
          st1 = set_connection_extension b ''1001'' (set_connection_extension a ''1001'' st)
      in st1\<lparr>sv_router := register_writer ''1001'' (Stream 2) (register_writer ''1001'' (Stream 1) (sv_router st1))\<rparr>)"

theorem stale_outlet_witness:
  "call_outbound ex_router_cfg 1000 ''1001'' (sv_router (close_connection (ex_addr 2) ex_twice)) = Some (Stream 2)"
proof -
  let ?c = "\<lparr>cs_peer = ex_addr 2, cs_extension = Some ''1001'', cs_sink = Stream 2\<rparr>"
  let ?d = "\<lparr>cs_peer = ex_addr 1, cs_extension = Some ''1001'', cs_sink = Stream 1\<rparr>"
  have n: "ex_addr 1 \<noteq> ex_addr 2" by code_simp
  have e: "hm_get (sv_connections ex_twice) (ex_addr 2) = Some ?c" "hm_get (sv_connections ex_twice) (ex_addr 1) = Some ?d"
    using n by (simp_all add: ex_twice_def Let_def set_connection_extension_def put_extension_get handshake_done_def
        register_connection_def)
  have "hm_get (rt_writers (sv_router ex_twice)) ''1001'' = Some (cs_sink ?c)"
    by (simp add: ex_twice_def Let_def register_writer_def)
  from stale_outlet [OF e(1) _ e(2) _ n this] show ?thesis by simp
qed

end
