(* ===== verification/Whole_Server.thy ===== *)
theory Whole_Server
  imports Serving
begin

text \<open>
  The components together. Every history of the server is, seen from one component, a history of
  that component: the router only makes the steps of \<open>router_step\<close>, the registrar those of
  \<open>reg_step\<close>, the message service those of \<open>msg_step\<close>. So the invariants proved for the components
  on their own hold in every state the running server can reach.
\<close>

section \<open>The projections of a state\<close>

definition components_reach :: "serving_config \<Rightarrow> server_state \<Rightarrow> bool" where
  "components_reach cfg st \<longleftrightarrow>
     router_reach (svc_router cfg) (svc_lib cfg) (sv_router st) \<and>
     reg_reach (rc_reg (svc_router cfg)) (rt_registrar (sv_router st)) \<and>
     msg_reach (sv_messages st)"

section \<open>What a step of the router does to the registrations\<close>

lemma start_registrar [frame_simps]: "rt_registrar (snd (start_media_relay env cid rt)) = rt_registrar rt"
  by (simp add: start_media_relay_def split: option.split)

lemma connect_registrar [frame_simps]:
  "rt_registrar (snd (snd (connect_call cfg env request body cid caller callee sink sink' tg crypto session rt))) = rt_registrar rt"
  by (simp add: connect_call_def Let_def case_prod_beta cleanup_call_calls split: option.split)

lemma reach_registrar [frame_simps]:
  "rt_registrar (snd (snd (reach_callee cfg env request cid caller callee sink rt))) = rt_registrar rt"
  by (simp add: reach_callee_def Let_def frame_simps split: option.split prod.split)

lemma place_registrar [frame_simps]:
  "rt_registrar (snd (snd (place_call cfg env request caller callee sink rt))) = rt_registrar rt"
  by (simp add: place_call_def Let_def case_prod_beta frame_simps cleanup_call_calls split: option.split)

lemma after_registrar [frame_simps]: "rt_registrar (snd (after_forwarding env status cid rt)) = rt_registrar rt"
  by (simp add: after_forwarding_def frame_simps cleanup_call_calls split: option.split)

lemma forward_registrar [frame_simps]:
  "rt_registrar (snd (snd (forward_response cfg env status response cid call rt))) = rt_registrar rt"
  by (simp add: forward_response_def Let_def case_prod_beta frame_simps cleanup_call_calls split: option.split)

lemma response_registrar [frame_simps]:
  "rt_registrar (snd (snd (handle_callee_response cfg env response rt))) = rt_registrar rt"
  by (simp add: handle_callee_response_def Let_def case_prod_beta frame_simps cleanup_call_calls split: option.split)

lemma bye_registrar [frame_simps]: "rt_registrar (snd (snd (handle_bye cfg env request fe rt))) = rt_registrar rt"
  by (cases rule: handle_bye_cases [of cfg env request fe rt]) (simp_all add: no_call_state cleanup_call_calls)

lemma cancel_registrar [frame_simps]: "rt_registrar (snd (snd (handle_cancel cfg env request rt))) = rt_registrar rt"
  by (cases rule: handle_cancel_cases [of cfg env request rt]) (simp_all add: no_call_state cleanup_call_calls terminated_def)

text \<open>A refused INVITE counts as a failure of its address; nothing else touches the registrar.\<close>

lemma invite_registrar:
  "rt_registrar (snd (snd (handle_invite cfg env request sink from_addr ext rt))) = rt_registrar rt \<or>
   reg_step (rc_reg cfg) (rt_registrar rt) (rt_registrar (snd (snd (handle_invite cfg env request sink from_addr ext rt))))"
  by (simp add: handle_invite_def Let_def refuse_caller_def frame_simps reg_step.failure split: option.split)

lemma router_step_registrar:
  assumes "router_step cfg lib rt effs rt'"
  shows "rt_registrar rt' = rt_registrar rt \<or> reg_step (rc_reg cfg) (rt_registrar rt) (rt_registrar rt')"
  using assms
proof (induction rule: router_step.induct)
  case (invite env request sink from_addr ext rt r effs rt')
  then show ?case using invite_registrar [of cfg env request sink from_addr ext rt] by simp
next
  case (response env request rt u effs rt')
  then show ?case using response_registrar [of cfg env request rt] by simp
next
  case (ack env request rt u effs rt')
  then show ?case using handle_ack_state [of cfg env request rt] by simp
next
  case (bye env request from_ext rt r effs rt')
  then show ?case using bye_registrar [of cfg env request from_ext rt] by simp
next
  case (cancel env request rt r effs rt')
  then show ?case using cancel_registrar [of cfg env request rt] by simp
qed (simp_all add: register_writer_def unregister_writer_def)

section \<open>The projections step by step\<close>

lemma components_cong:
  "sv_router st' = sv_router st \<Longrightarrow> sv_messages st' = sv_messages st \<Longrightarrow>
   components_reach cfg st' = components_reach cfg st"
  by (simp add: components_reach_def)

lemma components_router:
  assumes "components_reach cfg st" "router_step (svc_router cfg) (svc_lib cfg) (sv_router st) effs rt"
  shows "components_reach cfg (st\<lparr>sv_router := rt\<rparr>)"
  using assms(1) router_step_registrar [OF assms(2)] router_reach.step [OF _ assms(2)]
  by (auto simp: components_reach_def intro: reg_reach.step)

lemma components_messages:
  assumes "components_reach cfg st" "msg_step (sv_messages st) ms"
  shows "components_reach cfg (st\<lparr>sv_messages := ms\<rparr>)"
  using assms msg_reach.step [OF _ assms(2)] by (simp add: components_reach_def)

section \<open>One message\<close>

lemma associate_components:
  assumes "associate_connection msg peer sink tp response st = Some (d, st')" "components_reach cfg st"
  shows "components_reach cfg st'"
  using assms components_router [OF _ router_step.writer] components_router [OF _ router_step.no_writer]
  by (auto simp: associate_connection_def set_connection_extension_def clear_connection_extension_def Let_def
      components_reach_def
      split: if_splits option.splits)

lemma register_components:
  assumes "components_reach cfg st"
  shows "components_reach cfg (snd (snd (serve_register cfg env msg peer sink tp st)))"
proof -
  obtain a reg where h: "handle_register (rc_reg (svc_router cfg)) (se_reg env) msg peer tp (rt_registrar (sv_router st)) = (a, reg)"
    by (cases "handle_register (rc_reg (svc_router cfg)) (se_reg env) msg peer tp (rt_registrar (sv_router st))")
  let ?st = "st\<lparr>sv_router := (sv_router st)\<lparr>rt_registrar := reg\<rparr>\<rparr>"
  have "reg_step (rc_reg (svc_router cfg)) (rt_registrar (sv_router st)) reg"
    using reg_step.handle [of "rc_reg (svc_router cfg)" "rt_registrar (sv_router st)" "se_reg env" msg peer tp] h by simp
  then have c: "components_reach cfg ?st" by (intro components_router [OF assms router_step.registrar])
  show ?thesis
  proof (cases a)
    case None
    with h c show ?thesis by (simp add: serve_register_def Let_def)
  next
    case (Some r)
    then show ?thesis using h c associate_components [of msg peer sink tp r ?st _ _ cfg]
      by (cases "associate_connection msg peer sink tp r ?st") (auto simp: serve_register_def Let_def)
  qed
qed

lemma from_router_components:
  assumes "components_reach cfg st" "router_step (svc_router cfg) (svc_lib cfg) (sv_router st) (fst (snd h)) (snd (snd h))"
  shows "components_reach cfg (snd (snd (from_router sink st h)))"
  using components_router [OF assms] by (simp add: from_router_def Let_def case_prod_beta split: option.split)

lemma from_router_silent_components:
  assumes "components_reach cfg st" "router_step (svc_router cfg) (svc_lib cfg) (sv_router st) (fst (snd h)) (snd (snd h))"
  shows "components_reach cfg (snd (snd (from_router_silent st h)))"
  using components_router [OF assms] by (simp add: from_router_silent_def case_prod_beta)

lemma store_and_answer_step: "msg_step st (snd (store_and_answer env req callee sender st))"
  using msg_step.store [of st "me_now env" callee sender req]
  by (auto simp: store_and_answer_def split: prod.split store_outcome.split)

lemma message_components:
  assumes "components_reach cfg st"
  shows "components_reach cfg (snd (snd (serve_message cfg env msg peer sink st)))"
proof -
  have "ms = sv_messages st \<or> (\<exists>callee. ms = snd (store_and_answer menv msg callee sender (sv_messages st)))"
    if "handle_message mcfg menv msg sender (sv_messages st) = Some (r, s, ms)" for mcfg menv sender r s ms
    using that by (auto simp: handle_message_def Let_def case_prod_beta split: if_splits option.splits)
  then have k: "ms = sv_messages st \<or> msg_step (sv_messages st) ms"
    if "handle_message mcfg menv msg sender (sv_messages st) = Some (r, s, ms)" for mcfg menv sender r s ms
    using that store_and_answer_step by metis
  let ?sender = "case get_connection_extension peer st of Some e \<Rightarrow> e | None \<Rightarrow> []"
  show ?thesis
  proof (cases "handle_message (svc_messages cfg) (message_env_of env (sv_router st)) msg ?sender (sv_messages st)")
    case None
    then show ?thesis using assms by (simp add: serve_message_def Let_def)
  next
    case (Some x)
    obtain r s ms where x: "x = (r, s, ms)" by (cases x)
    with k Some have "ms = sv_messages st \<or> msg_step (sv_messages st) ms" by blast
    then have "components_reach cfg (st\<lparr>sv_messages := ms\<rparr>)"
      using assms components_messages [OF assms] by (auto simp: components_reach_def)
    then show ?thesis using Some x by (simp add: serve_message_def Let_def)
  qed
qed

lemma triple: "h = (fst h, fst (snd h), snd (snd h))"
  by simp

lemma request_components:
  assumes "components_reach cfg st" "ce_lib (se_call env) = svc_lib cfg"
  shows "components_reach cfg (snd (snd (serve_request cfg env meth msg peer sink tp st)))"
proof -
  note steps = router_step.invite [OF assms(2) triple] router_step.ack [OF triple] router_step.bye [OF triple]
    router_step.cancel [OF triple]
  note answered = from_router_components [OF assms(1) steps(1)] from_router_silent_components [OF assms(1) steps(2)]
    from_router_components [OF assms(1) steps(3)] from_router_components [OF assms(1) steps(4)]
  show ?thesis
    by (simp add: serve_request_def Let_def answered register_components message_components assms(1))
qed

lemma process_components:
  assumes "components_reach cfg st" "ce_lib (se_call env) = svc_lib cfg"
  shows "components_reach cfg (snd (snd (process_sip_message cfg env msg peer sink tp st)))"
  using request_components [OF assms] assms(1)
    from_router_silent_components [OF assms(1) router_step.response [OF assms(2) triple]]
  by (simp add: process_sip_message_def split: option.split)

lemma run_messages_components:
  assumes "components_reach cfg st" "\<forall>i. ce_lib (se_call (envs i)) = svc_lib cfg"
  shows "components_reach cfg (snd (snd (run_messages cfg envs peer sink ms st)))"
  using assms
proof (induction ms arbitrary: envs st)
  case (Cons m ms)
  obtain r effs st1 where p: "process_sip_message cfg (envs 0) m peer sink Tls st = (r, effs, st1)"
    by (cases "process_sip_message cfg (envs 0) m peer sink Tls st")
  have c: "components_reach cfg st1"
    using process_components [OF Cons.prems(1), of "envs 0" m peer sink Tls] Cons.prems(2) p by simp
  from Cons.IH [OF c, of "\<lambda>i. envs (Suc i)"] Cons.IH [OF Cons.prems] Cons.prems(2) c p show ?case
    by (cases r) (simp_all add: case_prod_beta)
qed simp

section \<open>The steps of the server\<close>

lemma components_frame [simp]:
  "components_reach cfg (st\<lparr>sv_tasks := tasks\<rparr>) = components_reach cfg st"
  "components_reach cfg (st\<lparr>sv_connections := conns\<rparr>) = components_reach cfg st"
  "components_reach cfg (st\<lparr>sv_pending := n\<rparr>) = components_reach cfg st"
  "components_reach cfg (st\<lparr>sv_udp_alive := b\<rparr>) = components_reach cfg st"
  by (simp_all add: components_reach_def)

lemma close_components: "components_reach cfg st \<Longrightarrow> components_reach cfg (close_connection peer st)"
  using components_router [OF _ router_step.no_writer]
  by (auto simp: close_connection_def remove_connection_def components_reach_def split: option.split)

lemma server_step_components:
  assumes "server_step cfg st effs st'" "components_reach cfg st"
  shows "components_reach cfg st'"
  using assms
proof (induction rule: server_step.induct)
  case (accept st accepted st')
  then show ?case by (auto simp: accept_connection_def split: if_splits)
next
  case (no_handshake st)
  then show ?case by (simp add: handshake_failed_def)
next
  case (handshake st peer ch)
  then show ?case by (simp add: handshake_done_def register_connection_def Let_def)
next
  case (read st peer task envs chunk effs st')
  obtain ms rest closed where rd: "read_round (ct_buffer task) chunk = (ms, rest, closed)"
    by (cases "read_round (ct_buffer task) chunk")
  obtain r es st1 where run: "run_messages cfg envs peer (Stream (ct_channel task)) ms st = (r, es, st1)"
    by (cases "run_messages cfg envs peer (Stream (ct_channel task)) ms st")
  have "components_reach cfg st1"
    using run_messages_components [OF read(4,3), of peer "Stream (ct_channel task)" ms] run by simp
  then show ?case using read(2) rd run close_components
    by (cases r; cases closed) (auto simp: connection_read_def)
next
  case (close st peer)
  then show ?case by (simp add: close_components)
next
  case (datagram st env peer data effs st')
  from process_components [OF datagram(4,3), of data peer "Udp_Sink peer" Udp] datagram(2,4) show ?case
    by (auto simp: udp_datagram_def split: if_splits option.splits prod.splits)
next
  case (udp_cleanup st now)
  then show ?case by (simp add: udp_session_cleanup_def)
next
  case (reg_cleanup st now)
  then show ?case by (intro components_router [OF _ router_step.registrar] reg_step.cleanup)
next
  case (take_stored st now ext)
  then show ?case by (intro components_messages msg_step.taking)
next
  case (put_stored st ext pending)
  then show ?case by (intro components_messages msg_step.putting)
qed simp_all

lemma server_reach_components: "server_reach cfg st \<Longrightarrow> components_reach cfg st"
proof (induction rule: server_reach.induct)
  case (start port_start port_end addr udp)
  have "rt_registrar (router_new registrar_new (manager_new port_start port_end addr)) = registrar_new"
    by (simp add: router_new_def)
  then show ?case
    by (simp add: components_reach_def server_new_def router_reach.start msg_reach.start reg_reach.start)
next
  case (step st effs st')
  then show ?case by (blast intro: server_step_components)
qed

section \<open>Where effects come from\<close>

text \<open>What the server does to calls is done by a step of the router in a state the router can reach.\<close>

definition router_effect :: "serving_config \<Rightarrow> call_effect \<Rightarrow> bool" where
  "router_effect cfg e \<longleftrightarrow> (\<exists>sink m. e = Send_Text sink m) \<or>
     (\<exists>rt effs rt'. router_reach (svc_router cfg) (svc_lib cfg) rt \<and>
        router_step (svc_router cfg) (svc_lib cfg) rt effs rt' \<and> e \<in> set effs)"

definition effects_ok :: "serving_config \<Rightarrow> server_effect list \<Rightarrow> bool" where
  "effects_ok cfg effs \<longleftrightarrow> (\<forall>e. In_Call e \<in> set effs \<longrightarrow> router_effect cfg e)"

lemma effects_ok_simps [simp]:
  "effects_ok cfg []" "effects_ok cfg (Reply sink m # effs) = effects_ok cfg effs"
  "effects_ok cfg (Deliver ext # effs) = effects_ok cfg effs"
  "effects_ok cfg (effs @ effs') = (effects_ok cfg effs \<and> effects_ok cfg effs')"
  "effects_ok cfg (In_Call e # effs) = (router_effect cfg e \<and> effects_ok cfg effs)"
  by (auto simp: effects_ok_def)

lemma sent_effects [simp]: "effects_ok cfg (map (\<lambda>(s, t). In_Call (Send_Text s t)) sent)"
  by (auto simp: effects_ok_def router_effect_def)

lemma router_effects_ok:
  assumes "components_reach cfg st" "router_step (svc_router cfg) (svc_lib cfg) (sv_router st) effs rt"
  shows "effects_ok cfg (map In_Call effs)"
proof -
  have "router_effect cfg e" if "e \<in> set effs" for e
    using that assms unfolding router_effect_def components_reach_def by blast
  then show ?thesis by (auto simp: effects_ok_def)
qed

lemma from_router_effects:
  assumes "components_reach cfg st" "router_step (svc_router cfg) (svc_lib cfg) (sv_router st) (fst (snd h)) (snd (snd h))"
  shows "effects_ok cfg (fst (snd (from_router sink st h)))"
  using router_effects_ok [OF assms] by (simp add: from_router_def Let_def case_prod_beta split: option.split)

lemma from_router_silent_effects:
  assumes "components_reach cfg st" "router_step (svc_router cfg) (svc_lib cfg) (sv_router st) (fst (snd h)) (snd (snd h))"
  shows "effects_ok cfg (fst (snd (from_router_silent st h)))"
  using router_effects_ok [OF assms] by (simp add: from_router_silent_def case_prod_beta)

lemma process_effects:
  assumes "components_reach cfg st" "ce_lib (se_call env) = svc_lib cfg"
  shows "effects_ok cfg (fst (snd (process_sip_message cfg env msg peer sink tp st)))"
proof -
  note routed = from_router_effects [OF assms(1) router_step.invite [OF assms(2) triple]]
    from_router_silent_effects [OF assms(1) router_step.ack [OF triple]]
    from_router_effects [OF assms(1) router_step.bye [OF triple]]
    from_router_effects [OF assms(1) router_step.cancel [OF triple]]
    from_router_silent_effects [OF assms(1) router_step.response [OF assms(2) triple]]
  have "effects_ok cfg (fst (snd (serve_register cfg env msg peer sink tp st)))"
    by (simp add: serve_register_def Let_def case_prod_beta split: option.split)
  moreover have "effects_ok cfg (fst (snd (serve_message cfg env msg peer sink st)))"
    by (simp add: serve_message_def Let_def case_prod_beta split: option.split)
  ultimately show ?thesis
    by (simp add: process_sip_message_def serve_request_def Let_def routed split: option.split)
qed

lemma run_messages_effects:
  assumes "components_reach cfg st" "\<forall>i. ce_lib (se_call (envs i)) = svc_lib cfg"
  shows "effects_ok cfg (fst (snd (run_messages cfg envs peer sink ms st)))"
  using assms
proof (induction ms arbitrary: envs st)
  case (Cons m ms)
  obtain r effs st1 where p: "process_sip_message cfg (envs 0) m peer sink Tls st = (r, effs, st1)"
    by (cases "process_sip_message cfg (envs 0) m peer sink Tls st")
  have c: "components_reach cfg st1" "effects_ok cfg effs"
    using process_components [OF Cons.prems(1), of "envs 0" m peer sink Tls]
      process_effects [OF Cons.prems(1), of "envs 0" m peer sink Tls] Cons.prems(2) p by simp_all
  from Cons.IH [OF c(1), of "\<lambda>i. envs (Suc i)"] Cons.IH [OF Cons.prems] Cons.prems(2) c p show ?case
    by (cases r) (simp_all add: case_prod_beta)
qed simp

lemma server_step_effects:
  assumes "server_step cfg st effs st'" "components_reach cfg st"
  shows "effects_ok cfg effs"
  using assms
proof (induction rule: server_step.induct)
  case (read st peer task envs chunk effs st')
  obtain ms rest closed where rd: "read_round (ct_buffer task) chunk = (ms, rest, closed)"
    by (cases "read_round (ct_buffer task) chunk")
  obtain r es st1 where run: "run_messages cfg envs peer (Stream (ct_channel task)) ms st = (r, es, st1)"
    by (cases "run_messages cfg envs peer (Stream (ct_channel task)) ms st")
  have "effects_ok cfg es"
    using run_messages_effects [OF read(4,3), of peer "Stream (ct_channel task)" ms] run by simp
  then show ?case using read(2) rd run by (cases r; cases closed) (auto simp: connection_read_def)
next
  case (datagram st env peer data effs st')
  from process_effects [OF datagram(4,3), of data peer "Udp_Sink peer" Udp] datagram(2) show ?case
    by (auto simp: udp_datagram_def split: if_splits option.splits prod.splits)
next
  case (send_stored sink m st)
  then show ?case by (simp add: router_effect_def)
qed simp_all

end
