(* ===== verification/Delivery.thy ===== *)
theory Delivery
  imports Serving
begin

text \<open>
  The delivery of stored messages (\<open>deliver_offline_messages\<close> of \<open>src/sip/message.rs\<close>) with the
  outlet it takes and the texts it sends, started by the REGISTER that signs the extension on.
  \<open>Message_Service\<close> has the same task as it acts on the queues; here it is shown to be that
  task, and a stored message is followed until it goes out.
\<close>

section \<open>The task with its sends\<close>

text \<open>The inputs of one delivery: the clock, the random branch of each message, and whether the
  \<open>i\<close>-th send succeeds.\<close>

record delivery_env =
  dl_now :: u64
  dl_branch :: "nat \<Rightarrow> string"
  dl_send :: "nat \<Rightarrow> bool"

definition delivery_text :: "string \<Rightarrow> string \<Rightarrow> transport \<Rightarrow> string \<Rightarrow> offline_message \<Rightarrow> string" where
  "delivery_text domain target_uri tp branch msg =
     build_outbound_request_with_from (original_request msg) target_uri domain
       (server_contact_uri (from_ext msg) domain tp) (server_contact_uri (from_ext msg) domain tp) tp branch"

text \<open>The loop: what was sent, in order, and what is left when a send fails. The counter is \<open>delivered\<close>.\<close>

fun send_stored ::
  "delivery_env \<Rightarrow> string \<Rightarrow> string \<Rightarrow> connection_sink \<Rightarrow> nat \<Rightarrow> offline_message list
     \<Rightarrow> (connection_sink \<times> string) list \<times> offline_message list" where
  "send_stored env domain target_uri sink delivered [] = ([], [])"
| "send_stored env domain target_uri sink delivered (msg # pending) =
     (let forwarded = delivery_text domain target_uri (sink_transport sink) (dl_branch env delivered) msg
      in if dl_send env delivered then
           (case send_stored env domain target_uri sink (delivered + 1) pending of
              (sent, left) \<Rightarrow> ((sink, forwarded) # sent, left))
         else ([], msg # pending))"

definition deliver_stored ::
  "message_config \<Rightarrow> delivery_env \<Rightarrow> router \<Rightarrow> string \<Rightarrow> (message_state \<Rightarrow> message_state) \<Rightarrow> message_state
     \<Rightarrow> (connection_sink \<times> string) list \<times> message_state" where
  "deliver_stored cfg env rt extension meanwhile st =
     (case take_messages (dl_now env) extension st of
        (messages, st1) \<Rightarrow>
          if messages = [] then ([], meanwhile st1)
          else
            (case get_outbound cfg (dl_now env) (rt_writers rt) (rt_registrar rt) extension of
               None \<Rightarrow> ([], put_back extension messages (meanwhile st1))
             | Some sink \<Rightarrow>
                 (let target_uri = registered_contact_uri (dl_now env) extension (m_domain cfg) (rt_registrar rt) in
                  case send_stored env (m_domain cfg) target_uri sink 0 messages of
                    (sent, left) \<Rightarrow>
                      (sent, if left = [] then meanwhile st1 else put_back extension left (meanwhile st1)))))"

text \<open>Stores by other tasks, in order.\<close>

fun store_all :: "(u64 \<times> string \<times> string \<times> string) list \<Rightarrow> message_state \<Rightarrow> message_state" where
  "store_all [] st = st"
| "store_all ((now, callee, sender, req) # xs) st =
     store_all xs (snd (store_offline_message now callee sender req st))"

section \<open>The same task\<close>

text \<open>The outcomes of the sends from the \<open>k\<close>-th on, as \<open>send_pending\<close> has them.\<close>

definition outcomes :: "delivery_env \<Rightarrow> nat \<Rightarrow> nat \<Rightarrow> bool list" where
  "outcomes env k n = map (dl_send env) [k..<k + n]"

lemma outcomes_Suc: "outcomes env k (Suc n) = dl_send env k # outcomes env (Suc k) n"
  by (simp add: outcomes_def upt_conv_Cons del: upt_Suc)

lemma send_stored_pending:
  "snd (send_stored env domain target sink k ms) = snd (send_pending (outcomes env k (length ms)) ms) \<and>
   fst (send_stored env domain target sink k ms) =
     map (\<lambda>(i, m). (sink, delivery_text domain target (sink_transport sink) (dl_branch env i) m))
       (enumerate k (fst (send_pending (outcomes env k (length ms)) ms)))"
proof (induction ms arbitrary: k)
  case (Cons m ms)
  show ?case
    using Cons [of "Suc k"]
    by (cases "send_pending (outcomes env (Suc k) (length ms)) ms";
        cases "send_stored env domain target sink (Suc k) ms")
       (simp add: outcomes_Suc Let_def)
qed simp

text \<open>The detailed task does to the queues what \<open>deliver_offline_messages\<close> does, and sends as many messages.\<close>

lemma deliver_stored_refines:
  assumes "messages = fst (take_messages (dl_now env) ext st)"
  shows "snd (deliver_stored cfg env rt ext meanwhile st) =
      snd (deliver_offline_messages (dl_now env) ext
        (get_outbound cfg (dl_now env) (rt_writers rt) (rt_registrar rt) ext \<noteq> None)
        (outcomes env 0 (length messages)) meanwhile st)"
    "length (fst (deliver_stored cfg env rt ext meanwhile st)) =
      length (fst (deliver_offline_messages (dl_now env) ext
        (get_outbound cfg (dl_now env) (rt_writers rt) (rt_registrar rt) ext \<noteq> None)
        (outcomes env 0 (length messages)) meanwhile st))"
  using assms send_stored_pending [of env "m_domain cfg"
      "registered_contact_uri (dl_now env) ext (m_domain cfg) (rt_registrar rt)" _ 0 messages]
  by (auto simp: deliver_stored_def deliver_offline_messages_def Let_def split: option.split prod.split)
     (metis fst_conv snd_conv length_map length_enumerate)+

section \<open>A stored message stays in the queue\<close>

text \<open>The message is in the queue with at most \<open>k\<close> newer ones behind it.\<close>

definition waits :: "offline_message \<Rightarrow> nat \<Rightarrow> offline_message list \<Rightarrow> bool" where
  "waits m k q \<longleftrightarrow> (\<exists>a b. q = a @ m # b \<and> length b \<le> k)"

lemma waitsI: "q = a @ m # b \<Longrightarrow> length b \<le> k \<Longrightarrow> waits m k q"
  by (auto simp: waits_def)

lemma waits_filter:
  assumes "waits m k q" "P m"
  shows "waits m k (filter P q)"
proof -
  obtain a b where "q = a @ m # b" "length b \<le> k" using assms(1) by (auto simp: waits_def)
  then show ?thesis
    using assms(2) le_trans [OF length_filter_le] by (intro waitsI [of _ "filter P a" _ "filter P b"]) auto
qed

lemma waits_push:
  assumes "waits m k q" "Suc k < MAX_OFFLINE_MESSAGES"
  shows "waits m (Suc k) ((if MAX_OFFLINE_MESSAGES \<le> length q then tl q else q) @ [x])"
proof -
  obtain a b where q: "q = a @ m # b" "length b \<le> k" using assms(1) by (auto simp: waits_def)
  show ?thesis
  proof (cases "MAX_OFFLINE_MESSAGES \<le> length q")
    case True
    then obtain y ys where "a = y # ys" using q assms(2) by (cases a) auto
    with q True show ?thesis by (intro waitsI [of _ ys _ "b @ [x]"]) auto
  next
    case False
    with q show ?thesis by (intro waitsI [of _ a _ "b @ [x]"]) auto
  qed
qed

lemma waits_mono: "waits m k q \<Longrightarrow> k \<le> n \<Longrightarrow> waits m n q"
  by (auto simp: waits_def intro: order_trans)

lemma queue_prune: "(case hm_get (prune_expired now tbl) k of Some q \<Rightarrow> q | None \<Rightarrow> []) =
    filter (still_valid now) (case hm_get tbl k of Some q \<Rightarrow> q | None \<Rightarrow> [])"
  by (simp add: prune_get split: option.split)

lemma queue_push: "(case hm_get (push_message callee x tbl) c of Some q \<Rightarrow> q | None \<Rightarrow> []) =
    (let q = (case hm_get tbl c of Some q \<Rightarrow> q | None \<Rightarrow> [])
     in if c = callee then (if MAX_OFFLINE_MESSAGES \<le> length q then tl q else q) @ [x] else q)"
  by (simp add: push_message_def Let_def)

lemma waits_store:
  assumes "waits m k (queue_of st c)" "still_valid now m" "Suc k < MAX_OFFLINE_MESSAGES"
  shows "waits m (Suc k) (queue_of (snd (store_offline_message now callee s req st)) c)"
proof -
  have p: "waits m k (case hm_get (prune_expired now (offline_messages st)) c of Some q \<Rightarrow> q | None \<Rightarrow> [])"
    using waits_filter [of m k "queue_of st c" "still_valid now", OF assms(1,2)] by (simp add: queue_prune queue_of_def)
  show ?thesis
  proof (cases rule: store_cases [of now callee s req st])
    case limited
    then show ?thesis using waits_mono [OF assms(1)] by (simp add: queue_of_def frame_simps)
  next
    case (refused out)
    then show ?thesis using waits_mono [OF p] by (simp add: queue_of_def)
  next
    case stored
    have o: "offline_messages (snd (store_offline_message now callee s req st)) = push_message callee
        \<lparr>from_ext = s, original_request = req, received_at = now\<rparr> (prune_expired now (offline_messages st))"
      by (simp add: stored(1))
    show ?thesis
    proof (cases "c = callee")
      case True
      with waits_push [OF p assms(3)] show ?thesis by (simp only: queue_of_def o queue_push Let_def simp_thms if_True)
    next
      case False
      with waits_mono [OF p, of "Suc k"] show ?thesis by (simp add: queue_of_def o queue_push)
    qed
  qed
qed

lemma waits_store_all:
  assumes "waits m k (queue_of st c)" "list_all (\<lambda>(now, _). still_valid now m) xs" "k + length xs < MAX_OFFLINE_MESSAGES"
  shows "waits m (k + length xs) (queue_of (store_all xs st) c)"
  using assms
proof (induction xs arbitrary: k st)
  case (Cons x xs)
  obtain now callee s req where x: "x = (now, callee, s, req)" by (cases x)
  have "waits m (Suc k) (queue_of (snd (store_offline_message now callee s req st)) c)"
    using Cons.prems x by (intro waits_store) auto
  from Cons.IH [OF this] Cons.prems x show ?case by simp
qed simp

lemma stored_waits:
  assumes "store_offline_message t callee s req st = (Stored, st')"
  shows "waits \<lparr>from_ext = s, original_request = req, received_at = t\<rparr> 0 (queue_of st' callee)"
  using assms
  by (cases rule: store_cases [of t callee s req st])
     (auto simp: queue_of_def push_message_def waits_def Let_def)

section \<open>The REGISTER that starts the delivery\<close>

lemma deliver_from_register:
  assumes "process_sip_message cfg env msg peer sink Tls st = (r, effs, st')" "Deliver ext \<in> set effs"
  shows "sv_messages st' = sv_messages st \<and> hm_get (rt_writers (sv_router st')) ext = Some sink \<and>
     authorised (rc_reg (svc_router cfg)) (se_reg env) msg peer Tls (rt_registrar (sv_router st)) ext"
proof -
  let ?rc = "rc_reg (svc_router cfg)" and ?reg = "rt_registrar (sv_router st)"
  have no: "Deliver ext \<notin> set (map In_Call es)" for es by auto
  have other: "Deliver ext \<notin> set (fst (snd (serve_request cfg env meth msg peer sink Tls st)))"
    if "meth \<noteq> ''REGISTER''" for meth
    using that by (auto simp: serve_request_def serve_message_def from_router_def from_router_silent_def Let_def
        split: prod.splits option.splits)
  obtain meth where m: "serve_request cfg env meth msg peer sink Tls st = (r, effs, st')"
    using assms no by (auto simp: process_sip_message_def from_router_silent_def split: if_splits option.splits prod.splits)
  then have "meth = ''REGISTER''" using other assms(2) by fastforce
  with m have s: "serve_register cfg env msg peer sink Tls st = (r, effs, st')" by (simp add: serve_request_def Let_def)
  obtain a reg where h: "handle_register ?rc (se_reg env) msg peer Tls ?reg = (a, reg)"
    by (cases "handle_register ?rc (se_reg env) msg peer Tls ?reg")
  let ?st = "st\<lparr>sv_router := (sv_router st)\<lparr>rt_registrar := reg\<rparr>\<rparr>"
  obtain resp where a: "a = Some resp" "associate_connection msg peer sink Tls resp ?st = Some (Some ext, st')"
    using s h assms(2) by (auto simp: serve_register_def Let_def split: option.splits)
  then obtain uri where u: "extract_status_code resp = Some 200" "extract_uri_from_header msg ''To'' = Some (Some uri)"
    "extract_extension uri = Some (Some ext)"
    and st': "st' = (set_connection_extension peer ext ?st)\<lparr>sv_router :=
        register_writer ext sink (sv_router (set_connection_extension peer ext ?st))\<rparr>"
    by (auto simp: associate_connection_def Let_def split: if_splits option.splits)
  have "fst (handle_register ?rc (se_reg env) msg peer Tls ?reg) = Some resp" using h a(1) by simp
  from register_200_authorised [OF this u(1)] u st' show ?thesis
    by (auto simp: register_extension_def set_connection_extension_def put_extension_def register_writer_def
        split: option.split)
qed

section \<open>Delivered\<close>

lemma send_stored_all:
  assumes "\<forall>i. dl_send env i"
  shows "snd (send_stored env domain target sink k ms) = [] \<and>
     length (fst (send_stored env domain target sink k ms)) = length ms \<and>
     (\<forall>i < length ms. fst (send_stored env domain target sink k ms) ! i =
        (sink, delivery_text domain target (sink_transport sink) (dl_branch env (k + i)) (ms ! i)))"
proof (induction ms arbitrary: k)
  case (Cons m ms)
  show ?case
    using Cons [of "Suc k"] assms
    by (auto simp: Let_def nth_Cons split: prod.splits nat.split) 
qed simp


text \<open>An instant message for extension 1001, stored while it is away, and its sign-on.\<close>

definition ex_stored_away :: message_state where
  "ex_stored_away = snd (store_offline_message 50 ''1001'' ''1002'' ex_forwarded message_new)"

definition ex_waiting_server :: server_state where
  "ex_waiting_server = ex_challenged_server\<lparr>sv_messages := ex_stored_away\<rparr>"

definition ex_delivery_env :: delivery_env where
  "ex_delivery_env = \<lparr>dl_now = 60, dl_branch = (\<lambda>i. ''z9'' @ show_nat i), dl_send = (\<lambda>i. True)\<rparr>"


end
