(* ===== verification/Port_Race.thy ===== *)
theory Port_Race
  imports Relay "HOL-Library.Multiset"
begin

text \<open>
  \<open>allocate_port_pair\<close> of \<open>src/media/relay.rs\<close> under concurrency. It is the one operation of the
  server that synchronises by atomic instructions and not by a lock: several tasks may be in its
  loop at the same time, each between its \<open>fetch_add\<close> and its \<open>compare_exchange\<close>. Here a call is
  a sequence of these instructions and calls interleave freely; \<open>Relay.alloc_loop\<close> is the call
  that runs alone.
\<close>

section \<open>Calls as sequences of atomic steps\<close>

text \<open>Where a call is: before \<open>fetch_add\<close>, before \<open>compare_exchange\<close> with the port it fetched, or
  done. The number is \<open>attempts\<close>.\<close>

datatype alloc_call = Fetching nat | Swapping nat u16 | Finished "u16 option"

definition fetch_step :: "u16 \<Rightarrow> nat \<Rightarrow> u16 \<Rightarrow> alloc_call \<times> u16" where
  "fetch_step port_end attempts next_port =
     (if port_end \<le> next_port then Swapping attempts next_port
      else if next_port mod 2 = 0 then Finished (Some next_port)
      else Fetching attempts,
      next_port + 2)"

definition swap_step :: "u16 \<Rightarrow> nat \<Rightarrow> u16 \<Rightarrow> u16 \<Rightarrow> alloc_call \<times> u16" where
  "swap_step port_start attempts fetched next_port =
     (if 3 < attempts + 1 then Finished None else Fetching (attempts + 1),
      if next_port = fetched + 2 then port_start else next_port)"

fun call_step :: "u16 \<Rightarrow> u16 \<Rightarrow> alloc_call \<Rightarrow> u16 \<Rightarrow> alloc_call \<times> u16" where
  "call_step port_start port_end (Fetching attempts) next_port = fetch_step port_end attempts next_port"
| "call_step port_start port_end (Swapping attempts fetched) next_port = swap_step port_start attempts fetched next_port"
| "call_step port_start port_end (Finished r) next_port = (Finished r, next_port)"

text \<open>The calls, the shared counter, and the ports handed out so far, in order.\<close>

record alloc_state =
  ac_calls :: "alloc_call list"
  ac_next :: u16
  ac_issued :: "u16 list"

text \<open>A step of call \<open>i\<close>; a schedule is the list of the calls that take a step, in order.\<close>

definition issues :: "alloc_call \<Rightarrow> alloc_call \<Rightarrow> u16 list" where
  "issues c c' = (case (c, c') of (Fetching a, Finished (Some p)) \<Rightarrow> [p] | _ \<Rightarrow> [])"

definition step_of :: "u16 \<Rightarrow> u16 \<Rightarrow> alloc_state \<Rightarrow> nat \<Rightarrow> alloc_state" where
  "step_of s e st i =
     (if i < length (ac_calls st) then
        (case call_step s e (ac_calls st ! i) (ac_next st) of
           (c, n) \<Rightarrow> \<lparr>ac_calls = (ac_calls st)[i := c], ac_next = n,
                      ac_issued = ac_issued st @ issues (ac_calls st ! i) c\<rparr>)
      else st)"

definition run_schedule :: "u16 \<Rightarrow> u16 \<Rightarrow> nat list \<Rightarrow> alloc_state \<Rightarrow> alloc_state" where
  "run_schedule s e sched st = foldl (step_of s e) st sched"

definition calls_begin :: "u16 \<Rightarrow> nat \<Rightarrow> alloc_state" where
  "calls_begin next_port n = \<lparr>ac_calls = replicate n (Fetching 0), ac_next = next_port, ac_issued = []\<rparr>"

section \<open>A call that runs alone\<close>

text \<open>Without interference the steps of a call are the loop of \<open>Relay\<close>.\<close>

fun run_alone :: "u16 \<Rightarrow> u16 \<Rightarrow> nat \<Rightarrow> alloc_call \<Rightarrow> u16 \<Rightarrow> alloc_call \<times> u16" where
  "run_alone s e 0 c n = (c, n)"
| "run_alone s e (Suc k) c n = (case call_step s e c n of (c', n') \<Rightarrow> run_alone s e k c' n')"

lemma run_alone_finished [simp]: "run_alone s e k (Finished r) n = (Finished r, n)"
  by (induction k) simp_all

lemma alone_is_alloc_loop:
  "alloc_loop s e a n = (r, n') \<Longrightarrow> \<exists>k. run_alone s e k (Fetching a) n = (Finished r, n')"
proof (induction s e a n rule: alloc_loop.induct)
  case (1 s e a p)
  show ?case
  proof (cases "e \<le> p")
    case True
    have two: "run_alone s e (Suc (Suc k)) (Fetching a) p =
        (if 3 < a + 1 then (Finished None, s) else run_alone s e k (Fetching (a + 1)) s)" for k
      using True by (simp add: fetch_step_def swap_step_def)
    show ?thesis
    proof (cases "3 < a + 1")
      case t: True
      have "(r, n') = (None, s)" using "1.prems" True t by (simp add: alloc_loop.simps [of s e a p])
      then have "run_alone s e (Suc (Suc 0)) (Fetching a) p = (Finished r, n')" unfolding two using t by simp
      then show ?thesis ..
    next
      case False
      then have "alloc_loop s e (a + 1) s = (r, n')" using "1.prems" True by (simp add: alloc_loop.simps [of s e a p])
      from "1.IH"(1) [OF True False this] obtain k where "run_alone s e k (Fetching (a + 1)) s = (Finished r, n')" ..
      then show ?thesis using two [of k] False by (metis)
    qed
  next
    case False
    show ?thesis
    proof (cases "p mod 2 = 0")
      case True
      then show ?thesis using "1.prems" False
        by (intro exI [of _ 1]) (simp add: alloc_loop.simps [of s e a p] fetch_step_def)
    next
      case odd: False
      then have "alloc_loop s e a (p + 2) = (r, n')" using "1.prems" False by (simp add: alloc_loop.simps [of s e a p])
      from "1.IH"(2) [OF False odd this] obtain k where "run_alone s e k (Fetching a) (p + 2) = (Finished r, n')" ..
      then show ?thesis using False odd by (intro exI [of _ "Suc k"]) (simp add: fetch_step_def)
    qed
  qed
qed

section \<open>Every call ends\<close>

text \<open>How far a call is, out of eight steps.\<close>

fun progress :: "alloc_call \<Rightarrow> nat" where
  "progress (Fetching a) = 2 * a"
| "progress (Swapping a p) = 2 * a + 1"
| "progress (Finished r) = 8"

fun call_ok :: "alloc_call \<Rightarrow> bool" where
  "call_ok (Fetching a) \<longleftrightarrow> a \<le> 3"
| "call_ok (Swapping a p) \<longleftrightarrow> a \<le> 3"
| "call_ok (Finished r) \<longleftrightarrow> True"

definition even_state :: "alloc_state \<Rightarrow> bool" where
  "even_state st \<longleftrightarrow> even (unat (ac_next st)) \<and> list_all call_ok (ac_calls st)"

lemma even_plus_two: "even (unat n) \<Longrightarrow> even (unat (n + 2))" for n :: u16
  by (simp add: unat_word_ariths mod_two [symmetric] dvd_mod_iff)

lemma call_step_ok:
  assumes "call_step s e c n = (c', n')" "call_ok c" "even (unat n)" "even (unat s)"
  shows "call_ok c' \<and> even (unat n') \<and> (progress c = 8 \<and> c' = c \<or> progress c < progress c')"
  using assms even_plus_two [of n]
  by (cases c) (auto simp: fetch_step_def swap_step_def mod_two split: if_splits)

lemma step_of_calls: "length (ac_calls (step_of s e st i)) = length (ac_calls st)"
  by (simp add: step_of_def split: prod.split)

lemma run_schedule_calls: "length (ac_calls (run_schedule s e sched st)) = length (ac_calls st)"
  unfolding run_schedule_def by (induction sched arbitrary: st) (simp_all add: step_of_calls)

lemma step_of_even:
  assumes "even_state st" "even (unat s)"
  shows "even_state (step_of s e st i)"
    "j < length (ac_calls st) \<Longrightarrow>
       min 8 (progress (ac_calls st ! j) + (if i = j then 1 else 0)) \<le> progress (ac_calls (step_of s e st i) ! j)"
proof -
  obtain c n where c: "call_step s e (ac_calls st ! i) (ac_next st) = (c, n)"
    by (cases "call_step s e (ac_calls st ! i) (ac_next st)")
  have ok: "call_ok c \<and> even (unat n) \<and>
      (progress (ac_calls st ! i) = 8 \<and> c = ac_calls st ! i \<or> progress (ac_calls st ! i) < progress c)"
    if "i < length (ac_calls st)"
    using that assms c by (intro call_step_ok [of s e _ "ac_next st"]) (auto simp: even_state_def list_all_length)
  show "even_state (step_of s e st i)"
    using ok assms(1) c by (auto simp: even_state_def step_of_def list_all_length nth_list_update)
  show "min 8 (progress (ac_calls st ! j) + (if i = j then 1 else 0)) \<le> progress (ac_calls (step_of s e st i) ! j)"
    if "j < length (ac_calls st)"
    using ok that c by (auto simp: step_of_def nth_list_update)
qed

lemma schedule_progress:
  assumes "even_state st" "even (unat s)" "i < length (ac_calls st)"
  shows "min 8 (progress (ac_calls st ! i) + count_list sched i) \<le> progress (ac_calls (run_schedule s e sched st) ! i)"
  using assms
proof (induction sched arbitrary: st)
  case (Cons j sched)
  let ?st = "step_of s e st j"
  have "min 8 (progress (ac_calls ?st ! i) + count_list sched i) \<le> progress (ac_calls (run_schedule s e sched ?st) ! i)"
    using Cons.prems step_of_even(1) by (intro Cons.IH) (auto simp: step_of_calls)
  moreover have "min 8 (progress (ac_calls st ! i) + (if j = i then 1 else 0)) \<le> progress (ac_calls ?st ! i)"
    using step_of_even(2) [OF Cons.prems] by simp
  ultimately show ?case
    by (cases "j = i") (auto simp: run_schedule_def min_def split: if_splits)
qed (simp add: run_schedule_def)

lemma run_even: "even_state st \<Longrightarrow> even (unat s) \<Longrightarrow> even_state (run_schedule s e sched st)"
  unfolding run_schedule_def by (induction sched arbitrary: st) (simp_all add: step_of_even(1))

lemma begin_even: "even (unat n) \<Longrightarrow> even_state (calls_begin n k)"
  by (simp add: even_state_def calls_begin_def list_all_length)

text \<open>C30: allocating a port is wait-free: after eight steps of its own a call has returned, whatever the
  other calls do in between and whatever the counter does, because a call whose counter is
  taken by others again and again gives up at its fourth attempt.\<close>

theorem allocation_wait_free:
  assumes "even (unat s)" "even (unat next_port)" "i < n" "8 \<le> count_list sched i"
  shows "\<exists>r. ac_calls (run_schedule s e sched (calls_begin next_port n)) ! i = Finished r"
proof -
  let ?c = "ac_calls (run_schedule s e sched (calls_begin next_port n)) ! i"
  have st: "even_state (run_schedule s e sched (calls_begin next_port n))"
    using assms(1,2) by (intro run_even begin_even)
  have "8 \<le> progress ?c"
    using schedule_progress [OF begin_even [OF assms(2)] assms(1), of i n sched e] assms(3,4)
    by (simp add: calls_begin_def)
  moreover have "call_ok ?c"
    using st assms(3) by (simp add: even_state_def list_all_length run_schedule_calls calls_begin_def)
  ultimately show ?thesis by (cases ?c) auto
qed

section \<open>Which ports the calls get\<close>

definition handed_out :: "alloc_call list \<Rightarrow> u16 list" where
  "handed_out calls = concat (map (\<lambda>c. case c of Finished (Some p) \<Rightarrow> [p] | _ \<Rightarrow> []) calls)"

text \<open>The counter after \<open>g\<close> allocations, seen from outside: at the next port of the turn, or past the
  last one when the turn is complete.\<close>

definition pool_at :: "u16 \<Rightarrow> u16 \<Rightarrow> nat \<Rightarrow> u16 \<Rightarrow> bool" where
  "pool_at s e g next_port \<longleftrightarrow> next_port = pool_port s (g mod pool_size s e) \<or>
     g mod pool_size s e = 0 \<and> next_port = pool_port s (pool_size s e)"

text \<open>How far a call may have pushed the counter past the range.\<close>

fun pushed :: "alloc_call \<Rightarrow> nat" where
  "pushed (Fetching a) = a"
| "pushed (Swapping a p) = a + 1"
| "pushed (Finished None) = 4"
| "pushed (Finished (Some p)) = 0"

text \<open>The invariant on the calls \<open>cs\<close>, the counter \<open>n\<close> and the ports \<open>out\<close> handed out after the first
  \<open>k\<close>; \<open>pos\<close> is the counter in ports from the start of the range. Past the range the call that
  fetched last is about to reset it.\<close>

fun call_in :: "u16 \<Rightarrow> alloc_call \<Rightarrow> bool" where
  "call_in e (Fetching a) \<longleftrightarrow> a \<le> 3"
| "call_in e (Swapping a p) \<longleftrightarrow> a \<le> 3 \<and> e \<le> p \<and> unat p < 65534"
| "call_in e (Finished r) \<longleftrightarrow> True"

definition counter_at :: "u16 \<Rightarrow> u16 \<Rightarrow> nat \<Rightarrow> alloc_call list \<Rightarrow> u16 \<Rightarrow> nat \<Rightarrow> bool" where
  "counter_at s e g cs n pos \<longleftrightarrow> unat n = unat s + 2 * pos \<and>
     (pos = g mod pool_size s e \<or> pool_size s e \<le> pos \<and> g mod pool_size s e = 0) \<and>
     pos \<le> pool_size s e + sum_list (map pushed cs) \<and>
     (pool_size s e < pos \<longrightarrow> (\<exists>a p. Swapping a p \<in> set cs \<and> n = p + 2))"

definition race_inv :: "u16 \<Rightarrow> u16 \<Rightarrow> nat \<Rightarrow> alloc_call list \<Rightarrow> u16 \<Rightarrow> u16 list \<Rightarrow> bool" where
  "race_inv s e k cs n out \<longleftrightarrow> list_all (call_in e) cs \<and>
     out = map (\<lambda>i. pool_port s (i mod pool_size s e)) [k..<k + length out] \<and>
     mset (handed_out cs) = mset out \<and> (\<exists>pos. counter_at s e (k + length out) cs n pos)"

lemma handed_out_append [simp]: "handed_out (xs @ ys) = handed_out xs @ handed_out ys"
  by (simp add: handed_out_def)

lemma pushed_bound: "list_all (call_in e) cs \<Longrightarrow> sum_list (map pushed cs) \<le> 4 * length cs"
proof (induction cs)
  case (Cons c cs)
  have "pushed c \<le> 4" using Cons.prems by (cases c rule: pushed.cases) auto
  with Cons show ?case by simp
qed simp

lemma in_range: "good_range s e \<Longrightarrow> unat n = unat s + 2 * pos \<Longrightarrow> e \<le> n \<longleftrightarrow> pool_size s e \<le> pos"
  by (auto simp: good_range_def pool_size_def word_le_nat_alt word_less_nat_alt)

text \<open>The steps of one call \<open>c\<close> between the others \<open>xs\<close> and \<open>ys\<close>.\<close>

lemma fetch_past:
  assumes r: "good_range s e" and b: "unat e + 8 * length (xs @ Fetching a # ys) + 1 < 65536"
    and i: "race_inv s e k (xs @ Fetching a # ys) n out" and past: "e \<le> n"
  shows "race_inv s e k (xs @ Swapping a n # ys) (n + 2) out"
proof -
  let ?m = "pool_size s e" and ?g = "k + length out"
  obtain pos where p: "counter_at s e ?g (xs @ Fetching a # ys) n pos" using i by (auto simp: race_inv_def)
  have m: "0 < ?m" and pos: "?m \<le> pos"
    using pool_size_pos [OF r] in_range [OF r] p past by (auto simp: counter_at_def)
  have g: "?g mod ?m = 0" using p pos m mod_less_divisor [OF m, of ?g] by (auto simp: counter_at_def)
  have ok: "list_all (call_in e) (xs @ Fetching a # ys)" using i by (simp add: race_inv_def)
  have "unat s + 2 * ?m \<le> unat e + 1" using r by (auto simp: good_range_def pool_size_def word_less_nat_alt)
  then have le: "unat s + 2 * pos \<le> unat e + 1 + 2 * sum_list (map pushed (xs @ Fetching a # ys))"
    using p by (auto simp: counter_at_def)
  have "pushed (Fetching a) \<le> 3" using ok by simp
  then have "sum_list (map pushed (xs @ Fetching a # ys)) + 1 \<le> 4 * length (xs @ Fetching a # ys)"
    using pushed_bound [of e xs] pushed_bound [of e ys] ok by simp
  then have lt: "unat n + 2 < 65536" using le b p by (simp add: counter_at_def)
  then have n2: "unat (n + 2) = unat n + 2" by (simp add: unat_word_ariths)
  have "counter_at s e ?g (xs @ Swapping a n # ys) (n + 2) (Suc pos)"
    using p g pos n2 by (auto simp: counter_at_def)
  then show ?thesis using i ok past lt by (auto simp: race_inv_def handed_out_def)
qed

lemma fetch_port:
  assumes r: "good_range s e" and i: "race_inv s e k (xs @ Fetching a # ys) n out" and low: "\<not> e \<le> n"
  shows "n mod 2 = 0 \<and> race_inv s e k (xs @ Finished (Some n) # ys) (n + 2) (out @ [n])"
proof -
  let ?m = "pool_size s e" and ?g = "k + length out"
  obtain pos where p: "counter_at s e ?g (xs @ Fetching a # ys) n pos" using i by (auto simp: race_inv_def)
  have m: "0 < ?m" and pos: "pos < ?m"
    using pool_size_pos [OF r] in_range [OF r] p low by (auto simp: counter_at_def)
  have g: "pos = ?g mod ?m" using p pos by (auto simp: counter_at_def)
  have n: "n = pool_port s pos"
    using p unat_pool_port [OF r, of pos] pos by (simp add: counter_at_def word_unat_eq_iff)
  have n2: "unat (n + 2) = unat s + 2 * Suc pos"
    using unat_pool_port [OF r, of "Suc pos"] pos n by (simp add: pool_port_Suc)
  have "counter_at s e (k + length (out @ [n])) (xs @ Finished (Some n) # ys) (n + 2) (Suc pos)"
    using pos n2 g by (auto simp: counter_at_def mod_Suc)
  moreover have "list_all (call_in e) (xs @ Finished (Some n) # ys)"
    "mset (handed_out (xs @ Finished (Some n) # ys)) = mset (out @ [n])"
    using i by (simp_all add: race_inv_def handed_out_def)
  moreover have "out @ [n] = map (\<lambda>i. pool_port s (i mod ?m)) [k..<k + length (out @ [n])]"
    using i n g by (simp add: race_inv_def)
  moreover have "n mod 2 = 0" using p r by (simp add: mod_two counter_at_def good_range_def)
  ultimately show ?thesis unfolding race_inv_def by blast
qed

lemma swap_reset:
  assumes r: "good_range s e" and i: "race_inv s e k (xs @ Swapping a p # ys) (p + 2) out"
  shows "race_inv s e k (xs @ (if 3 < a + 1 then Finished None else Fetching (a + 1)) # ys) s out"
proof -
  let ?m = "pool_size s e" and ?g = "k + length out"
  obtain pos where p: "counter_at s e ?g (xs @ Swapping a p # ys) (p + 2) pos" using i by (auto simp: race_inv_def)
  have c: "a \<le> 3" "e \<le> p" "unat p < 65534" using i by (auto simp: race_inv_def)
  then have "e \<le> p + 2" by (simp add: word_le_nat_alt unat_word_ariths)
  then have pos: "?m \<le> pos" using in_range [OF r] p by (simp add: counter_at_def)
  have "?g mod ?m = 0" using p pos mod_less_divisor [OF pool_size_pos [OF r], of ?g] by (auto simp: counter_at_def)
  then have "counter_at s e ?g (xs @ (if 3 < a + 1 then Finished None else Fetching (a + 1)) # ys) s 0"
    by (simp add: counter_at_def)
  then show ?thesis using i c by (auto simp: race_inv_def handed_out_def)
qed

lemma swap_fail:
  assumes i: "race_inv s e k (xs @ Swapping a p # ys) n out" and ne: "n \<noteq> p + 2"
  shows "race_inv s e k (xs @ (if 3 < a + 1 then Finished None else Fetching (a + 1)) # ys) n out"
proof -
  let ?g = "k + length out"
  obtain pos where p: "counter_at s e ?g (xs @ Swapping a p # ys) n pos" using i by (auto simp: race_inv_def)
  have c: "a \<le> 3" using i by (auto simp: race_inv_def)
  have "counter_at s e ?g (xs @ (if 3 < a + 1 then Finished None else Fetching (a + 1)) # ys) n pos"
    using p c ne by (auto simp: counter_at_def)
  then show ?thesis using i c by (auto simp: race_inv_def handed_out_def)
qed

lemma same_residue:
  fixes a b m :: nat
  assumes "a \<le> b" "b < a + m" "a mod m = b mod m"
  shows "a = b"
proof -
  have "m dvd b - a" using mod_eq_dvd_iff_nat [OF assms(1), of m] assms(3) by simp
  then have "b - a = 0 \<or> m \<le> b - a" by (metis dvd_imp_le neq0_conv)
  then show ?thesis using assms(1,2) by linarith
qed

lemma turn_distinct:
  assumes "good_range s e" "n \<le> pool_size s e"
  shows "distinct (map (\<lambda>i. pool_port s (i mod pool_size s e)) [k..<k + n])"
proof -
  let ?m = "pool_size s e"
  have "x = y" if "x \<in> {k..<k + n}" "y \<in> {k..<k + n}" "pool_port s (x mod ?m) = pool_port s (y mod ?m)" for x y
  proof -
    have u: "unat (pool_port s (z mod ?m)) = unat s + 2 * (z mod ?m)" for z
      by (rule unat_pool_port [OF assms(1) less_imp_le [OF mod_less_divisor [OF pool_size_pos [OF assms(1)]]]])
    have "unat s + 2 * (x mod ?m) = unat s + 2 * (y mod ?m)" unfolding u [symmetric] that(3) ..
    then have eq: "x mod ?m = y mod ?m" by simp
    show ?thesis
    proof (cases "x \<le> y")
      case True
      then show ?thesis using that(1,2) assms(2) by (intro same_residue [OF True _ eq]) simp
    next
      case False
      then have "y \<le> x" by simp
      then show ?thesis using that(1,2) assms(2) by (intro same_residue [OF _ _ eq [symmetric], symmetric]) auto
    qed
  qed
  then show ?thesis unfolding distinct_map by (auto intro!: inj_onI)
qed

lemma call_step_race:
  assumes r: "good_range s e" and b: "unat e + 8 * length (xs @ c # ys) + 1 < 65536"
    and i: "race_inv s e k (xs @ c # ys) n out" and c: "call_step s e c n = (c', n')"
  shows "race_inv s e k (xs @ c' # ys) n' (out @ issues c c')"
proof (cases c)
  case (Fetching a)
  show ?thesis
  proof (cases "e \<le> n")
    case True
    with fetch_past [OF r, of xs a ys k n out] b i c Fetching show ?thesis by (auto simp: fetch_step_def issues_def)
  next
    case False
    with fetch_port [OF r, of k xs a ys n out] i c Fetching show ?thesis by (auto simp: fetch_step_def issues_def)
  qed
next
  case (Swapping a p)
  show ?thesis
  proof (cases "n = p + 2")
    case True
    with swap_reset [OF r, of k xs a p ys out] i c Swapping show ?thesis by (auto simp: swap_step_def issues_def)
  next
    case False
    with swap_fail [of s e k xs a p ys n out] i c Swapping show ?thesis by (auto simp: swap_step_def issues_def)
  qed
next
  case (Finished x)
  then have "c' = Finished x" "n' = n" using c by simp_all
  with i Finished show ?thesis by (simp add: issues_def)
qed

lemma step_of_race:
  assumes "good_range s e" "unat e + 8 * length (ac_calls st) + 1 < 65536"
    and "race_inv s e k (ac_calls st) (ac_next st) (ac_issued st)"
  shows "race_inv s e k (ac_calls (step_of s e st i)) (ac_next (step_of s e st i)) (ac_issued (step_of s e st i))"
proof (cases "i < length (ac_calls st)")
  case True
  let ?xs = "take i (ac_calls st)" and ?ys = "drop (Suc i) (ac_calls st)" and ?c = "ac_calls st ! i"
  obtain c' n' where c: "call_step s e ?c (ac_next st) = (c', n')" by (cases "call_step s e ?c (ac_next st)")
  have d: "ac_calls st = ?xs @ ?c # ?ys" using True by (simp add: id_take_nth_drop)
  have "race_inv s e k (?xs @ c' # ?ys) n' (ac_issued st @ issues ?c c')"
    using assms(2,3) by (intro call_step_race [OF assms(1) _ _ c]) (simp_all flip: d)
  then show ?thesis using True c by (simp add: step_of_def upd_conv_take_nth_drop)
next
  case False
  then show ?thesis using assms(3) by (simp add: step_of_def)
qed

lemma run_race:
  assumes "good_range s e" "unat e + 8 * length (ac_calls st) + 1 < 65536"
    and "race_inv s e k (ac_calls st) (ac_next st) (ac_issued st)"
  shows "let st' = run_schedule s e sched st in race_inv s e k (ac_calls st') (ac_next st') (ac_issued st')"
  using assms(2,3)
proof (induction sched arbitrary: st)
  case (Cons i sched)
  from Cons.IH [of "step_of s e st i"] Cons.prems step_of_race [OF assms(1) Cons.prems] show ?case
    by (simp add: run_schedule_def step_of_calls)
qed (simp add: run_schedule_def)

lemma begin_race:
  assumes "good_range s e" "pool_at s e k next_port"
  shows "race_inv s e k (replicate n (Fetching 0)) next_port []"
proof -
  note m = pool_size_pos [OF assms(1)]
  have "\<exists>pos. counter_at s e k (replicate n (Fetching 0)) next_port pos"
  proof (cases "next_port = pool_port s (k mod pool_size s e)")
    case True
    then show ?thesis
      using unat_pool_port [OF assms(1) less_imp_le [OF mod_less_divisor [OF m, of k]]] mod_less_divisor [OF m, of k]
      by (intro exI [of _ "k mod pool_size s e"]) (simp add: counter_at_def)
  next
    case False
    then show ?thesis using assms(2) unat_pool_port [OF assms(1), of "pool_size s e"]
      by (intro exI [of _ "pool_size s e"]) (simp add: counter_at_def pool_at_def)
  qed
  moreover have "handed_out (replicate n (Fetching 0)) = []" by (simp add: handed_out_def)
  moreover have "list_all (call_in e) (replicate n (Fetching 0))" by (simp add: list_all_length)
  ultimately show ?thesis by (simp add: race_inv_def)
qed


section \<open>Two calls at the end of a turn\<close>

text \<open>When the range has been gone through, the next call resets the counter. Of two calls that
  take turns here, each fetch makes the pending reset of the other fail.\<close>

definition ex_turns :: "nat list" where
  "ex_turns = [0, 1, 0, 0, 1, 1, 0, 0, 1, 1, 0, 0, 1, 1, 0, 1]"

lemma past_end:
  assumes "good_range s e" "unat e + 17 < 65536" "j \<le> 7"
  shows "e \<le> pool_port s (pool_size s e) + of_nat (2 * j)"
    "unat (pool_port s (pool_size s e) + of_nat (2 * j)) = unat s + 2 * pool_size s e + 2 * j"
proof -
  have m: "unat s + 2 * pool_size s e \<le> unat e + 1" "unat e \<le> unat s + 2 * pool_size s e"
    using assms(1) by (auto simp: good_range_def pool_size_def word_less_nat_alt)
  have "unat (of_nat (2 * j) :: u16) = 2 * j" using assms(3) by (intro unat_of_nat_small) simp
  then show u: "unat (pool_port s (pool_size s e) + of_nat (2 * j)) = unat s + 2 * pool_size s e + 2 * j"
    using unat_pool_port [OF assms(1) order_refl] m(1) assms(2,3)
    by (simp add: unat_word_ariths del: of_nat_mult of_nat_numeral)
  show "e \<le> pool_port s (pool_size s e) + of_nat (2 * j)" unfolding word_le_nat_alt u using m(2) by simp
qed

definition both_past :: "nat \<Rightarrow> u16 \<Rightarrow> alloc_state" where
  "both_past a n = \<lparr>ac_calls = [Swapping a n, Swapping a (n + 2)], ac_next = n + 4, ac_issued = []\<rparr>"

lemma two_calls:
  "e \<le> n \<Longrightarrow> e \<le> n + 2 \<Longrightarrow> run_schedule s e [0, 1] (calls_begin n 2) = both_past 0 n"
  "a < 3 \<Longrightarrow> e \<le> n + 4 \<Longrightarrow> e \<le> n + 6 \<Longrightarrow> run_schedule s e [0, 0, 1, 1] (both_past a n) = both_past (a + 1) (n + 4)"
  "run_schedule s e [0, 1] (both_past 3 n) = \<lparr>ac_calls = [Finished None, Finished None], ac_next = s, ac_issued = []\<rparr>"
  by (simp_all add: run_schedule_def calls_begin_def both_past_def step_of_def fetch_step_def swap_step_def issues_def
      numeral_2_eq_2 add.commute [of 6])

lemma run_schedule_append: "run_schedule s e (xs @ ys) st = run_schedule s e ys (run_schedule s e xs st)"
  by (simp add: run_schedule_def)

text \<open>C39: the pool looks exhausted when it is not. With every range, two calls that meet at the end of a
  turn can both return \<open>None\<close>, so that both INVITEs are answered 503, although no port was handed
  out and a call that runs alone gets the first port of the range.\<close>

theorem spurious_exhaustion:
  assumes "good_range s e" "unat e + 17 < 65536"
  shows "run_schedule s e ex_turns (calls_begin (pool_port s (pool_size s e)) 2) =
       \<lparr>ac_calls = [Finished None, Finished None], ac_next = s, ac_issued = []\<rparr> \<and>
     fst (alloc_loop s e 0 (pool_port s (pool_size s e))) = Some s"
proof -
  let ?n = "pool_port s (pool_size s e)"
  have le: "e \<le> ?n" "e \<le> ?n + 2" "e \<le> ?n + 4" "e \<le> ?n + 6" "e \<le> ?n + 8" "e \<le> ?n + 10" "e \<le> ?n + 12" "e \<le> ?n + 14"
    using past_end(1) [OF assms, of 0] past_end(1) [OF assms, of 1] past_end(1) [OF assms, of 2] past_end(1) [OF assms, of 3]
      past_end(1) [OF assms, of 4] past_end(1) [OF assms, of 5] past_end(1) [OF assms, of 6] past_end(1) [OF assms, of 7]
    by simp_all
  have turns: "ex_turns = [0, 1] @ [0, 0, 1, 1] @ [0, 0, 1, 1] @ [0, 0, 1, 1] @ [0, 1]" by (simp add: ex_turns_def)
  have rounds: "run_schedule s e [0, 1] (calls_begin ?n 2) = both_past 0 ?n"
    "run_schedule s e [0, 0, 1, 1] (both_past 0 ?n) = both_past 1 (?n + 4)"
    "run_schedule s e [0, 0, 1, 1] (both_past 1 (?n + 4)) = both_past 2 (?n + 8)"
    "run_schedule s e [0, 0, 1, 1] (both_past 2 (?n + 8)) = both_past 3 (?n + 12)"
    using two_calls(1) [OF le(1,2)] two_calls(2) [of 0 e ?n s] two_calls(2) [of 1 e "?n + 4" s]
      two_calls(2) [of 2 e "?n + 8" s] le
    by (simp_all add: add.assoc numeral_2_eq_2 numeral_3_eq_3)
  have "run_schedule s e ex_turns (calls_begin ?n 2) =
      \<lparr>ac_calls = [Finished None, Finished None], ac_next = s, ac_issued = []\<rparr>"
    unfolding turns run_schedule_append rounds by (rule two_calls(3))
  moreover have "fst (alloc_loop s e 0 ?n) = Some s" by (simp add: alloc_wraps [OF assms(1)])
  ultimately show ?thesis by blast
qed

section \<open>Witnesses\<close>

text \<open>Three calls in a range of three ports, the counter at the second: the calls overlap while the
  turn ends.\<close>

definition ex_overlap :: "nat list" where
  "ex_overlap = [0, 1, 2, 2, 2]"

lemma ex_range: "good_range 20000 20006" "pool_size 20000 20006 = 3"
  by (simp_all add: good_range_def pool_size_def)

theorem allocation_wait_free_witness:
  "\<exists>r. ac_calls (run_schedule 20000 20006 (replicate 8 1 @ ex_turns) (calls_begin 20006 2)) ! 1 = Finished r"
  by (rule allocation_wait_free) (simp_all add: ex_turns_def)


theorem spurious_exhaustion_witness:
  "ac_calls (run_schedule 20000 20006 ex_turns (calls_begin 20006 2)) = [Finished None, Finished None]"
  using spurious_exhaustion [OF ex_range(1)] by (simp add: ex_range pool_port_def)

end
